(* ===== verification/Prelude.thy ===== *)
theory Prelude
  imports Main "HOL-Library.Word"
begin

text \<open>
  Shared vocabulary of the development: bytes and byte strings, the outcome of a Go call
  (a value, an error, or a run-time panic), fixed-width big-endian integers as
  \<^verbatim>\<open>encoding/binary\<close> writes them, and the generic facts on lists, words and
  options that several components use. The collection \<open>wire\<close> gathers the round-trip rules
  of the encoders so that \<open>simp add: wire\<close> carries the codec proofs.
\<close>

unbundle bit_operations_syntax

named_theorems wire \<open>round-trip and length rules of the wire encoders\<close>

section \<open>Bytes, strings and outcomes\<close>

type_synonym byte = "8 word"
type_synonym bytes = "byte list"
type_synonym u16 = "16 word"
type_synonym u32 = "32 word"
type_synonym u64 = "64 word"

text \<open>A Go call returns a value, returns a non-nil error, or panics.\<close>

datatype ('e, 'a) outcome = Ok 'a | Err 'e | Panic

fun map_outcome :: "('a \<Rightarrow> 'b) \<Rightarrow> ('e, 'a) outcome \<Rightarrow> ('e, 'b) outcome" where
  "map_outcome f (Ok x) = Ok (f x)"
| "map_outcome f (Err e) = Err e"
| "map_outcome f Panic = Panic"

fun is_ok :: "('e, 'a) outcome \<Rightarrow> bool" where
  "is_ok (Ok _) = True"
| "is_ok (Err _) = False"
| "is_ok Panic = False"

text \<open>
  A Go string is a sequence of bytes. The model writes it as a HOL \<open>string\<close> (whose
  characters are exactly the 256 byte values), and \<open>str_bytes\<close> and \<open>bytes_str\<close> are the
  conversions \<^verbatim>\<open>[]byte(s)\<close> and \<^verbatim>\<open>string(b)\<close>.
\<close>

definition str_bytes :: "string \<Rightarrow> bytes" where
  "str_bytes s = map of_char s"

definition bytes_str :: "bytes \<Rightarrow> string" where
  "bytes_str bs = map (\<lambda>b. char_of (unat b)) bs"

lemma length_str_bytes [simp]: "length (str_bytes s) = length s"
  by (simp add: str_bytes_def)

lemma length_bytes_str [simp]: "length (bytes_str bs) = length bs"
  by (simp add: bytes_str_def)

lemma unat_of_char [simp]: "unat (of_char c :: 8 word) = of_char c"
proof -
  have "unat (of_char c :: 8 word) = unat (word_of_nat (of_char c) :: 8 word)"
    by (metis of_nat_of_char)
  also have "\<dots> = of_char c"
    by (simp add: unat_of_nat take_bit_nat_eq_self)
  finally show ?thesis .
qed

lemma bytes_str_str_bytes [simp]: "bytes_str (str_bytes s) = s"
  by (simp add: str_bytes_def bytes_str_def comp_def map_idI)

lemma unat_byte_lt [simp]: "unat (b :: 8 word) < 256"
  using unsigned_less [of b] by simp

lemma of_char_char_of_byte [simp]: "(of_char (char_of (unat b)) :: 8 word) = b"
  by (simp add: word_unat_eq_iff)

lemma str_bytes_bytes_str [simp]: "str_bytes (bytes_str bs) = bs"
  by (simp add: str_bytes_def bytes_str_def comp_def map_idI)

lemma str_bytes_append [simp]: "str_bytes (s @ t) = str_bytes s @ str_bytes t"
  by (simp add: str_bytes_def)

lemma bytes_str_append [simp]: "bytes_str (s @ t) = bytes_str s @ bytes_str t"
  by (simp add: bytes_str_def)

lemma str_bytes_inj: "str_bytes s = str_bytes t \<longleftrightarrow> s = t"
  by (metis bytes_str_str_bytes)

section \<open>Big-endian integers\<close>

text \<open>\<^verbatim>\<open>binary.BigEndian.PutUint16\<close> and \<^verbatim>\<open>Uint16\<close>; the callers check the length first.\<close>

definition be16 :: "u16 \<Rightarrow> bytes" where
  "be16 w = [ucast (drop_bit 8 w), ucast w]"

fun of_be16 :: "bytes \<Rightarrow> u16" where
  "of_be16 (a # b # _) = push_bit 8 (ucast a) OR ucast b"
| "of_be16 _ = 0"

lemma length_be16 [simp]: "length (be16 w) = 2"
  by (simp add: be16_def)

lemma of_be16_append [wire, simp]: "of_be16 (be16 w @ r) = w"
  by (rule bit_word_eqI) (auto simp: be16_def bit_simps)

lemma of_be16_be16 [simp]: "of_be16 (be16 w) = w"
  using of_be16_append [of w "[]"] by simp

lemma bit_byte_high [simp]: "\<not> bit (b :: byte) (8 + n)"
  by (rule impossible_bit) simp

lemma be16_of_be16 [wire, simp]: "be16 (of_be16 (a # b # r)) = [a, b]"
  by (auto simp: be16_def intro!: bit_word_eqI simp: bit_simps)

lemma be16_take_of_be16: "2 \<le> length bs \<Longrightarrow> be16 (of_be16 bs) = take 2 bs"
  by (cases bs rule: of_be16.cases) (auto simp del: of_be16.simps)

lemma of_be16_take [simp]: "of_be16 (take (Suc (Suc n)) bs) = of_be16 bs"
  by (cases bs rule: of_be16.cases) auto

lemma of_be16_take2 [simp]: "of_be16 (take 2 bs) = of_be16 bs"
  by (simp add: numeral_2_eq_2)

lemma unat_u16_less: "unat (w :: u16) < 65536"
  using unsigned_less [of w] by simp

text \<open>\<^verbatim>\<open>PutUint64\<close>: eight bytes, most significant first.\<close>

fun be_bytes :: "nat \<Rightarrow> 'a::len word \<Rightarrow> bytes" where
  "be_bytes 0 w = []"
| "be_bytes (Suc n) w = be_bytes n (drop_bit 8 w) @ [ucast w]"

definition be_value :: "bytes \<Rightarrow> 'a::len word" where
  "be_value bs = foldl (\<lambda>acc b. push_bit 8 acc OR ucast b) 0 bs"

definition be64 :: "u64 \<Rightarrow> bytes" where
  "be64 w = be_bytes 8 w"

definition of_be64 :: "bytes \<Rightarrow> u64" where
  "of_be64 bs = be_value (take 8 bs)"

lemma length_be_bytes [simp]: "length (be_bytes n w) = n"
  by (induction n w rule: be_bytes.induct) auto

lemma be_value_be_bytes: "be_value (be_bytes n w) = take_bit (8 * n) w"
proof -
  have "foldl (\<lambda>acc b. push_bit 8 acc OR ucast b) acc (be_bytes n w) =
      push_bit (8 * n) acc OR take_bit (8 * n) w" for acc
  proof (induction n w arbitrary: acc rule: be_bytes.induct)
    case (2 n w)
    have "push_bit 8 (push_bit (8 * n) acc OR take_bit (8 * n) (drop_bit 8 w)) OR
        ucast (ucast w :: byte) = push_bit (8 * Suc n) acc OR take_bit (8 * Suc n) w"
      by (rule bit_word_eqI) (auto simp: bit_simps)
    with 2 show ?case by simp
  qed simp
  then show ?thesis by (simp add: be_value_def)
qed

lemma length_be64 [simp]: "length (be64 w) = 8"
  by (simp add: be64_def)

lemma of_be64_be64 [wire, simp]: "of_be64 (be64 w @ r) = w"
  by (simp add: of_be64_def be64_def be_value_be_bytes take_bit_word_eq_self)

lemma be_bytes_be_value:
  "8 * length bs \<le> LENGTH('a) \<Longrightarrow> be_bytes (length bs) (be_value bs :: 'a::len word) = bs"
proof (induction bs rule: rev_induct)
  case (snoc b bs)
  let ?v = "be_value bs :: 'a word"
  have v: "(be_value (bs @ [b]) :: 'a word) = push_bit 8 ?v OR ucast b"
    by (simp add: be_value_def)
  have t: "take_bit (8 * length bs) ?v = ?v"
    using be_value_be_bytes [of "length bs" ?v] snoc by simp
  have h: "\<not> bit ?v n" if "LENGTH('a) \<le> n + 8" for n
  proof -
    have "\<not> bit (take_bit (8 * length bs) ?v) n" using that snoc.prems by (simp add: bit_take_bit_iff)
    then show ?thesis unfolding t .
  qed
  have "drop_bit 8 (push_bit 8 ?v OR ucast b) = ?v"
    by (rule bit_word_eqI) (use h in \<open>auto simp: bit_simps not_le [symmetric]\<close>)
  moreover have "ucast (push_bit 8 ?v OR ucast b :: 'a word) = b"
    by (rule bit_word_eqI) (use snoc.prems in \<open>auto simp: bit_simps\<close>)
  ultimately show ?case using snoc by (simp add: v)
qed simp

lemma be64_of_be64: "length bs = 8 \<Longrightarrow> be64 (of_be64 bs) = bs"
  using be_bytes_be_value [of bs, where 'a = 64] by (simp add: be64_def of_be64_def)

end
