(* ===== verification/GoNet.thy ===== *)
theory GoNet
  imports Prelude
begin

text \<open>
  The part of Go's \<^verbatim>\<open>net\<close> package the program relies on: textual and binary IP
  addresses (\<^verbatim>\<open>net.IP\<close>, \<^verbatim>\<open>net.ParseIP\<close>, \<^verbatim>\<open>IP.String\<close>, \<^verbatim>\<open>To4\<close>, \<^verbatim>\<open>To16\<close>)
  and prefixes (\<^verbatim>\<open>net.ParseCIDR\<close>, \<^verbatim>\<open>IPNet.Contains\<close>). The parsers follow
  \<^verbatim>\<open>net/netip\<close>'s scanners character by character. The main result is that printing
  and parsing an address is the identity on its bytes, which is what lets the firewall
  judge an address by the text the frame decoder produced.
\<close>

section \<open>Digits\<close>

definition digit_char :: "nat \<Rightarrow> char" where
  "digit_char d = char_of (if d < 10 then 48 + d else 87 + d)"

definition dec_digit :: "char \<Rightarrow> nat option" where
  "dec_digit c = (let n = of_char c :: nat in if 48 \<le> n \<and> n \<le> 57 then Some (n - 48) else None)"

definition hex_digit :: "char \<Rightarrow> nat option" where
  "hex_digit c = (let n = of_char c :: nat in
     if 48 \<le> n \<and> n \<le> 57 then Some (n - 48)
     else if 97 \<le> n \<and> n \<le> 102 then Some (n - 87)
     else if 65 \<le> n \<and> n \<le> 70 then Some (n - 55)
     else None)"

fun show_nat :: "nat \<Rightarrow> string" where
  "show_nat n = (if n < 10 then [digit_char n] else show_nat (n div 10) @ [digit_char (n mod 10)])"

declare show_nat.simps [simp del]

lemma dec_digit_digit_char [simp]: "d < 10 \<Longrightarrow> dec_digit (digit_char d) = Some d"
  by (simp add: dec_digit_def digit_char_def of_char_of)

lemma hex_digit_digit_char [simp]: "d < 16 \<Longrightarrow> hex_digit (digit_char d) = Some d"
  by (simp add: hex_digit_def digit_char_def of_char_of)

lemma show_nat_not_Nil [simp]: "show_nat n \<noteq> []"
  by (subst show_nat.simps) simp

section \<open>Dotted IPv4 text\<close>

text \<open>\<^verbatim>\<open>netip.parseIPv4Fields\<close>: the value and digit count of the current field, and the
  fields already finished.\<close>

fun v4_fields :: "nat \<Rightarrow> nat \<Rightarrow> bytes \<Rightarrow> string \<Rightarrow> bytes option" where
  "v4_fields val digLen fs [] =
     (if length fs < 3 then None else Some (fs @ [word_of_nat val]))"
| "v4_fields val digLen fs (c # s) =
     (case dec_digit c of
        Some d \<Rightarrow>
          if digLen = 1 \<and> val = 0 then None
          else if val * 10 + d > 255 then None
          else v4_fields (val * 10 + d) (digLen + 1) fs s
      | None \<Rightarrow>
          if c = CHR ''.'' then
            if digLen = 0 \<or> s = [] then None
            else if length fs = 3 then None
            else v4_fields 0 0 (fs @ [word_of_nat val]) s
          else None)"

definition parse_ipv4 :: "string \<Rightarrow> bytes option" where
  "parse_ipv4 s = v4_fields 0 0 [] s"

fun ipv4_text :: "bytes \<Rightarrow> string" where
  "ipv4_text [a, b, c, d] =
     show_nat (unat a) @ ''.'' @ show_nat (unat b) @ ''.'' @ show_nat (unat c) @ ''.'' @
     show_nat (unat d)"
| "ipv4_text _ = []"

lemma v4_fields_show_nat:
  assumes "n < 256"
  shows "v4_fields 0 0 fs (show_nat n @ s) = v4_fields n (length (show_nat n)) fs s"
proof -
  consider "n < 10" | "10 \<le> n" "n < 100" | "100 \<le> n"
    by linarith
  then show ?thesis
  proof cases
    case 1
    then show ?thesis
      by (simp add: show_nat.simps)
  next
    case 2
    then have "n div 10 < 10" and "n div 10 \<noteq> 0"
      by simp_all
    with 2 show ?thesis
      by (simp add: show_nat.simps [of n] show_nat.simps [of "n div 10"])
  next
    case 3
    define h t u where "h = n div 10 div 10" and "t = n div 10 mod 10" and "u = n mod 10"
    have d: "h < 10" "h \<noteq> 0" "t < 10" "u < 10"
      using assms 3 by (auto simp: h_def t_def u_def)
    have n: "(h * 10 + t) * 10 + u = n"
      by (simp add: h_def t_def u_def)
    have sh: "show_nat n = [digit_char h, digit_char t, digit_char u]"
      using 3 d(1) by (simp add: show_nat.simps [of n] show_nat.simps [of "n div 10"]
          show_nat.simps [of "n div 10 div 10"] h_def t_def u_def)
    have "h * 10 + t \<le> 255"
      using n assms by presburger
    then show ?thesis
      using d n assms by (simp add: sh)
  qed
qed

lemma dec_digit_dot [simp]: "dec_digit CHR ''.'' = None"
  by (simp add: dec_digit_def)

lemma parse_ipv4_text [wire]: "parse_ipv4 (ipv4_text [a, b, c, d]) = Some [a, b, c, d]"
  by (simp add: parse_ipv4_def v4_fields_show_nat)
     (use v4_fields_show_nat [of "unat d" "[a, b, c]" "[]"] in simp)

section \<open>IPv6 text\<close>

fun groups :: "bytes \<Rightarrow> nat list" where
  "groups (a # b # r) = (256 * unat a + unat b) # groups r"
| "groups _ = []"

definition ungroup :: "nat \<Rightarrow> bytes" where
  "ungroup g = [word_of_nat (g div 256), word_of_nat (g mod 256)]"

definition ungroups :: "nat list \<Rightarrow> bytes" where
  "ungroups gs = concat (map ungroup gs)"

definition hex_group :: "nat \<Rightarrow> string" where
  "hex_group g =
     (if 4096 \<le> g then [digit_char (g div 4096)] else []) @
     (if 256 \<le> g then [digit_char (g div 256 mod 16)] else []) @
     (if 16 \<le> g then [digit_char (g div 16 mod 16)] else []) @
     [digit_char (g mod 16)]"

fun colon_join :: "nat list \<Rightarrow> string" where
  "colon_join [] = []"
| "colon_join [g] = hex_group g"
| "colon_join (g # gs) = hex_group g @ '':'' @ colon_join gs"

text \<open>\<^verbatim>\<open>Addr.appendTo6\<close> elides the first longest run of at least two zero groups.\<close>

definition run_end :: "nat list \<Rightarrow> nat \<Rightarrow> nat" where
  "run_end gs i = i + length (takeWhile (\<lambda>g. g = 0) (drop i gs))"

definition longer_run :: "nat list \<Rightarrow> (nat \<times> nat) option \<Rightarrow> nat \<Rightarrow> (nat \<times> nat) option" where
  "longer_run gs best i =
     (let j = run_end gs i; l = j - i;
          cur = (case best of None \<Rightarrow> 0 | Some (zs, ze) \<Rightarrow> ze - zs)
      in if 2 \<le> l \<and> cur < l then Some (i, j) else best)"

definition zero_run :: "nat list \<Rightarrow> (nat \<times> nat) option" where
  "zero_run gs = foldl (longer_run gs) None [0..<length gs]"

definition ipv6_text :: "bytes \<Rightarrow> string" where
  "ipv6_text ip =
     (let gs = groups ip
      in case zero_run gs of
           None \<Rightarrow> colon_join gs
         | Some (zs, ze) \<Rightarrow> colon_join (take zs gs) @ ''::'' @ colon_join (drop ze gs))"

text \<open>The scanner of \<^verbatim>\<open>netip.parseIPv6\<close>: one hexadecimal field, then the loop over fields
  with the bytes written so far and the position of the ellipsis.\<close>

fun scan_hex :: "nat \<Rightarrow> nat \<Rightarrow> string \<Rightarrow> (nat \<times> nat \<times> string) option" where
  "scan_hex off acc [] = Some (off, acc, [])"
| "scan_hex off acc (c # s) =
     (case hex_digit c of
        None \<Rightarrow> Some (off, acc, c # s)
      | Some d \<Rightarrow>
          if off > 3 then None
          else if acc * 16 + d > 65535 then None
          else scan_hex (off + 1) (acc * 16 + d) s)"

lemma scan_hex_length: "scan_hex off acc s = Some (off', acc', s') \<Longrightarrow>
    length s' + off' = length s + off"
  by (induction off acc s rule: scan_hex.induct) (auto split: option.splits if_splits)

function v6_loop :: "bytes \<Rightarrow> nat option \<Rightarrow> string \<Rightarrow> (bytes \<times> nat option \<times> string) option" where
  "v6_loop ip ell s =
     (if 16 \<le> length ip then Some (ip, ell, s)
      else case scan_hex 0 0 s of
        None \<Rightarrow> None
      | Some (off, acc, rest) \<Rightarrow>
          if off = 0 then None
          else case rest of
            [] \<Rightarrow> Some (ip @ ungroup acc, ell, [])
          | c # r \<Rightarrow>
              if c = CHR ''.'' then
                if ell = None \<and> length ip \<noteq> 12 then None
                else if length ip + 4 > 16 then None
                else (case v4_fields 0 0 [] s of None \<Rightarrow> None | Some q \<Rightarrow> Some (ip @ q, ell, []))
              else if c \<noteq> CHR '':'' then None
              else case r of
                [] \<Rightarrow> None
              | c' # r' \<Rightarrow>
                  if c' = CHR '':'' then
                    if ell \<noteq> None then None
                    else if r' = [] then Some (ip @ ungroup acc, Some (length ip + 2), [])
                    else v6_loop (ip @ ungroup acc) (Some (length ip + 2)) r'
                  else v6_loop (ip @ ungroup acc) ell r)"
  by pat_completeness auto
termination
  by (relation "measure (\<lambda>(ip, ell, s). length s)") (auto dest!: scan_hex_length)

declare v6_loop.simps [simp del]

definition expand_ellipsis :: "bytes \<Rightarrow> nat option \<Rightarrow> string \<Rightarrow> bytes option" where
  "expand_ellipsis ip ell s =
     (if s \<noteq> [] then None
      else if length ip < 16 then
        (case ell of
           None \<Rightarrow> None
         | Some e \<Rightarrow> Some (take e ip @ replicate (16 - length ip) 0 @ drop e ip))
      else if ell \<noteq> None then None
      else Some ip)"

definition v6_finish :: "(bytes \<times> nat option \<times> string) option \<Rightarrow> bytes option" where
  "v6_finish r = (case r of None \<Rightarrow> None | Some (ip, ell, s) \<Rightarrow> expand_ellipsis ip ell s)"

definition parse_ipv6 :: "string \<Rightarrow> bytes option" where
  "parse_ipv6 s =
     (if take 2 s = ''::'' then
        if drop 2 s = [] then Some (replicate 16 0)
        else v6_finish (v6_loop [] (Some 0) (drop 2 s))
      else v6_finish (v6_loop [] None s))"

lemma groups_ungroups [simp]: "even (length b) \<Longrightarrow> ungroups (groups b) = b"
proof (induction b rule: groups.induct)
  case (1 a b r)
  have "(256 * unat a + unat b) div 256 = unat a" "(256 * unat a + unat b) mod 256 = unat b"
    by simp_all
  with 1 show ?case
    by (simp add: ungroups_def ungroup_def)
qed (auto simp: ungroups_def)

lemma length_groups [simp]: "length (groups b) = length b div 2"
  by (induction b rule: groups.induct) auto

lemma groups_bound: "g \<in> set (groups b) \<Longrightarrow> g < 65536"
proof (induction b rule: groups.induct)
  case (1 a b r)
  have "256 * unat a + unat b < 65536"
    using unat_byte_lt [of a] unat_byte_lt [of b] by linarith
  with 1 show ?case by auto
qed auto

lemma length_ungroup [simp]: "length (ungroup g) = 2"
  by (simp add: ungroup_def)

lemma length_ungroups [simp]: "length (ungroups gs) = 2 * length gs"
  by (induction gs) (auto simp: ungroups_def)

lemma ungroups_Cons [simp]: "ungroups (g # gs) = ungroup g @ ungroups gs"
  and ungroups_Nil [simp]: "ungroups [] = []"
  and ungroups_append [simp]: "ungroups (gs @ hs) = ungroups gs @ ungroups hs"
  by (simp_all add: ungroups_def)

lemma ungroups_zeros: "ungroups (replicate n 0) = replicate (2 * n) 0"
  by (induction n) (auto simp: ungroup_def)

definition hex_stop :: "string \<Rightarrow> bool" where
  "hex_stop s = (case s of [] \<Rightarrow> True | c # _ \<Rightarrow> hex_digit c = None)"

lemma scan_hex_stop: "hex_stop s \<Longrightarrow> scan_hex off acc s = Some (off, acc, s)"
  by (cases s) (auto simp: hex_stop_def)

lemma scan_hex_group:
  assumes "g < 65536" and "hex_stop s"
  shows "scan_hex 0 0 (hex_group g @ s) = Some (length (hex_group g), g, s)"
proof -
  define a b c d where "a = g div 4096" and "b = g div 256 mod 16"
    and "c = g div 16 mod 16" and "d = g mod 16"
  have lt: "a < 16" "b < 16" "c < 16" "d < 16"
    using assms(1) by (auto simp: a_def b_def c_def d_def)
  have g: "((a * 16 + b) * 16 + c) * 16 + d = g"
  proof -
    have "a * 16 + b = g div 256" "(g div 256) * 16 + c = g div 16" "(g div 16) * 16 + d = g"
      using div_mult_mod_eq [of "g div 256" 16] div_mult_mod_eq [of "g div 16" 16]
      by (simp_all add: a_def b_def c_def d_def div_mult2_eq [symmetric])
    then show ?thesis by simp
  qed
  consider "g < 16" | "16 \<le> g" "g < 256" | "256 \<le> g" "g < 4096" | "4096 \<le> g"
    by linarith
  then show ?thesis
  proof cases
    case 1
    then show ?thesis
      using assms(2) by (simp add: hex_group_def scan_hex_stop)
  next
    case 2
    then have "a = 0" "b = 0" by (auto simp: a_def b_def)
    with 2 g lt assms show ?thesis
      by (simp add: hex_group_def scan_hex_stop flip: c_def d_def)
  next
    case 3
    then have "a = 0" by (auto simp: a_def)
    with 3 g lt assms show ?thesis
      by (simp add: hex_group_def scan_hex_stop flip: b_def c_def d_def)
  next
    case 4
    with g lt assms show ?thesis
      by (simp add: hex_group_def scan_hex_stop flip: a_def b_def c_def d_def)
  qed
qed

lemma hex_digit_colon [simp]: "hex_digit CHR '':'' = None"
  by (simp add: hex_digit_def)

lemma hex_group_not_Nil [simp]: "hex_group g \<noteq> []"
  by (simp add: hex_group_def)

lemma v6_loop_last:
  assumes "g < 65536" "length ip < 16"
  shows "v6_loop ip ell (hex_group g) = Some (ip @ ungroup g, ell, [])"
  using assms scan_hex_group [of g "[]"] by (subst v6_loop.simps) (simp add: hex_stop_def)

lemma v6_loop_colon:
  assumes "g < 65536" "length ip < 16" "c \<noteq> CHR '':''"
  shows "v6_loop ip ell (hex_group g @ CHR '':'' # c # r) = v6_loop (ip @ ungroup g) ell (c # r)"
  using assms scan_hex_group [of g "CHR '':'' # c # r"]
  by (subst v6_loop.simps) (simp add: hex_stop_def)

lemma v6_loop_ellipsis:
  assumes "g < 65536" "length ip < 16"
  shows "v6_loop ip None (hex_group g @ '':'' @ '':'' @ r) =
    (if r = [] then Some (ip @ ungroup g, Some (length ip + 2), [])
     else v6_loop (ip @ ungroup g) (Some (length ip + 2)) r)"
  using assms scan_hex_group [of g "CHR '':'' # CHR '':'' # r"]
  by (subst v6_loop.simps) (simp add: hex_stop_def)

lemma hex_group_start: "g < 65536 \<Longrightarrow> \<exists>c r. hex_group g = c # r \<and> c \<noteq> CHR '':''"
proof -
  have ne: "digit_char d \<noteq> CHR '':''" if "d < 16" for d
    using that hex_digit_digit_char [of d] hex_digit_colon by (metis option.distinct(1))
  assume "g < 65536"
  then show ?thesis
    using ne [of "g div 4096"] ne [of "g div 256"] ne [of "g div 16"] ne [of g]
    by (cases "hex_group g") (auto simp: hex_group_def split: if_splits)
qed

lemma colon_join_start: "gs \<noteq> [] \<Longrightarrow> \<forall>g \<in> set gs. g < 65536 \<Longrightarrow> \<exists>c r. colon_join gs = c # r \<and> c \<noteq> CHR '':''"
proof (cases gs rule: colon_join.cases)
  case (3 g h t)
  then show "\<forall>g \<in> set gs. g < 65536 \<Longrightarrow> ?thesis" using hex_group_start [of g] by auto
qed (use hex_group_start in auto)

lemma v6_loop_join:
  assumes "gs \<noteq> []" and "\<forall>g \<in> set gs. g < 65536" and "length ip + 2 * length gs \<le> 16"
  shows "v6_loop ip ell (colon_join gs) = Some (ip @ ungroups gs, ell, [])"
  using assms
proof (induction gs arbitrary: ip rule: colon_join.induct)
  case (3 g h t)
  obtain c r where cr: "colon_join (h # t) = c # r" "c \<noteq> CHR '':''"
    using colon_join_start [of "h # t"] 3 by auto
  have "v6_loop ip ell (colon_join (g # h # t)) = v6_loop (ip @ ungroup g) ell (colon_join (h # t))"
    using 3 cr by (simp add: v6_loop_colon)
  also have "\<dots> = Some ((ip @ ungroup g) @ ungroups (h # t), ell, [])"
    using 3 by (intro "3.IH") auto
  finally show ?case by simp
qed (auto simp: v6_loop_last)

lemma v6_loop_join_ellipsis:
  assumes "gs \<noteq> []" and "\<forall>g \<in> set gs. g < 65536" and "length ip + 2 * length gs \<le> 16"
  shows "v6_loop ip None (colon_join gs @ ''::'' @ r) =
    (if r = [] then Some (ip @ ungroups gs, Some (length ip + 2 * length gs), [])
     else v6_loop (ip @ ungroups gs) (Some (length ip + 2 * length gs)) r)"
  using assms
proof (induction gs arbitrary: ip rule: colon_join.induct)
  case (2 g)
  then show ?case using v6_loop_ellipsis [of g ip r] by simp
next
  case (3 g h t)
  obtain c r' where cr: "colon_join (h # t) = c # r'" "c \<noteq> CHR '':''"
    using colon_join_start [of "h # t"] 3 by auto
  have "v6_loop ip None (colon_join (g # h # t) @ ''::'' @ r) =
      v6_loop (ip @ ungroup g) None (colon_join (h # t) @ ''::'' @ r)"
    using 3 cr by (simp add: v6_loop_colon)
  also have "\<dots> = (if r = [] then Some ((ip @ ungroup g) @ ungroups (h # t),
        Some (length (ip @ ungroup g) + 2 * length (h # t)), [])
      else v6_loop ((ip @ ungroup g) @ ungroups (h # t))
        (Some (length (ip @ ungroup g) + 2 * length (h # t))) r)"
    using 3 by (intro "3.IH") auto
  finally show ?case by simp
qed simp

text \<open>What the run search guarantees.\<close>

definition zero_between :: "nat list \<Rightarrow> nat \<Rightarrow> nat \<Rightarrow> bool" where
  "zero_between gs i j \<longleftrightarrow> i + 2 \<le> j \<and> j \<le> length gs \<and> (\<forall>k. i \<le> k \<longrightarrow> k < j \<longrightarrow> gs ! k = 0)"

lemma run_end_le: "i \<le> length gs \<Longrightarrow> run_end gs i \<le> length gs"
  using length_takeWhile_le [of "\<lambda>g. g = 0" "drop i gs"] by (simp add: run_end_def)

lemma run_end_zero:
  assumes "i \<le> k" "k < run_end gs i" "i \<le> length gs"
  shows "gs ! k = 0"
proof -
  have "k - i < length (takeWhile (\<lambda>g. g = 0) (drop i gs))"
    using assms by (simp add: run_end_def)
  then have "drop i gs ! (k - i) = 0"
    using set_takeWhileD nth_mem takeWhile_nth by (metis (mono_tags, lifting))
  then show ?thesis using assms run_end_le [OF assms(3)] by simp
qed

lemma zero_run_between: "zero_run gs = Some (i, j) \<Longrightarrow> zero_between gs i j"
proof -
  have step: "\<forall>k \<in> set is. k \<le> length gs \<Longrightarrow> (\<forall>i j. best = Some (i, j) \<longrightarrow> zero_between gs i j) \<Longrightarrow>
      foldl (longer_run gs) best is = Some (i, j) \<Longrightarrow> zero_between gs i j" for "is" best
  proof (induction "is" arbitrary: best)
    case (Cons k "is")
    have "\<forall>i j. longer_run gs best k = Some (i, j) \<longrightarrow> zero_between gs i j"
      using Cons.prems run_end_le [of k gs] run_end_zero [of k _ gs]
      by (auto simp: longer_run_def Let_def zero_between_def)
    then show ?case using Cons by simp
  qed simp
  then show "zero_run gs = Some (i, j) \<Longrightarrow> zero_between gs i j"
    using step [of "[0..<length gs]" None] by (simp add: zero_run_def)
qed

lemma zero_between_split:
  assumes "zero_between gs i j"
  shows "gs = take i gs @ replicate (j - i) 0 @ drop j gs"
proof -
  have "take (j - i) (drop i gs) = replicate (j - i) 0"
    using assms by (auto simp: zero_between_def list_eq_iff_nth_eq)
  then show ?thesis
    using assms by (metis append_assoc append_take_drop_id drop_drop le_add_diff_inverse2
        le_add_diff_inverse zero_between_def add_leD1)
qed

lemma parse_ipv6_text:
  assumes "length ip = 16"
  shows "parse_ipv6 (ipv6_text ip) = Some ip"
proof -
  define gs where "gs = groups ip"
  have len: "length gs = 8" and bd: "\<forall>g \<in> set gs. g < 65536" and un: "ungroups gs = ip"
    using assms by (auto simp: gs_def groups_bound)
  have ne: "take 2 (colon_join hs @ t) \<noteq> ''::''" if "hs \<noteq> []" "\<forall>g \<in> set hs. g < 65536" for hs t
    using colon_join_start [OF that] by auto
  show ?thesis
  proof (cases "zero_run gs")
    case None
    have "gs \<noteq> []" using len by auto
    then show ?thesis
      using None len bd un assms ne [of gs "[]"] v6_loop_join [of gs "[]" None]
      by (simp add: parse_ipv6_def ipv6_text_def v6_finish_def expand_ellipsis_def flip: gs_def)
  next
    case (Some p)
    obtain zs ze where p: "p = (zs, ze)" by (cases p)
    have zb: "zero_between gs zs ze" using Some p zero_run_between by simp
    then have b: "zs + 2 \<le> ze" "ze \<le> 8" using len by (auto simp: zero_between_def)
    have split: "ip = ungroups (take zs gs) @ replicate (2 * (ze - zs)) 0 @ ungroups (drop ze gs)"
      using zero_between_split [OF zb] un by (metis ungroups_append ungroups_zeros)
    define pre post where "pre = take zs gs" and "post = drop ze gs"
    have lpre: "length pre = zs" and lpost: "length post = 8 - ze"
      using b len by (auto simp: pre_def post_def)
    have bpre: "\<forall>g \<in> set pre. g < 65536" and bpost: "\<forall>g \<in> set post. g < 65536"
      using bd set_take_subset set_drop_subset by (fastforce simp: pre_def post_def)+
    have shown: "ipv6_text ip = colon_join pre @ ''::'' @ colon_join post"
      using Some p by (simp add: ipv6_text_def pre_def post_def flip: gs_def)
    have post_ne: "colon_join post = [] \<longleftrightarrow> post = []"
      by (cases "post = []") (use colon_join_start [of post] bpost in auto)
    have loop_post: "v6_loop x (Some e) (colon_join post) = Some (x @ ungroups post, Some e, [])"
      if "post \<noteq> []" "length x = 2 * zs" for x e
      using that bpost b lpost by (intro v6_loop_join) auto
    have fin: "v6_finish (Some (ungroups pre @ ungroups post, Some (2 * zs), [])) = Some ip"
      using b lpre lpost split by (auto simp: v6_finish_def expand_ellipsis_def pre_def post_def
          algebra_simps)
    show ?thesis
    proof (cases "pre = []")
      case True
      then have zs: "zs = 0" using lpre by simp
      show ?thesis
      proof (cases "post = []")
        case True
        then have "ipv6_text ip = ''::''" using \<open>pre = []\<close> shown by simp
        moreover have "ip = replicate 16 0"
          using True split zs lpost b by (simp add: post_def)
        ultimately show ?thesis by (simp add: parse_ipv6_def)
      next
        case False
        then show ?thesis
          using \<open>pre = []\<close> zs fin loop_post [of "[]" 0] post_ne
          by (simp add: parse_ipv6_def shown)
      qed
    next
      case False
      have "v6_loop [] None (colon_join pre @ ''::'' @ colon_join post) =
          (if colon_join post = [] then Some (ungroups pre, Some (2 * zs), [])
           else v6_loop (ungroups pre) (Some (2 * zs)) (colon_join post))"
        using v6_loop_join_ellipsis [OF False bpre, of "[]" "colon_join post"] lpre b by simp
      then have "v6_loop [] None (ipv6_text ip) = Some (ungroups pre @ ungroups post, Some (2 * zs), [])"
        using post_ne loop_post [of "ungroups pre" "2 * zs"] lpre by (simp add: shown)
      moreover have "take 2 (ipv6_text ip) \<noteq> ''::''"
        using ne [OF False bpre] by (simp add: shown)
      ultimately show ?thesis
        using fin by (simp add: parse_ipv6_def)
    qed
  qed
qed

section \<open>net.IP\<close>

type_synonym ip = bytes

definition v4in6_prefix :: bytes where
  "v4in6_prefix = replicate 10 0 @ [255, 255]"

definition to4 :: "ip \<Rightarrow> ip option" where
  "to4 ip =
     (if length ip = 4 then Some ip
      else if length ip = 16 \<and> take 12 ip = v4in6_prefix then Some (drop 12 ip)
      else None)"

definition to16 :: "ip \<Rightarrow> ip option" where
  "to16 ip =
     (if length ip = 4 then Some (v4in6_prefix @ ip)
      else if length ip = 16 then Some ip
      else None)"

definition hex_bytes :: "bytes \<Rightarrow> string" where
  "hex_bytes bs = concat (map (\<lambda>b. [digit_char (unat b div 16), digit_char (unat b mod 16)]) bs)"

definition ip_string :: "ip \<Rightarrow> string" where
  "ip_string ip =
     (if ip = [] then ''<nil>''
      else if length ip \<noteq> 4 \<and> length ip \<noteq> 16 then ''?'' @ hex_bytes ip
      else case to4 ip of Some q \<Rightarrow> ipv4_text q | None \<Rightarrow> ipv6_text ip)"

text \<open>\<^verbatim>\<open>netip.ParseAddr\<close> looks for the first separator to choose the syntax;
  \<^verbatim>\<open>net.ParseIP\<close> additionally refuses a zone, so any \<^verbatim>\<open>%\<close> makes it fail.\<close>

fun first_sep :: "string \<Rightarrow> char option" where
  "first_sep [] = None"
| "first_sep (c # s) = (if c \<in> {CHR ''.'', CHR '':'', CHR ''%''} then Some c else first_sep s)"

definition parse_ip :: "string \<Rightarrow> ip option" where
  "parse_ip s =
     (if CHR ''%'' \<in> set s then None
      else if first_sep s = Some CHR ''.'' then map_option (\<lambda>q. v4in6_prefix @ q) (parse_ipv4 s)
      else if first_sep s = Some CHR '':'' then parse_ipv6 s
      else None)"

lemma sep_not_hex: "hex_digit CHR ''.'' = None" "hex_digit CHR ''%'' = None"
  by (simp_all add: hex_digit_def)

lemma digit_char_not_sep:
  "d < 16 \<Longrightarrow> digit_char d \<noteq> CHR ''.'' \<and> digit_char d \<noteq> CHR '':'' \<and> digit_char d \<noteq> CHR ''%''"
  using hex_digit_digit_char [of d] hex_digit_colon sep_not_hex by fastforce

lemma show_nat_chars: "c \<in> set (show_nat n) \<Longrightarrow> \<exists>d < 10. c = digit_char d"
proof (induction n rule: show_nat.induct)
  case (1 n)
  show ?case
  proof (cases "n < 10")
    case False
    then have "c \<in> set (show_nat (n div 10)) \<or> c = digit_char (n mod 10)"
      using "1.prems" by (auto simp: show_nat.simps [of n])
    then show ?thesis using "1.IH" [OF False] mod_less_divisor [OF zero_less_numeral, of n] by blast
  qed (use "1.prems" in \<open>auto simp: show_nat.simps [of n]\<close>)
qed

lemma first_sep_skip: "\<forall>c \<in> set s. \<exists>d < 16. c = digit_char d \<Longrightarrow> first_sep (s @ t) = first_sep t"
  by (induction s) (auto dest: digit_char_not_sep)

lemma first_sep_colon:
  "\<forall>c \<in> set s. c = CHR '':'' \<or> (\<exists>d < 16. c = digit_char d) \<Longrightarrow> CHR '':'' \<in> set s \<Longrightarrow>
   first_sep s = Some CHR '':''"
  by (induction s) (auto dest: digit_char_not_sep)

lemma show_nat_hexish: "\<forall>c \<in> set (show_nat n). \<exists>d < 16. c = digit_char d"
proof
  fix c assume "c \<in> set (show_nat n)"
  then obtain d where "d < 10" "c = digit_char d" using show_nat_chars by blast
  then show "\<exists>d < 16. c = digit_char d" by (intro exI [of _ d]) simp
qed

lemma hex_group_chars:
  assumes "g < 65536" "c \<in> set (hex_group g)"
  shows "\<exists>d < 16. c = digit_char d"
proof -
  have "g div 4096 < 16" "g div 256 mod 16 < 16" "g div 16 mod 16 < 16" "g mod 16 < 16"
    using assms(1) by auto
  moreover have "c = digit_char (g div 4096) \<or> c = digit_char (g div 256 mod 16) \<or>
      c = digit_char (g div 16 mod 16) \<or> c = digit_char (g mod 16)"
    using assms(2) by (auto simp: hex_group_def split: if_splits)
  ultimately show ?thesis by blast
qed

lemma colon_join_chars:
  "\<forall>g \<in> set gs. g < 65536 \<Longrightarrow> c \<in> set (colon_join gs) \<Longrightarrow>
   c = CHR '':'' \<or> (\<exists>d < 16. c = digit_char d)"
  by (induction gs rule: colon_join.induct) (auto dest: hex_group_chars)

lemma ipv6_text_chars:
  assumes "length ip = 16"
  shows "\<forall>c \<in> set (ipv6_text ip). c = CHR '':'' \<or> (\<exists>d < 16. c = digit_char d)"
    and "CHR '':'' \<in> set (ipv6_text ip)"
proof -
  have bd: "\<forall>g \<in> set (groups ip). g < 65536" by (auto simp: groups_bound)
  then have sub: "\<forall>g \<in> set (take n (groups ip)). g < 65536" "\<forall>g \<in> set (drop n (groups ip)). g < 65536" for n
    by (auto dest: in_set_takeD in_set_dropD)
  show "\<forall>c \<in> set (ipv6_text ip). c = CHR '':'' \<or> (\<exists>d < 16. c = digit_char d)"
    using colon_join_chars [OF bd] colon_join_chars [OF sub(1)] colon_join_chars [OF sub(2)]
    by (auto simp: ipv6_text_def Let_def split: option.splits prod.splits)
  obtain g h t where "groups ip = g # h # t"
    using assms length_groups [of ip] by (cases "groups ip" rule: colon_join.cases) auto
  then show "CHR '':'' \<in> set (ipv6_text ip)"
    by (auto simp: ipv6_text_def Let_def split: option.splits prod.splits)
qed

lemma parse_ip_ipv4_text: "parse_ip (ipv4_text [a, b, c, d]) = Some (v4in6_prefix @ [a, b, c, d])"
proof -
  have "first_sep (ipv4_text [a, b, c, d]) = Some CHR ''.''"
    by (simp add: first_sep_skip show_nat_hexish)
  moreover have "CHR ''%'' \<notin> set (ipv4_text [a, b, c, d])"
    using show_nat_hexish digit_char_not_sep by fastforce
  ultimately show ?thesis
    by (simp add: parse_ip_def wire del: ipv4_text.simps)
qed

lemma parse_ip_ipv6_text: "length ip = 16 \<Longrightarrow> parse_ip (ipv6_text ip) = Some ip"
proof -
  assume ip: "length ip = 16"
  have "CHR ''%'' \<notin> set (ipv6_text ip)"
    using ipv6_text_chars(1) [OF ip] digit_char_not_sep by fastforce
  moreover have "first_sep (ipv6_text ip) = Some CHR '':''"
    using ipv6_text_chars [OF ip] by (rule first_sep_colon)
  ultimately show ?thesis
    using ip by (simp add: parse_ip_def parse_ipv6_text)
qed

lemma length4E:
  assumes "length ip = 4" obtains a b c d where "ip = [a, b, c, d]"
  using assms by (auto simp: length_Suc_conv numeral_eq_Suc)

text \<open>Printing an address and parsing it back gives its 16-byte form.\<close>

lemma parse_ip_ip_string [wire]:
  assumes "length ip = 4 \<or> length ip = 16"
  shows "parse_ip (ip_string ip) = to16 ip"
proof (cases "to4 ip")
  case None
  then have "length ip = 16" "ip \<noteq> []" using assms by (auto simp: to4_def)
  then show ?thesis using None by (simp add: ip_string_def parse_ip_ipv6_text to16_def)
next
  case (Some q)
  then have len: "length q = 4" and ip: "ip \<noteq> []" using assms by (auto simp: to4_def split: if_splits)
  have "to16 ip = Some (v4in6_prefix @ q)"
    using Some assms by (auto simp: to4_def to16_def split: if_splits) (metis append_take_drop_id)
  moreover obtain a b c d where "q = [a, b, c, d]" using len by (rule length4E)
  ultimately show ?thesis using Some ip assms by (auto simp: ip_string_def parse_ip_ipv4_text simp del: ipv4_text.simps)
qed

lemma to4_to16: "to16 ip = Some b \<Longrightarrow> to4 b = to4 ip"
  by (auto simp: to16_def to4_def v4in6_prefix_def split: if_splits)

lemma length_to4: "to4 ip = Some q \<Longrightarrow> length q = 4"
  by (auto simp: to4_def split: if_splits)

lemma length_to16: "to16 ip = Some q \<Longrightarrow> length q = 16"
  by (auto simp: to16_def v4in6_prefix_def split: if_splits)

text \<open>A parsed address is sixteen bytes long.\<close>

lemma v4_fields_length: "v4_fields v n fs s = Some q \<Longrightarrow> length fs \<le> 3 \<Longrightarrow> length q = 4"
  by (induction v n fs s rule: v4_fields.induct) (auto split: option.splits if_splits)

lemma v6_loop_length:
  "v6_loop ip ell s = Some (ip', ell', s') \<Longrightarrow> even (length ip) \<Longrightarrow> length ip \<le> 16 \<Longrightarrow>
   length ip' \<le> 16"
proof (induction ip ell s rule: v6_loop.induct)
  case (1 ip ell s)
  have room: "length ip + 2 \<le> 16" if "\<not> 16 \<le> length ip"
    using that \<open>even (length ip)\<close> by presburger
  show ?case
  proof (cases "16 \<le> length ip")
    case True
    then show ?thesis using "1.prems" by (simp add: v6_loop.simps [of ip])
  next
    case False
    then show ?thesis
      using "1.prems" room "1.IH"
      by (subst (asm) v6_loop.simps)
         (auto split: option.splits if_splits list.splits prod.splits dest: v4_fields_length)
  qed
qed

lemma parse_ip_length: "parse_ip s = Some ip \<Longrightarrow> length ip = 16"
proof -
  have fin: "length ip = 16" if "v6_finish (v6_loop [] e t) = Some ip" for e t
    using that v6_loop_length [of "[]" e t]
    by (auto simp: v6_finish_def expand_ellipsis_def split: option.splits if_splits)
  show "parse_ip s = Some ip \<Longrightarrow> ?thesis"
    using fin by (auto simp: parse_ip_def parse_ipv4_def parse_ipv6_def v4in6_prefix_def
        dest: v4_fields_length split: if_splits)
qed

section \<open>Prefixes\<close>

record ipnet =
  net_ip :: ip
  net_mask :: bytes

text \<open>\<^verbatim>\<open>net.CIDRMask\<close>: \<open>n\<close> one bits in \<open>k\<close> bytes.\<close>

definition mask_byte :: "nat \<Rightarrow> byte" where
  "mask_byte n = (if 8 \<le> n then 255 else word_of_nat (256 - 2 ^ (8 - n)))"

definition cidr_mask :: "nat \<Rightarrow> nat \<Rightarrow> bytes" where
  "cidr_mask n k = map (\<lambda>i. mask_byte (n - 8 * i)) [0..<k]"

definition mask_bytes :: "bytes \<Rightarrow> bytes \<Rightarrow> bytes" where
  "mask_bytes m bs = map2 (AND) m bs"

fun parse_dec :: "nat \<Rightarrow> string \<Rightarrow> nat option" where
  "parse_dec acc [] = Some acc"
| "parse_dec acc (c # s) = (case dec_digit c of None \<Rightarrow> None | Some d \<Rightarrow> parse_dec (acc * 10 + d) s)"

definition parse_cidr :: "string \<Rightarrow> ipnet option" where
  "parse_cidr s =
     (let a = takeWhile (\<lambda>c. c \<noteq> CHR ''/'') s; m = drop (Suc (length a)) s
      in if CHR ''/'' \<notin> set s \<or> m = [] then None
      else case (parse_ip a, parse_dec 0 m) of
        (Some ip16, Some n) \<Rightarrow>
          if first_sep a = Some CHR ''.'' then
            if n \<le> 32 then
              Some \<lparr>net_ip = mask_bytes (cidr_mask n 4) (drop 12 ip16), net_mask = cidr_mask n 4\<rparr>
            else None
          else if n \<le> 128 then
            Some \<lparr>net_ip = mask_bytes (cidr_mask n 16) ip16, net_mask = cidr_mask n 16\<rparr>
          else None
      | _ \<Rightarrow> None)"

text \<open>\<^verbatim>\<open>IPNet.Contains\<close>: both sides are first brought to four bytes where they can be.\<close>

definition net_number_mask :: "ipnet \<Rightarrow> bytes \<times> bytes" where
  "net_number_mask n =
     (let nn = (case to4 (net_ip n) of Some q \<Rightarrow> q | None \<Rightarrow> net_ip n); m = net_mask n
      in if length nn \<noteq> 4 \<and> length nn \<noteq> 16 then ([], [])
         else if length m = 4 then (if length nn = 4 then (nn, m) else ([], []))
         else if length m = 16 then (nn, if length nn = 4 then drop 12 m else m)
         else ([], []))"

definition net_contains :: "ipnet \<Rightarrow> ip \<Rightarrow> bool" where
  "net_contains n ip =
     (let (nn, m) = net_number_mask n;
          x = (case to4 ip of Some q \<Rightarrow> q | None \<Rightarrow> ip)
      in length x = length nn \<and> mask_bytes m nn = mask_bytes m x)"

lemma net_contains_to16: "to16 ip = Some b \<Longrightarrow> net_contains n b = net_contains n ip"
proof -
  assume b: "to16 ip = Some b"
  show ?thesis
  proof (cases "to4 ip")
    case None
    then have "b = ip" using b by (auto simp: to16_def to4_def split: if_splits)
    then show ?thesis by simp
  next
    case (Some q)
    then show ?thesis using to4_to16 [OF b] by (simp add: net_contains_def)
  qed
qed
end
