(* ===== verification/GoIO.thy ===== *)
theory GoIO
  imports Prelude
begin

text \<open>
  Go's \<^verbatim>\<open>io.Reader\<close> and \<^verbatim>\<open>io.Writer\<close> as interfaces. A reader delivers its bytes in
  pieces of its own choosing; the locale \<open>byte_reader\<close> states what every reader of the
  program promises (pieces are consecutive, never longer than asked, always progress,
  fail only at the end), and derives that \<^verbatim>\<open>io.ReadFull\<close> returns and depends on the
  byte stream alone, not on how it was cut. The locale \<open>byte_writer\<close> is the dual.
\<close>

section \<open>Readers\<close>

datatype io_error = EOF | UnexpectedEOF | IOFail nat

datatype io_read = Got bytes | Fail io_error

text \<open>
  \<^verbatim>\<open>io.ReadFull(r, buf)\<close> with \<open>n = len buf\<close>: it keeps reading until the buffer is full or
  the reader fails; a clean end of file after some bytes becomes \<^verbatim>\<open>ErrUnexpectedEOF\<close>.
  The loop is a partial function: \<open>None\<close> is a reader that never delivers.
\<close>

definition short_error :: "bytes \<Rightarrow> io_error \<Rightarrow> io_error" where
  "short_error acc e = (if acc \<noteq> [] \<and> e = EOF then UnexpectedEOF else e)"

partial_function (option) read_loop ::
  "(nat \<Rightarrow> 's \<Rightarrow> io_read \<times> 's) \<Rightarrow> nat \<Rightarrow> bytes \<Rightarrow> 's \<Rightarrow> ((io_error, bytes) outcome \<times> 's) option"
where
  "read_loop rd n acc s =
     (if n \<le> length acc then Some (Ok acc, s)
      else case rd (n - length acc) s of
        (Got d, s') \<Rightarrow> read_loop rd n (acc @ d) s'
      | (Fail e, s') \<Rightarrow> Some (Err (short_error acc e), s'))"

definition read_full ::
  "(nat \<Rightarrow> 's \<Rightarrow> io_read \<times> 's) \<Rightarrow> nat \<Rightarrow> 's \<Rightarrow> ((io_error, bytes) outcome \<times> 's) option" where
  "read_full rd n s = read_loop rd n [] s"

text \<open>The reference: \<^verbatim>\<open>ReadFull\<close> on a stream of bytes \<open>bs\<close> that ends with \<open>e\<close>.\<close>

definition take_full :: "nat \<Rightarrow> io_error \<Rightarrow> bytes \<Rightarrow> (io_error, bytes) outcome \<times> bytes" where
  "take_full n e bs =
     (if n \<le> length bs then (Ok (take n bs), drop n bs)
      else (Err (short_error bs e), []))"

locale byte_reader =
  fixes rd :: "nat \<Rightarrow> 's \<Rightarrow> io_read \<times> 's"
    and valid :: "'s \<Rightarrow> bool"
    and pending :: "'s \<Rightarrow> bytes"
    and fate :: "'s \<Rightarrow> io_error"
    and weight :: "'s \<Rightarrow> nat"
  assumes got_pending: "valid s \<Longrightarrow> rd n s = (Got d, s') \<Longrightarrow> pending s = d @ pending s'"
    and got_length: "valid s \<Longrightarrow> rd n s = (Got d, s') \<Longrightarrow> length d \<le> n"
    and got_fate: "valid s \<Longrightarrow> rd n s = (Got d, s') \<Longrightarrow> fate s' = fate s"
    and got_progress: "valid s \<Longrightarrow> 0 < n \<Longrightarrow> rd n s = (Got d, s') \<Longrightarrow> weight s' < weight s"
    and fail_end: "valid s \<Longrightarrow> 0 < n \<Longrightarrow> rd n s = (Fail e, s') \<Longrightarrow>
      pending s = [] \<and> pending s' = [] \<and> e = fate s \<and> fate s' = fate s"
    and valid_step: "valid s \<Longrightarrow> rd n s = (r, s') \<Longrightarrow> valid s'"
begin

lemma read_loop_take:
  assumes "valid s" and "length acc \<le> n"
  shows "\<exists>s'. read_loop rd n acc s =
      Some (if n \<le> length acc + length (pending s)
            then Ok (acc @ take (n - length acc) (pending s))
            else Err (short_error (acc @ pending s) (fate s)), s') \<and>
    valid s' \<and> fate s' = fate s \<and> pending s' = drop (n - length acc) (pending s)"
  using assms
proof (induction "weight s" arbitrary: s acc rule: less_induct)
  case less
  show ?case
  proof (cases "n \<le> length acc")
    case True
    then show ?thesis
      using less.prems by (subst read_loop.simps) auto
  next
    case False
    define k where "k = n - length acc"
    have k: "0 < k" "k = n - length acc" using False by (auto simp: k_def)
    obtain r s1 where r: "rd k s = (r, s1)" by fastforce
    have v1: "valid s1" using valid_step [OF less.prems(1) r] .
    show ?thesis
    proof (cases r)
      case (Got d)
      have rd: "rd k s = (Got d, s1)" using r Got by simp
      have p: "pending s = d @ pending s1" and l: "length d \<le> k" and f: "fate s1 = fate s"
        and w: "weight s1 < weight s"
        using got_pending [OF less.prems(1) rd] got_length [OF less.prems(1) rd]
          got_fate [OF less.prems(1) rd] got_progress [OF less.prems(1) k(1) rd] by auto
      have "length (acc @ d) \<le> n" using l k by simp
      from less.hyps [OF w v1 this] show ?thesis
        using False rd k p l f by (subst read_loop.simps) (auto simp: diff_diff_eq)
    next
      case (Fail e)
      have rd: "rd k s = (Fail e, s1)" using r Fail by simp
      have "pending s = []" "pending s1 = []" "e = fate s" "fate s1 = fate s"
        using fail_end [OF less.prems(1) k(1) rd] by auto
      then show ?thesis
        using False rd k v1 by (subst read_loop.simps) auto
    qed
  qed
qed

text \<open>\<^verbatim>\<open>ReadFull\<close> always returns, and what it returns is a function of the byte stream.\<close>

lemma read_full_take:
  assumes "valid s"
  obtains s' where "read_full rd n s = Some (fst (take_full n (fate s) (pending s)), s')"
    and "valid s'" and "fate s' = fate s"
    and "pending s' = snd (take_full n (fate s) (pending s))"
  using read_loop_take [OF assms, of "[]" n]
  by (auto simp: read_full_def take_full_def)

end

section \<open>A network connection\<close>

text \<open>
  The receiving half of a \<^verbatim>\<open>net.Conn\<close>: the chunks the network will deliver, in order,
  and the error the connection ends with. A read takes at most one chunk; what does not
  fit in the caller's buffer stays.
\<close>

record conn_in =
  arriving :: "bytes list"
  ending :: io_error

definition conn_read :: "nat \<Rightarrow> conn_in \<Rightarrow> io_read \<times> conn_in" where
  "conn_read n c =
     (case arriving c of
        [] \<Rightarrow> (Fail (ending c), c)
      | b # bs \<Rightarrow>
          if length b \<le> n then (Got b, c\<lparr>arriving := bs\<rparr>)
          else (Got (take n b), c\<lparr>arriving := drop n b # bs\<rparr>))"

interpretation net_in: byte_reader conn_read "\<lambda>_. True" "\<lambda>c. concat (arriving c)" ending
  "\<lambda>c. length (arriving c) + length (concat (arriving c))"
  by unfold_locales (auto simp: conn_read_def split: list.splits if_splits)

section \<open>Writers\<close>

text \<open>
  \<^verbatim>\<open>w.Write(b)\<close>: \<open>None\<close> is success (everything was taken), \<open>Some e\<close> the error. The
  promise every writer of the program keeps is that a successful write appends exactly
  \<open>b\<close> to the byte stream the other side will read.
\<close>

locale byte_writer =
  fixes wr :: "bytes \<Rightarrow> 'w \<Rightarrow> io_error option \<times> 'w"
    and sent :: "'w \<Rightarrow> bytes"
  assumes write_ok: "wr b w = (None, w') \<Longrightarrow> sent w' = sent w @ b"

text \<open>
  The sending half of a connection: the writes it took so far, and how many more it takes
  before it fails for good (\<open>None\<close>: it never fails).
\<close>

record conn_out =
  taken :: "bytes list"
  lives :: "nat option"

definition conn_write :: "bytes \<Rightarrow> conn_out \<Rightarrow> io_error option \<times> conn_out" where
  "conn_write b c =
     (case lives c of
        None \<Rightarrow> (None, c\<lparr>taken := taken c @ [b]\<rparr>)
      | Some 0 \<Rightarrow> (Some (IOFail 0), c)
      | Some (Suc k) \<Rightarrow> (None, c\<lparr>taken := taken c @ [b], lives := Some k\<rparr>))"

interpretation net_out: byte_writer conn_write "\<lambda>c. concat (taken c)"
  by unfold_locales (auto simp: conn_write_def split: option.splits nat.splits)

end
