(* ===== verification/Codec.thy ===== *)
theory Codec
  imports Prelude
begin

text \<open>
  The interface of a wire format. A \<open>codec\<close> is an encoder and a decoder that takes one value
  off the front of a byte stream and returns the rest; decoding what was encoded gives the
  value back, whatever follows it. A \<open>canonical_codec\<close> in addition accepts nothing but
  encodings. Everything the program needs of its formats follows from these laws: encodings
  are prefix-free, and a reader that decodes one value after the other (\<open>drain\<close>) recovers
  exactly the sequence that was written.
\<close>

section \<open>Decoding a stream\<close>

text \<open>
  The loops \<^verbatim>\<open>for { x, err := read(); if err != nil { return } ... }\<close>: the values decoded
  before the first failure, and the bytes at which decoding failed. The first argument bounds
  the number of values; each decoded value takes at least one byte, so the length of the
  stream plus one is always enough (\<open>drain_stops\<close>).
\<close>

fun drain :: "(bytes \<Rightarrow> ('e, 'a \<times> bytes) outcome) \<Rightarrow> nat \<Rightarrow> bytes \<Rightarrow> 'a list \<times> bytes" where
  "drain dec 0 bs = ([], bs)"
| "drain dec (Suc n) bs =
     (case dec bs of
        Ok (x, r) \<Rightarrow> (case drain dec n r of (xs, t) \<Rightarrow> (x # xs, t))
      | _ \<Rightarrow> ([], bs))"

definition decode_all :: "(bytes \<Rightarrow> ('e, 'a \<times> bytes) outcome) \<Rightarrow> bytes \<Rightarrow> 'a list \<times> bytes" where
  "decode_all dec bs = drain dec (Suc (length bs)) bs"

section \<open>The interface\<close>

locale decoder =
  fixes dec :: "bytes \<Rightarrow> ('e, 'a \<times> bytes) outcome"
  assumes dec_shrinks: "dec bs = Ok (x, r) \<Longrightarrow> length r < length bs"
begin

lemma drain_fuel: "length bs < m \<Longrightarrow> length bs < n \<Longrightarrow> drain dec m bs = drain dec n bs"
proof (induction m arbitrary: n bs)
  case (Suc m)
  then obtain n' where n: "n = Suc n'" by (cases n) auto
  show ?case
  proof (cases "dec bs")
    case (Ok p)
    obtain x r where p: "p = (x, r)" by (cases p)
    have "length r < length bs" using dec_shrinks Ok p by simp
    then have "drain dec m r = drain dec n' r"
      using Suc n by (intro Suc.IH) auto
    then show ?thesis using Ok p n by simp
  qed (auto simp: n)
qed simp

lemma drain_stops: "length bs < n \<Longrightarrow> \<not> is_ok (dec (snd (drain dec n bs)))"
proof (induction n arbitrary: bs)
  case (Suc n)
  show ?case
  proof (cases "dec bs")
    case (Ok p)
    obtain x r where p: "p = (x, r)" by (cases p)
    have "length r < n" using dec_shrinks [of bs x r] Ok p Suc.prems by simp
    then show ?thesis using Suc.IH [of r] Ok p by (auto split: prod.splits)
  qed auto
qed simp

lemma decode_all_step:
  "dec bs = Ok (x, r) \<Longrightarrow> decode_all dec bs = (x # fst (decode_all dec r), snd (decode_all dec r))"
proof -
  assume ok: "dec bs = Ok (x, r)"
  have "drain dec (length bs) r = decode_all dec r"
    using dec_shrinks [OF ok] unfolding decode_all_def by (intro drain_fuel) auto
  then show ?thesis using ok by (auto simp: decode_all_def split: prod.splits)
qed

lemma decode_all_stop: "\<not> is_ok (dec bs) \<Longrightarrow> decode_all dec bs = ([], bs)"
  unfolding decode_all_def drain.simps by (cases "dec bs") simp_all

end

locale codec = decoder dec
  for dec :: "bytes \<Rightarrow> ('e, 'a \<times> bytes) outcome" +
  fixes enc :: "'a \<Rightarrow> bytes"
    and canon :: "'a \<Rightarrow> bool"
  assumes dec_enc: "canon x \<Longrightarrow> dec (enc x @ r) = Ok (x, r)"
begin

lemma enc_not_Nil: "canon x \<Longrightarrow> enc x \<noteq> []"
proof
  assume c: "canon x" and e: "enc x = []"
  have "dec [] = Ok (x, [])" using dec_enc [OF c, of "[]"] e by (simp only: append_Nil)
  then show False using dec_shrinks by fastforce
qed

lemma prefix_free: "canon x \<Longrightarrow> canon y \<Longrightarrow> enc x @ r = enc y @ r' \<Longrightarrow> x = y \<and> r = r'"
  by (metis dec_enc outcome.inject(1) prod.inject)

lemma enc_inj: "canon x \<Longrightarrow> canon y \<Longrightarrow> enc x = enc y \<Longrightarrow> x = y"
  by (metis prefix_free)

lemma decode_all_concat:
  "\<forall>x \<in> set xs. canon x \<Longrightarrow>
   decode_all dec (concat (map enc xs) @ r) = (xs @ fst (decode_all dec r), snd (decode_all dec r))"
proof (induction xs)
  case (Cons x xs)
  have "dec (concat (map enc (x # xs)) @ r) = Ok (x, concat (map enc xs) @ r)"
    using Cons.prems dec_enc by simp
  then show ?case
    using Cons by (simp add: decode_all_step)
qed simp

lemma concat_inj:
  assumes "\<forall>x \<in> set xs. canon x" "\<forall>y \<in> set ys. canon y"
    and "concat (map enc xs) = concat (map enc ys)" "\<not> is_ok (dec [])"
  shows "xs = ys"
  using decode_all_concat [OF assms(1), of "[]"] decode_all_concat [OF assms(2), of "[]"] assms(3,4)
  by (simp add: decode_all_stop)

end

locale canonical_codec = codec +
  assumes enc_dec: "dec bs = Ok (x, r) \<Longrightarrow> canon x \<and> bs = enc x @ r"
begin

lemma dec_iff: "dec bs = Ok (x, r) \<longleftrightarrow> canon x \<and> bs = enc x @ r"
  using dec_enc enc_dec by blast

lemma decode_all_exact:
  "decode_all dec bs = (xs, r) \<Longrightarrow> bs = concat (map enc xs) @ r \<and> (\<forall>x \<in> set xs. canon x)"
proof (induction "length bs" arbitrary: bs xs rule: less_induct)
  case less
  show ?case
  proof (cases "is_ok (dec bs)")
    case True
    then obtain x t where ok: "dec bs = Ok (x, t)" by (cases "dec bs") auto
    have sh: "length t < length bs" using dec_shrinks [OF ok] .
    from less.prems have "xs = x # fst (decode_all dec t)" "r = snd (decode_all dec t)"
      by (auto simp: decode_all_step [OF ok])
    with less.hyps [OF sh, of "fst (decode_all dec t)"] enc_dec [OF ok] show ?thesis
      by auto
  next
    case False
    then show ?thesis using less.prems by (simp add: decode_all_stop)
  qed
qed

end

section \<open>Sequencing two formats\<close>

definition enc_pair :: "('a \<Rightarrow> bytes) \<Rightarrow> ('b \<Rightarrow> bytes) \<Rightarrow> 'a \<times> 'b \<Rightarrow> bytes" where
  "enc_pair ea eb = (\<lambda>(x, y). ea x @ eb y)"

definition dec_pair ::
  "(bytes \<Rightarrow> ('e, 'a \<times> bytes) outcome) \<Rightarrow> (bytes \<Rightarrow> ('e, 'b \<times> bytes) outcome) \<Rightarrow>
   bytes \<Rightarrow> ('e, ('a \<times> 'b) \<times> bytes) outcome" where
  "dec_pair da db bs =
     (case da bs of
        Ok (x, r) \<Rightarrow>
          (case db r of Ok (y, t) \<Rightarrow> Ok ((x, y), t) | Err e \<Rightarrow> Err e | Panic \<Rightarrow> Panic)
      | Err e \<Rightarrow> Err e
      | Panic \<Rightarrow> Panic)"

lemma dec_pair_Ok:
  "dec_pair da db bs = Ok (p, t) \<longleftrightarrow>
   (\<exists>x y r. p = (x, y) \<and> da bs = Ok (x, r) \<and> db r = Ok (y, t))"
  by (auto simp: dec_pair_def split: outcome.splits)

locale codec_pair =
  a: canonical_codec da ea ca + b: canonical_codec db eb cb
  for da :: "bytes \<Rightarrow> ('e, 'a \<times> bytes) outcome" and ea ca
    and db :: "bytes \<Rightarrow> ('e, 'b \<times> bytes) outcome" and eb cb

sublocale codec_pair \<subseteq> canonical_codec "dec_pair da db" "enc_pair ea eb" "\<lambda>(x, y). ca x \<and> cb y"
proof unfold_locales
  show "length t < length bs" if "dec_pair da db bs = Ok (p, t)" for bs p t
    using that a.dec_shrinks b.dec_shrinks by (fastforce simp: dec_pair_Ok)
  show "dec_pair da db (enc_pair ea eb p @ r) = Ok (p, r)"
    if "(\<lambda>(x, y). ca x \<and> cb y) p" for p r
    using that a.dec_enc b.dec_enc by (auto simp: dec_pair_Ok enc_pair_def)
  show "(\<lambda>(x, y). ca x \<and> cb y) p \<and> bs = enc_pair ea eb p @ r"
    if "dec_pair da db bs = Ok (p, r)" for bs p r
    using that a.enc_dec b.enc_dec by (fastforce simp: dec_pair_Ok enc_pair_def)
qed

end
