(* ===== verification/Framing.thy ===== *)
theory Framing
  imports GoNet GoIO Codec
begin

text \<open>
  \<^verbatim>\<open>core/transport/framing.go\<close>: the frames of the tunnel. First the address header and the
  payloads of the typed frames, as encoders and decoders; then the length-prefixed wire
  format with \<open>FrameReader\<close> (over any \<open>byte_reader\<close>) and \<open>FrameWriter\<close> (over any
  \<open>byte_writer\<close>), the latter with its batch buffer, flush timer and flusher goroutine as
  explicit state; and the pool of read buffers.
\<close>

section \<open>Constants and types\<close>

definition MaxFrameSize :: nat where "MaxFrameSize = 65535"
definition FrameData :: byte where "FrameData = 0x00"
definition FrameConnect :: byte where "FrameConnect = 0x01"
definition FrameConnAck :: byte where "FrameConnAck = 0x02"
definition FrameClose :: byte where "FrameClose = 0x03"
definition FrameAuth :: byte where "FrameAuth = 0x04"
definition FrameAuthResp :: byte where "FrameAuthResp = 0x05"
definition FramePadding :: byte where "FramePadding = 0x06"
definition FrameUDP :: byte where "FrameUDP = 0x07"
definition FrameConfig :: byte where "FrameConfig = 0x08"
definition FrameIP :: byte where "FrameIP = 0x09"
definition FrameUDPClose :: byte where "FrameUDPClose = 0x0A"
definition AddrIPv4 :: byte where "AddrIPv4 = 0x01"
definition AddrDomain :: byte where "AddrDomain = 0x03"
definition AddrIPv6 :: byte where "AddrIPv6 = 0x04"

lemmas frame_type_defs = FrameData_def FrameConnect_def FrameConnAck_def FrameClose_def
  FrameAuth_def FrameAuthResp_def FramePadding_def FrameUDP_def FrameConfig_def FrameIP_def
  FrameUDPClose_def

lemmas addr_type_defs = AddrIPv4_def AddrDomain_def AddrIPv6_def

record frame =
  frame_type :: byte
  frame_payload :: bytes

record connect_request =
  cr_stream :: u16
  cr_type :: byte
  cr_addr :: string
  cr_port :: u16

record data_payload =
  dp_stream :: u16
  dp_data :: bytes

record udp_payload =
  up_assoc :: u16
  up_type :: byte
  up_addr :: string
  up_port :: u16
  up_data :: bytes

datatype frame_error =
    AddressTooShort
  | Ipv4TooShort
  | Ipv6TooShort
  | DomainLengthMissing
  | DomainTooShort
  | UnknownAddressType byte
  | ConnectTooShort
  | DataTooShort
  | UdpTooShort
  | UdpCloseLength nat
  | FrameTooLarge nat
  | ReadFailed io_error

section \<open>The address header\<close>

definition EncodeAddress :: "byte \<Rightarrow> string \<Rightarrow> u16 \<Rightarrow> bytes" where
  "EncodeAddress addrType addr port =
     [addrType] @
     (if addrType = AddrIPv4 then
        (case Option.bind (parse_ip addr) to4 of None \<Rightarrow> replicate 4 0 | Some ip \<Rightarrow> ip)
      else if addrType = AddrIPv6 then
        (case Option.bind (parse_ip addr) to16 of None \<Rightarrow> replicate 16 0 | Some ip \<Rightarrow> ip)
      else if addrType = AddrDomain then
        (let a = if 255 < length addr then take 255 addr else addr
         in word_of_nat (length a) # str_bytes a)
      else []) @
     be16 port"

definition DecodeAddress :: "bytes \<Rightarrow> (frame_error, (byte \<times> string \<times> u16) \<times> bytes) outcome" where
  "DecodeAddress data =
     (case data of
        [] \<Rightarrow> Err AddressTooShort
      | addrType # d \<Rightarrow>
          if addrType = AddrIPv4 then
            if length d < 6 then Err Ipv4TooShort
            else Ok ((addrType, ip_string (take 4 d), of_be16 (drop 4 d)), drop 6 d)
          else if addrType = AddrIPv6 then
            if length d < 18 then Err Ipv6TooShort
            else Ok ((addrType, ip_string (take 16 d), of_be16 (drop 16 d)), drop 18 d)
          else if addrType = AddrDomain then
            (case d of
               [] \<Rightarrow> Err DomainLengthMissing
             | l # d' \<Rightarrow>
                 let dLen = unat l in
                 if length d' < dLen + 2 then Err DomainTooShort
                 else Ok ((addrType, bytes_str (take dLen d'), of_be16 (drop dLen d')),
                          drop (dLen + 2) d'))
          else Err (UnknownAddressType addrType))"

text \<open>
  What an address becomes on the wire: a text that is not an IP address is sent as the
  all-zero address, a name is cut at 255 bytes. \<open>canon_address\<close> holds of the addresses the
  encoding does not change; they are exactly the ones the decoder produces.
\<close>

definition norm_address :: "byte \<Rightarrow> string \<Rightarrow> string" where
  "norm_address t a =
     (if t = AddrIPv4 then
        ip_string (case Option.bind (parse_ip a) to4 of None \<Rightarrow> replicate 4 0 | Some ip \<Rightarrow> ip)
      else if t = AddrIPv6 then
        ip_string (case Option.bind (parse_ip a) to16 of None \<Rightarrow> replicate 16 0 | Some ip \<Rightarrow> ip)
      else take 255 a)"

definition known_addr_type :: "byte \<Rightarrow> bool" where
  "known_addr_type t \<longleftrightarrow> t = AddrIPv4 \<or> t = AddrIPv6 \<or> t = AddrDomain"

definition canon_address :: "byte \<times> string \<times> u16 \<Rightarrow> bool" where
  "canon_address = (\<lambda>(t, a, p). known_addr_type t \<and> norm_address t a = a)"

definition encode_address :: "byte \<times> string \<times> u16 \<Rightarrow> bytes" where
  "encode_address = (\<lambda>(t, a, p). EncodeAddress t a p)"

lemma addr_types_distinct [simp]:
  "AddrIPv4 \<noteq> AddrIPv6" "AddrIPv6 \<noteq> AddrIPv4" "AddrIPv4 \<noteq> AddrDomain" "AddrDomain \<noteq> AddrIPv4"
  "AddrIPv6 \<noteq> AddrDomain" "AddrDomain \<noteq> AddrIPv6"
  by (simp_all add: addr_type_defs)

lemma of_be16_append_take: "length u = 2 \<Longrightarrow> of_be16 (u @ r) = of_be16 u"
  by (cases u rule: of_be16.cases) auto

lemma length_ip4_bytes: "length (case Option.bind x to4 of None \<Rightarrow> replicate 4 0 | Some ip \<Rightarrow> ip) = 4"
  by (auto split: option.splits bind_splits dest: length_to4)

lemma length_ip6_bytes: "length (case Option.bind x to16 of None \<Rightarrow> replicate 16 0 | Some ip \<Rightarrow> ip) = 16"
  by (auto split: option.splits bind_splits dest: length_to16)

lemma decode_encode_norm:
  assumes "known_addr_type t"
  shows "DecodeAddress (EncodeAddress t a p @ r) = Ok ((t, norm_address t a, p), r)"
proof -
  consider "t = AddrIPv4" | "t = AddrIPv6" | "t = AddrDomain"
    using assms by (auto simp: known_addr_type_def)
  then show ?thesis
  proof cases
    case 1
    then show ?thesis
      using length_ip4_bytes [of "parse_ip a"]
      by (simp add: EncodeAddress_def DecodeAddress_def norm_address_def)
  next
    case 2
    then show ?thesis
      using length_ip6_bytes [of "parse_ip a"]
      by (simp add: EncodeAddress_def DecodeAddress_def norm_address_def)
  next
    case 3
    have "unat (word_of_nat (length (take 255 a)) :: byte) = length (take 255 a)"
      by (simp add: unat_of_nat take_bit_nat_eq_self min_def)
    moreover have "(if 255 < length a then take 255 a else a) = take 255 a" by simp
    ultimately show ?thesis
      using 3 by (simp add: EncodeAddress_def DecodeAddress_def norm_address_def Let_def)
  qed
qed

lemma parse_ip_string4 [simp]:
  assumes "length q = 4" shows "Option.bind (parse_ip (ip_string q)) to4 = Some q"
proof -
  have b: "to16 q = Some (v4in6_prefix @ q)" using assms by (simp add: to16_def)
  show ?thesis
    using assms to4_to16 [OF b] b by (simp add: parse_ip_ip_string) (simp add: to4_def)
qed

lemma parse_ip_string6 [simp]:
  "length q = 16 \<Longrightarrow> Option.bind (parse_ip (ip_string q)) to16 = Some q"
  by (simp add: parse_ip_ip_string to16_def)

lemma norm_address_idem [simp]: "norm_address t (norm_address t a) = norm_address t a"
  by (simp add: norm_address_def length_ip4_bytes length_ip6_bytes)

lemma norm_address_ip_string:
  "length q = 4 \<Longrightarrow> norm_address AddrIPv4 (ip_string q) = ip_string q"
  "length q = 16 \<Longrightarrow> norm_address AddrIPv6 (ip_string q) = ip_string q"
  by (simp_all add: norm_address_def)

lemma be16_of_be16_two: "length u = 2 \<Longrightarrow> be16 (of_be16 u) = u"
  using be16_take_of_be16 [of u] by simp

lemma take_port_drop: "n + 2 \<le> length d \<Longrightarrow> take n d @ be16 (of_be16 (drop n d)) @ drop (n + 2) d = d"
  by (metis append.assoc append_take_drop_id be16_take_of_be16 drop_drop length_drop add.commute
      le_diff_conv2 le_add2 add_leD1 add_le_imp_le_diff)

lemma EncodeAddress_ip4:
  "length q = 4 \<Longrightarrow> EncodeAddress AddrIPv4 (ip_string q) p = AddrIPv4 # q @ be16 p"
  by (simp add: EncodeAddress_def)

lemma EncodeAddress_ip6:
  "length q = 16 \<Longrightarrow> EncodeAddress AddrIPv6 (ip_string q) p = AddrIPv6 # q @ be16 p"
  by (simp add: EncodeAddress_def)

lemma EncodeAddress_domain:
  "length n \<le> 255 \<Longrightarrow>
   EncodeAddress AddrDomain n p = AddrDomain # word_of_nat (length n) # str_bytes n @ be16 p"
  by (simp add: EncodeAddress_def Let_def)

lemma decode_address_cases:
  assumes "DecodeAddress bs = Ok ((t, a, p), r)"
  obtains (ip4) q where "t = AddrIPv4" "length q = 4" "a = ip_string q"
      "bs = AddrIPv4 # q @ be16 p @ r"
    | (ip6) q where "t = AddrIPv6" "length q = 16" "a = ip_string q"
      "bs = AddrIPv6 # q @ be16 p @ r"
    | (domain) "t = AddrDomain" "length a \<le> 255"
      "bs = AddrDomain # word_of_nat (length a) # str_bytes a @ be16 p @ r"
proof -
  from assms obtain d where bs: "bs = t # d"
    by (auto simp: DecodeAddress_def Let_def split: list.splits if_splits)
  consider "t = AddrIPv4" | "t = AddrIPv6" | "t = AddrDomain"
    using assms bs by (auto simp: DecodeAddress_def split: if_splits)
  then show thesis
  proof cases
    case 1
    then show thesis
      using assms bs take_port_drop [of 4 d]
      by (intro ip4 [of "take 4 d"]) (auto simp: DecodeAddress_def split: if_splits)
  next
    case 2
    then show thesis
      using assms bs take_port_drop [of 16 d]
      by (intro ip6 [of "take 16 d"]) (auto simp: DecodeAddress_def split: if_splits)
  next
    case 3
    with assms bs obtain l d' where d: "d = l # d'" and l: "unat l + 2 \<le> length d'"
      and a: "a = bytes_str (take (unat l) d')" and p: "p = of_be16 (drop (unat l) d')"
      and r: "r = drop (unat l + 2) d'"
      by (auto simp: DecodeAddress_def Let_def split: list.splits if_splits)
    have "length a = unat l" using a l by simp
    with 3 show thesis
      using bs d a p r take_port_drop [OF l] unat_byte_lt [of l]
      by (intro domain) (auto simp del: unat_byte_lt)
  qed
qed

lemma decode_address_canonical:
  "DecodeAddress bs = Ok (x, r) \<Longrightarrow> canon_address x \<and> bs = encode_address x @ r"
proof -
  assume ok: "DecodeAddress bs = Ok (x, r)"
  obtain t a p where x: "x = (t, a, p)" by (cases x)
  from ok [unfolded x] show ?thesis
    by (cases rule: decode_address_cases)
       (auto simp: x canon_address_def known_addr_type_def encode_address_def norm_address_ip_string
         EncodeAddress_ip4 EncodeAddress_ip6 EncodeAddress_domain norm_address_def)
qed

lemma length_EncodeAddress: "0 < length (EncodeAddress t a p)"
  by (simp add: EncodeAddress_def)

text \<open>The address header is a canonical format: it loses nothing and accepts nothing else.\<close>

interpretation address: canonical_codec DecodeAddress encode_address canon_address
proof unfold_locales
  show "length r < length bs" if "DecodeAddress bs = Ok (x, r)" for bs x r
    using decode_address_canonical [OF that] length_EncodeAddress
    by (auto simp: encode_address_def split: prod.splits)
  show "DecodeAddress (encode_address x @ r) = Ok (x, r)" if "canon_address x" for x r
    using that decode_encode_norm by (cases x) (auto simp: canon_address_def encode_address_def)
  show "canon_address x \<and> bs = encode_address x @ r" if "DecodeAddress bs = Ok (x, r)" for bs x r
    using decode_address_canonical [OF that] .
qed

section \<open>The payloads of the typed frames\<close>

definition EncodeConnectFrame :: "u16 \<Rightarrow> byte \<Rightarrow> string \<Rightarrow> u16 \<Rightarrow> frame" where
  "EncodeConnectFrame streamID addrType addr port =
     \<lparr>frame_type = FrameConnect, frame_payload = be16 streamID @ EncodeAddress addrType addr port\<rparr>"

definition DecodeConnectFrame :: "bytes \<Rightarrow> (frame_error, connect_request) outcome" where
  "DecodeConnectFrame payload =
     (if length payload < 5 then Err ConnectTooShort
      else case DecodeAddress (drop 2 payload) of
        Ok ((addrType, addr, port), _) \<Rightarrow>
          Ok \<lparr>cr_stream = of_be16 (take 2 payload), cr_type = addrType, cr_addr = addr, cr_port = port\<rparr>
      | Err e \<Rightarrow> Err e
      | Panic \<Rightarrow> Panic)"

definition EncodeDataFrame :: "u16 \<Rightarrow> bytes \<Rightarrow> frame" where
  "EncodeDataFrame streamID data =
     \<lparr>frame_type = FrameData, frame_payload = be16 streamID @ data\<rparr>"

definition DecodeDataFrame :: "bytes \<Rightarrow> (frame_error, data_payload) outcome" where
  "DecodeDataFrame payload =
     (if length payload < 2 then Err DataTooShort
      else Ok \<lparr>dp_stream = of_be16 (take 2 payload), dp_data = drop 2 payload\<rparr>)"

definition EncodeCloseFrame :: "u16 \<Rightarrow> frame" where
  "EncodeCloseFrame streamID = \<lparr>frame_type = FrameClose, frame_payload = be16 streamID\<rparr>"

definition EncodeUDPFrame :: "u16 \<Rightarrow> byte \<Rightarrow> string \<Rightarrow> u16 \<Rightarrow> bytes \<Rightarrow> frame" where
  "EncodeUDPFrame assocID addrType addr port data =
     \<lparr>frame_type = FrameUDP,
      frame_payload = be16 assocID @ EncodeAddress addrType addr port @ data\<rparr>"

definition DecodeUDPFrame :: "bytes \<Rightarrow> (frame_error, udp_payload) outcome" where
  "DecodeUDPFrame payload =
     (if length payload < 2 then Err UdpTooShort
      else case DecodeAddress (drop 2 payload) of
        Ok ((addrType, addr, port), rest) \<Rightarrow>
          Ok \<lparr>up_assoc = of_be16 (take 2 payload), up_type = addrType, up_addr = addr,
              up_port = port, up_data = rest\<rparr>
      | Err e \<Rightarrow> Err e
      | Panic \<Rightarrow> Panic)"

definition EncodeUDPCloseFrame :: "u16 \<Rightarrow> frame" where
  "EncodeUDPCloseFrame assocID = \<lparr>frame_type = FrameUDPClose, frame_payload = be16 assocID\<rparr>"

definition DecodeUDPCloseFrame :: "bytes \<Rightarrow> (frame_error, u16) outcome" where
  "DecodeUDPCloseFrame payload =
     (if length payload \<noteq> 2 then Err (UdpCloseLength (length payload)) else Ok (of_be16 payload))"

definition IsValidIPPacket :: "bytes \<Rightarrow> bool" where
  "IsValidIPPacket data =
     (if length data < 20 then False
      else let v = drop_bit 4 (hd data) in v = 4 \<or> v = 6)"

lemma EncodeAddress_long: "known_addr_type t \<Longrightarrow> 4 \<le> length (EncodeAddress t a p)"
  using length_ip4_bytes [of "parse_ip a"] length_ip6_bytes [of "parse_ip a"]
  by (auto simp: EncodeAddress_def known_addr_type_def Let_def)

lemma decode_connect_encode:
  "known_addr_type t \<Longrightarrow>
   DecodeConnectFrame (frame_payload (EncodeConnectFrame sid t a p)) =
     Ok \<lparr>cr_stream = sid, cr_type = t, cr_addr = norm_address t a, cr_port = p\<rparr>"
  using EncodeAddress_long [of t a p] decode_encode_norm [of t a p "[]"]
  by (simp add: DecodeConnectFrame_def EncodeConnectFrame_def)

lemma decode_udp_encode:
  "known_addr_type t \<Longrightarrow>
   DecodeUDPFrame (frame_payload (EncodeUDPFrame sid t a p d)) =
     Ok \<lparr>up_assoc = sid, up_type = t, up_addr = norm_address t a, up_port = p, up_data = d\<rparr>"
  using decode_encode_norm [of t a p d]
  by (simp add: DecodeUDPFrame_def EncodeUDPFrame_def)

lemma decode_data_encode:
  "DecodeDataFrame (frame_payload (EncodeDataFrame sid d)) = Ok \<lparr>dp_stream = sid, dp_data = d\<rparr>"
  by (simp add: DecodeDataFrame_def EncodeDataFrame_def)

lemma decode_close_encode:
  "DecodeUDPCloseFrame (frame_payload (EncodeUDPCloseFrame sid)) = Ok sid"
  by (simp add: DecodeUDPCloseFrame_def EncodeUDPCloseFrame_def)

text \<open>A UDP payload is accepted exactly when it is the encoding of what it decodes to.\<close>

lemma decode_udp_canonical:
  assumes "DecodeUDPFrame bs = Ok u"
  shows "bs = frame_payload (EncodeUDPFrame (up_assoc u) (up_type u) (up_addr u) (up_port u) (up_data u))"
proof -
  obtain x rest where d: "DecodeAddress (drop 2 bs) = Ok (x, rest)" and l: "2 \<le> length bs"
    using assms by (auto simp: DecodeUDPFrame_def split: if_splits outcome.splits)
  obtain t a p where x: "x = (t, a, p)" by (cases x)
  have "drop 2 bs = EncodeAddress t a p @ rest"
    using decode_address_canonical [OF d] by (simp add: encode_address_def x)
  then have "bs = be16 (of_be16 bs) @ EncodeAddress t a p @ rest"
    using l be16_take_of_be16 [of bs] append_take_drop_id [of 2 bs] by simp
  then show ?thesis
    using assms d l x by (auto simp: DecodeUDPFrame_def EncodeUDPFrame_def)
qed

section \<open>Properties\<close>

text \<open>The address header is an exact wire format. The decoder accepts a byte string precisely
  when it begins with the encoding of the address it returns, and returns only addresses that
  the encoder leaves unchanged; so encoding loses nothing, decoding accepts no second spelling,
  and the bytes after the header are handed back untouched.\<close>

theorem address_format:
  "DecodeAddress bs = Ok ((t, a, p), r) \<longleftrightarrow>
   known_addr_type t \<and> norm_address t a = a \<and> bs = EncodeAddress t a p @ r"
  using address.dec_iff [of bs "(t, a, p)" r] by (auto simp: canon_address_def encode_address_def)

text \<open>A UDP payload is accepted precisely when it is what \<open>EncodeUDPFrame\<close> writes for the
  association, address and datagram it decodes to: the datagram of a UDP frame arrives
  byte for byte, under the association and address it was sent with.\<close>

theorem udp_frame_format:
  "DecodeUDPFrame bs = Ok \<lparr>up_assoc = sid, up_type = t, up_addr = a, up_port = p, up_data = d\<rparr> \<longleftrightarrow>
   known_addr_type t \<and> norm_address t a = a \<and> bs = frame_payload (EncodeUDPFrame sid t a p d)"
  (is "?l \<longleftrightarrow> ?r")
proof
  assume l: ?l
  then obtain rest where "DecodeAddress (drop 2 bs) = Ok ((t, a, p), rest)"
    by (auto simp: DecodeUDPFrame_def split: if_splits outcome.splits)
  then show ?r
    using decode_address_canonical [of "drop 2 bs"] decode_udp_canonical [OF l]
    by (auto simp: canon_address_def)
next
  assume ?r
  then show ?l using decode_udp_encode [of t sid a p d] by simp
qed

end
