(* ===== verification/FrameIO.thy ===== *)
theory FrameIO
  imports Framing
begin

text \<open>
  \<^verbatim>\<open>core/transport/framing.go\<close>, second half: the pool of read buffers with the ownership of
  each buffer made explicit, \<open>FrameReader\<close> over any reader, and \<open>FrameWriter\<close> over any
  writer, whose timer, signal channel and flusher goroutine are the fields and events of a
  state machine.
\<close>

section \<open>The wire format of a frame\<close>

text \<open>
  A frame on the wire is a two-byte length, the type byte and the payload. The reference
  decoder \<open>dec_frame e\<close> reads one frame off a byte string that ends with the error \<open>e\<close>; a length of zero is read as the
  empty frame value \<^verbatim>\<open>Frame{}\<close>, whose type is \<open>FrameData\<close>.
\<close>

definition fits :: "frame \<Rightarrow> bool" where
  "fits f \<longleftrightarrow> 1 + length (frame_payload f) \<le> MaxFrameSize"

definition enc_frame :: "frame \<Rightarrow> bytes" where
  "enc_frame f =
     be16 (word_of_nat (1 + length (frame_payload f))) @ frame_type f # frame_payload f"

definition no_frame :: frame where
  "no_frame = \<lparr>frame_type = 0, frame_payload = []\<rparr>"

definition dec_frame :: "io_error \<Rightarrow> bytes \<Rightarrow> (io_error, frame \<times> bytes) outcome" where
  "dec_frame e bs =
     (if length bs < 2 then Err (short_error bs e)
      else let n = unat (of_be16 bs); r = drop 2 bs in
        if n = 0 then Ok (no_frame, r)
        else if length r < n then Err (short_error r e)
        else Ok (\<lparr>frame_type = hd r, frame_payload = take (n - 1) (tl r)\<rparr>, drop n r))"

lemma unat_frame_length: "n \<le> 65535 \<Longrightarrow> unat (word_of_nat n :: u16) = n"
  by (simp add: unat_of_nat take_bit_nat_eq_self)

lemma length_enc_frame [simp]: "length (enc_frame f) = 3 + length (frame_payload f)"
  by (simp add: enc_frame_def)

interpretation wire_frame: codec "dec_frame e" enc_frame fits for e
proof unfold_locales
  show "length r < length bs" if "dec_frame e bs = Ok (f, r)" for bs f r
    using that by (auto simp: dec_frame_def Let_def split: if_splits)
  show "dec_frame e (enc_frame f @ r) = Ok (f, r)" if "fits f" for f r
    using that unat_frame_length [of "1 + length (frame_payload f)"]
    by (simp add: dec_frame_def enc_frame_def fits_def MaxFrameSize_def)
qed

section \<open>The buffer pool\<close>

text \<open>
  \<^verbatim>\<open>sync.Pool\<close> hands out a buffer it holds, or a new one. A buffer is a number; the pool is
  the buffers it holds and the next number never used.
\<close>

record pool =
  idle :: "nat list"
  fresh :: nat

definition GetBuffer :: "pool \<Rightarrow> nat \<times> pool" where
  "GetBuffer p =
     (case idle p of
        [] \<Rightarrow> (fresh p, p\<lparr>fresh := Suc (fresh p)\<rparr>)
      | b # bs \<Rightarrow> (b, p\<lparr>idle := bs\<rparr>))"

definition PutBuffer :: "nat \<Rightarrow> pool \<Rightarrow> pool" where
  "PutBuffer b p = p\<lparr>idle := b # idle p\<rparr>"

record packet =
  pkt_data :: bytes
  pkt_buf :: "nat option"

definition Release :: "packet \<Rightarrow> pool \<Rightarrow> packet \<times> pool" where
  "Release pkt p =
     (case pkt_buf pkt of
        None \<Rightarrow> (pkt, p)
      | Some b \<Rightarrow> (pkt\<lparr>pkt_buf := None\<rparr>, PutBuffer b p))"

record pooled_frame =
  pf_type :: byte
  pf_payload :: "bytes option"
  pf_pkt :: packet

definition ReleaseFrame :: "pooled_frame \<Rightarrow> pool \<Rightarrow> pooled_frame \<times> pool" where
  "ReleaseFrame pf p = (case Release (pf_pkt pf) p of (pkt, p') \<Rightarrow> (pf\<lparr>pf_pkt := pkt\<rparr>, p'))"

definition pool_ok :: "pool \<Rightarrow> bool" where
  "pool_ok p \<longleftrightarrow> distinct (idle p) \<and> (\<forall>b \<in> set (idle p). b < fresh p)"

text \<open>The buffers in use: every buffer ever made that the pool does not hold.\<close>

definition in_use :: "pool \<Rightarrow> nat set" where
  "in_use p = {b. b < fresh p} - set (idle p)"

lemma GetBuffer_ok:
  assumes "pool_ok p" "GetBuffer p = (b, p')"
  shows "pool_ok p'" "b \<notin> in_use p" "in_use p' = insert b (in_use p)"
  using assms by (auto simp: GetBuffer_def pool_ok_def in_use_def split: list.splits)

lemma PutBuffer_ok:
  assumes "pool_ok p" "b \<in> in_use p"
  shows "pool_ok (PutBuffer b p)" "in_use (PutBuffer b p) = in_use p - {b}"
  using assms by (auto simp: PutBuffer_def pool_ok_def in_use_def)

lemma Release_ok:
  assumes "pool_ok p" "set_option (pkt_buf k) \<subseteq> in_use p" "Release k p = (k', p')"
  shows "pool_ok p'" "in_use p' = in_use p - set_option (pkt_buf k)" "pkt_buf k' = None"
  using assms PutBuffer_ok by (auto simp: Release_def split: option.splits)

lemma Release_idem: "Release k p = (k', p') \<Longrightarrow> Release k' p' = (k', p')"
  by (auto simp: Release_def split: option.splits)

section \<open>The frame reader\<close>

definition no_packet :: packet where
  "no_packet = \<lparr>pkt_data = [], pkt_buf = None\<rparr>"

definition ReadFrame ::
  "(nat \<Rightarrow> 's \<Rightarrow> io_read \<times> 's) \<Rightarrow> pool \<Rightarrow> 's \<Rightarrow> ((frame_error, packet) outcome \<times> pool \<times> 's) option"
where
  "ReadFrame rd p s =
     (case read_full rd 2 s of
        None \<Rightarrow> None
      | Some (Err e, s') \<Rightarrow> Some (Err (ReadFailed e), p, s')
      | Some (Panic, s') \<Rightarrow> Some (Panic, p, s')
      | Some (Ok header, s') \<Rightarrow>
          let n = unat (of_be16 header) in
          if n = 0 then Some (Ok no_packet, p, s')
          else if MaxFrameSize < n then Some (Err (FrameTooLarge n), p, s')
          else case GetBuffer p of (b, p') \<Rightarrow>
            (case read_full rd n s' of
               None \<Rightarrow> None
             | Some (Err e, s'') \<Rightarrow> Some (Err (ReadFailed e), PutBuffer b p', s'')
             | Some (Panic, s'') \<Rightarrow> Some (Panic, p', s'')
             | Some (Ok d, s'') \<Rightarrow> Some (Ok \<lparr>pkt_data = d, pkt_buf = Some b\<rparr>, p', s'')))"

definition ReadTypedFramePooled ::
  "(nat \<Rightarrow> 's \<Rightarrow> io_read \<times> 's) \<Rightarrow> pool \<Rightarrow> 's \<Rightarrow>
   ((frame_error, pooled_frame) outcome \<times> pool \<times> 's) option"
where
  "ReadTypedFramePooled rd p s =
     (case ReadFrame rd p s of
        None \<Rightarrow> None
      | Some (Err e, p', s') \<Rightarrow> Some (Err e, p', s')
      | Some (Panic, p', s') \<Rightarrow> Some (Panic, p', s')
      | Some (Ok pkt, p', s') \<Rightarrow>
          (case pkt_data pkt of
             [] \<Rightarrow> Some (Ok \<lparr>pf_type = 0, pf_payload = None, pf_pkt = no_packet\<rparr>,
                        snd (Release pkt p'), s')
           | t # d \<Rightarrow> Some (Ok \<lparr>pf_type = t, pf_payload = Some d, pf_pkt = pkt\<rparr>, p', s')))"

definition ReadTypedFrame ::
  "(nat \<Rightarrow> 's \<Rightarrow> io_read \<times> 's) \<Rightarrow> pool \<Rightarrow> 's \<Rightarrow> ((frame_error, frame) outcome \<times> pool \<times> 's) option"
where
  "ReadTypedFrame rd p s =
     (case ReadTypedFramePooled rd p s of
        None \<Rightarrow> None
      | Some (Err e, p', s') \<Rightarrow> Some (Err e, p', s')
      | Some (Panic, p', s') \<Rightarrow> Some (Panic, p', s')
      | Some (Ok pf, p', s') \<Rightarrow>
          Some (Ok (if pkt_buf (pf_pkt pf) = None \<and> pf_payload pf = None then no_frame
                    else \<lparr>frame_type = pf_type pf,
                          frame_payload = (case pf_payload pf of None \<Rightarrow> [] | Some d \<Rightarrow> d)\<rparr>),
                snd (ReleaseFrame pf p'), s'))"

text \<open>
  The loops \<^verbatim>\<open>for { frame, err := reader.ReadTypedFrame(); if err != nil { ... } ... }\<close> of the
  client and the server: at most \<open>n\<close> frames, up to the first error.
\<close>

fun read_frames ::
  "(nat \<Rightarrow> 's \<Rightarrow> io_read \<times> 's) \<Rightarrow> nat \<Rightarrow> pool \<Rightarrow> 's \<Rightarrow> (frame list \<times> pool \<times> 's) option"
where
  "read_frames rd 0 p s = Some ([], p, s)"
| "read_frames rd (Suc n) p s =
     (case ReadTypedFrame rd p s of
        None \<Rightarrow> None
      | Some (Ok f, p', s') \<Rightarrow> map_option (\<lambda>(fs, q). (f # fs, q)) (read_frames rd n p' s')
      | Some (Err _, p', s') \<Rightarrow> Some ([], p', s')
      | Some (Panic, p', s') \<Rightarrow> Some ([], p', s'))"

definition frame_result :: "(io_error, frame \<times> bytes) outcome \<Rightarrow> (frame_error, frame) outcome" where
  "frame_result r = (case r of Ok (f, _) \<Rightarrow> Ok f | Err e \<Rightarrow> Err (ReadFailed e) | Panic \<Rightarrow> Panic)"

definition rest_after :: "(io_error, frame \<times> bytes) outcome \<Rightarrow> bytes" where
  "rest_after r = (case r of Ok (_, r) \<Rightarrow> r | _ \<Rightarrow> [])"

lemma pool_round_trip:
  assumes "pool_ok p" "GetBuffer p = (b, p')"
  shows "pool_ok (PutBuffer b p')" "in_use (PutBuffer b p') = in_use p"
  using assms by (auto simp: GetBuffer_def PutBuffer_def pool_ok_def in_use_def split: list.splits)

text \<open>
  A frame source is a byte reader; its frames are what the reference decoder finds in the
  pending bytes, whatever pieces the reader delivers them in, and no read leaks a buffer.
\<close>

locale frame_source = byte_reader rd valid pending fate weight
  for rd :: "nat \<Rightarrow> 's \<Rightarrow> io_read \<times> 's" and valid pending fate weight
begin

lemma ReadTypedFrame_dec:
  assumes v: "valid s" and p: "pool_ok p"
  obtains p' s' where
    "ReadTypedFrame rd p s = Some (frame_result (dec_frame (fate s) (pending s)), p', s')"
    "valid s'" "fate s' = fate s" "pending s' = rest_after (dec_frame (fate s) (pending s))"
    "pool_ok p'" "in_use p' = in_use p"
proof -
  let ?P = "pending s" and ?e = "fate s"
  obtain s1 where r1: "read_full rd 2 s = Some (fst (take_full 2 ?e ?P), s1)"
    and v1: "valid s1" "fate s1 = ?e" "pending s1 = snd (take_full 2 ?e ?P)"
    using read_full_take [OF v] .
  consider (short) "length ?P < 2" | (zero) "2 \<le> length ?P" "unat (of_be16 ?P) = 0"
    | (body) "2 \<le> length ?P" "unat (of_be16 ?P) \<noteq> 0" by linarith
  then show thesis
  proof cases
    case short
    then show thesis
      using that [of p s1] r1 v1 p
      by (simp add: ReadTypedFrame_def ReadTypedFramePooled_def ReadFrame_def dec_frame_def
          take_full_def frame_result_def rest_after_def)
  next
    case zero
    then show thesis
      using that [of p s1] r1 v1 p
      by (simp add: ReadTypedFrame_def ReadTypedFramePooled_def ReadFrame_def dec_frame_def
          take_full_def frame_result_def rest_after_def no_packet_def Release_def ReleaseFrame_def
          Let_def)
  next
    case body
    define n where "n = unat (of_be16 ?P)"
    have n: "0 < n" "n \<le> MaxFrameSize"
      using body unat_u16_less [of "of_be16 ?P"] by (auto simp: n_def MaxFrameSize_def)
    obtain b p1 where g: "GetBuffer p = (b, p1)" by (cases "GetBuffer p")
    obtain s2 where r2: "read_full rd n s1 = Some (fst (take_full n ?e (drop 2 ?P)), s2)"
      and v2: "valid s2" "fate s2 = ?e" "pending s2 = snd (take_full n ?e (drop 2 ?P))"
      using read_full_take [OF v1(1), of n] v1 body by (auto simp: take_full_def)
    show thesis
    proof (cases "n \<le> length (drop 2 ?P)")
      case True
      then obtain t d where d: "drop 2 ?P = t # d" using n by (cases "drop 2 ?P") auto
      then have "take n (drop 2 ?P) = t # take (n - 1) d" using n by (cases n) auto
      then show thesis
        using that [of "PutBuffer b p1" s2] r1 r2 v2 n body True d g pool_round_trip [OF p g]
        by (simp add: ReadTypedFrame_def ReadTypedFramePooled_def ReadFrame_def dec_frame_def
            take_full_def frame_result_def rest_after_def ReleaseFrame_def Release_def Let_def
            flip: n_def)
    next
      case False
      then show thesis
        using that [of "PutBuffer b p1" s2] r1 r2 v2 n body g pool_round_trip [OF p g]
        by (simp add: ReadTypedFrame_def ReadTypedFramePooled_def ReadFrame_def dec_frame_def
            take_full_def frame_result_def rest_after_def Let_def flip: n_def)
    qed
  qed
qed

lemma read_frames_drain:
  assumes "valid s" "pool_ok p"
  shows "\<exists>p' s'. read_frames rd n p s = Some (fst (drain (dec_frame (fate s)) n (pending s)), p', s') \<and>
    pool_ok p' \<and> in_use p' = in_use p"
  using assms
proof (induction n arbitrary: p s)
  case (Suc n)
  obtain p1 s1 where st:
    "ReadTypedFrame rd p s = Some (frame_result (dec_frame (fate s) (pending s)), p1, s1)"
    "valid s1" "fate s1 = fate s" "pending s1 = rest_after (dec_frame (fate s) (pending s))"
    "pool_ok p1" "in_use p1 = in_use p"
    using ReadTypedFrame_dec [OF Suc.prems] .
  obtain p2 s2 where ih:
    "read_frames rd n p1 s1 = Some (fst (drain (dec_frame (fate s)) n (pending s1)), p2, s2)"
    "pool_ok p2" "in_use p2 = in_use p"
    using Suc.IH [OF st(2) st(5)] st by auto
  show ?case
    using st ih by (cases "dec_frame (fate s) (pending s)")
      (auto simp: frame_result_def rest_after_def split: prod.splits)
qed simp

end

interpretation net_frames: frame_source conn_read "\<lambda>_. True" "\<lambda>c. concat (arriving c)" ending
  "\<lambda>c. length (arriving c) + length (concat (arriving c))"
  by unfold_locales

section \<open>The frame writer\<close>

text \<open>
  The fields of the Go struct. \<open>flushTimer\<close> is \<open>None\<close> before the timer exists and tells
  afterwards whether it is armed; \<open>flushChan\<close> tells whether the one-slot signal channel is
  full; \<open>closeChan\<close> whether the channel is closed; \<open>flusher\<close> whether the goroutine
  \<^verbatim>\<open>autoFlusher\<close> still runs.
\<close>

record 'w frame_writer =
  fw_w :: 'w
  batchBuf :: bytes
  batchSize :: nat
  maxBatchSize :: nat
  flushTimer :: "bool option"
  flushChan :: bool
  closeChan :: bool
  directMode :: bool
  directBuf :: bytes
  flusher :: bool

definition batch_limit :: nat where
  "batch_limit = 128 * 1024"

definition NewFrameWriter :: "'w \<Rightarrow> 'w frame_writer" where
  "NewFrameWriter w =
     \<lparr>fw_w = w, batchBuf = [], batchSize = 0, maxBatchSize = batch_limit, flushTimer = None,
      flushChan = False, closeChan = False, directMode = False, directBuf = [], flusher = True\<rparr>"

definition NewFrameWriterDirect :: "'w \<Rightarrow> 'w frame_writer" where
  "NewFrameWriterDirect w =
     \<lparr>fw_w = w, batchBuf = [], batchSize = 0, maxBatchSize = 0, flushTimer = None,
      flushChan = False, closeChan = False, directMode = True,
      directBuf = replicate (3 + MaxFrameSize) 0, flusher = False\<rparr>"

text \<open>\<^verbatim>\<open>copy(dst[i:], src)\<close>: what does not fit is not copied.\<close>

definition blit :: "nat \<Rightarrow> bytes \<Rightarrow> bytes \<Rightarrow> bytes" where
  "blit i src dst = take i dst @ take (length dst - i) src @ drop (i + length src) dst"

definition flushLocked ::
  "(bytes \<Rightarrow> 'w \<Rightarrow> io_error option \<times> 'w) \<Rightarrow> 'w frame_writer \<Rightarrow> io_error option \<times> 'w frame_writer"
where
  "flushLocked wr fw =
     (if batchSize fw = 0 then (None, fw)
      else case wr (take (batchSize fw) (batchBuf fw)) (fw_w fw) of
        (e, w') \<Rightarrow> (e, fw\<lparr>fw_w := w', batchBuf := [], batchSize := 0\<rparr>))"

definition scheduleFlush :: "'w frame_writer \<Rightarrow> 'w frame_writer" where
  "scheduleFlush fw = fw\<lparr>flushTimer := Some True\<rparr>"

definition make_room ::
  "(bytes \<Rightarrow> 'w \<Rightarrow> io_error option \<times> 'w) \<Rightarrow> nat \<Rightarrow> 'w frame_writer \<Rightarrow> io_error option \<times> 'w frame_writer"
where
  "make_room wr n fw =
     (if maxBatchSize fw < batchSize fw + 2 + n then flushLocked wr fw else (None, fw))"

definition append_batch :: "bytes \<Rightarrow> nat \<Rightarrow> 'w frame_writer \<Rightarrow> 'w frame_writer" where
  "append_batch bs n fw =
     fw\<lparr>batchBuf := batchBuf fw @ bs, batchSize := batchSize fw + (2 + n)\<rparr>"

definition WriteTypedFrame ::
  "(bytes \<Rightarrow> 'w \<Rightarrow> io_error option \<times> 'w) \<Rightarrow> frame \<Rightarrow> 'w frame_writer \<Rightarrow>
   io_error option \<times> 'w frame_writer"
where
  "WriteTypedFrame wr f fw =
     (let n = 1 + length (frame_payload f) in
      if n = 0 \<or> MaxFrameSize < n then (None, fw)
      else if directMode fw then
        let buf = blit 3 (frame_payload f)
              ((blit 0 (be16 (word_of_nat n)) (directBuf fw)) [2 := frame_type f])
        in case wr (take (2 + n) buf) (fw_w fw) of
             (e, w') \<Rightarrow> (e, fw\<lparr>directBuf := buf, fw_w := w'\<rparr>)
      else case make_room wr n fw of
        (Some e, fw1) \<Rightarrow> (Some e, fw1)
      | (None, fw1) \<Rightarrow>
          let fw2 = append_batch (be16 (word_of_nat n) @ frame_type f # frame_payload f) n fw1
          in if maxBatchSize fw2 div 2 \<le> batchSize fw2 then flushLocked wr fw2
             else (None, scheduleFlush fw2))"

definition WriteFrame ::
  "(bytes \<Rightarrow> 'w \<Rightarrow> io_error option \<times> 'w) \<Rightarrow> bytes \<Rightarrow> 'w frame_writer \<Rightarrow>
   io_error option \<times> 'w frame_writer"
where
  "WriteFrame wr data fw =
     (if length data = 0 \<or> MaxFrameSize < length data then (None, fw)
      else if directMode fw then
        let buf = blit 2 data (blit 0 (be16 (word_of_nat (length data))) (directBuf fw))
        in case wr (take (2 + length data) buf) (fw_w fw) of
             (e, w') \<Rightarrow> (e, fw\<lparr>directBuf := buf, fw_w := w'\<rparr>)
      else case make_room wr (length data) fw of
        (Some e, fw1) \<Rightarrow> (Some e, fw1)
      | (None, fw1) \<Rightarrow>
          (None, scheduleFlush
             (append_batch (be16 (word_of_nat (length data)) @ data) (length data) fw1)))"

definition Flush ::
  "(bytes \<Rightarrow> 'w \<Rightarrow> io_error option \<times> 'w) \<Rightarrow> 'w frame_writer \<Rightarrow> io_error option \<times> 'w frame_writer"
where
  "Flush wr fw = (if directMode fw then (None, fw) else flushLocked wr fw)"

definition CloseWriter ::
  "(bytes \<Rightarrow> 'w \<Rightarrow> io_error option \<times> 'w) \<Rightarrow> 'w frame_writer \<Rightarrow> io_error option \<times> 'w frame_writer"
where
  "CloseWriter wr fw =
     Flush wr (fw\<lparr>closeChan := True, flushTimer := map_option (\<lambda>_. False) (flushTimer fw)\<rparr>)"

text \<open>
  The events that can befall a writer, one at a time (\<open>mu\<close> serialises them): calls of the
  owner, the timer's callback, and the two branches of the flusher's \<^verbatim>\<open>select\<close>. An event that
  cannot happen in a state leaves it as it is.
\<close>

datatype fw_event =
    WriteTyped frame
  | WriteRaw bytes
  | FlushCall
  | TimerFires
  | AutoFlush
  | FlusherStops
  | CloseCall

fun fw_step ::
  "(bytes \<Rightarrow> 'w \<Rightarrow> io_error option \<times> 'w) \<Rightarrow> fw_event \<Rightarrow> 'w frame_writer \<Rightarrow>
   io_error option \<times> 'w frame_writer"
where
  "fw_step wr (WriteTyped f) fw = WriteTypedFrame wr f fw"
| "fw_step wr (WriteRaw d) fw = WriteFrame wr d fw"
| "fw_step wr FlushCall fw = Flush wr fw"
| "fw_step wr TimerFires fw =
     (None, if flushTimer fw = Some True then fw\<lparr>flushTimer := Some False, flushChan := True\<rparr> else fw)"
| "fw_step wr AutoFlush fw =
     (if flusher fw \<and> flushChan fw then Flush wr (fw\<lparr>flushChan := False\<rparr>) else (None, fw))"
| "fw_step wr FlusherStops fw = (None, if closeChan fw then fw\<lparr>flusher := False\<rparr> else fw)"
| "fw_step wr CloseCall fw = CloseWriter wr fw"

fun fw_run ::
  "(bytes \<Rightarrow> 'w \<Rightarrow> io_error option \<times> 'w) \<Rightarrow> fw_event list \<Rightarrow> 'w frame_writer \<Rightarrow>
   io_error option list \<times> 'w frame_writer"
where
  "fw_run wr [] fw = ([], fw)"
| "fw_run wr (ev # evs) fw =
     (case fw_step wr ev fw of (e, fw1) \<Rightarrow>
        case fw_run wr evs fw1 of (es, fw2) \<Rightarrow> (e # es, fw2))"

text \<open>The invariant of a writer, and the frames an event commits the writer to.\<close>

definition fw_sane :: "'w frame_writer \<Rightarrow> bool" where
  "fw_sane fw \<longleftrightarrow>
     (directMode fw \<longrightarrow>
        batchBuf fw = [] \<and> batchSize fw = 0 \<and> length (directBuf fw) = 3 + MaxFrameSize) \<and>
     (\<not> directMode fw \<longrightarrow>
        length (batchBuf fw) = batchSize fw \<and> batchSize fw \<le> maxBatchSize fw \<and>
        maxBatchSize fw = batch_limit \<and> (flusher fw \<or> closeChan fw))"

definition fw_live :: "'w frame_writer \<Rightarrow> bool" where
  "fw_live fw \<longleftrightarrow>
     batchSize fw = 0 \<or> closeChan fw \<or> flushTimer fw = Some True \<or> flushChan fw"

abbreviation fw_ok :: "'w frame_writer \<Rightarrow> bool" where
  "fw_ok fw \<equiv> fw_sane fw \<and> fw_live fw"

fun ev_frames :: "fw_event \<Rightarrow> frame list" where
  "ev_frames (WriteTyped f) = (if fits f then [f] else [])"
| "ev_frames (WriteRaw d) =
     (if d = [] \<or> MaxFrameSize < length d then []
      else [\<lparr>frame_type = hd d, frame_payload = tl d\<rparr>])"
| "ev_frames _ = []"

definition sent_frames :: "fw_event list \<Rightarrow> frame list" where
  "sent_frames evs = concat (map ev_frames evs)"

lemma flushLocked_ok:
  assumes "fw_sane fw" "\<not> directMode fw" "flushLocked wr fw = (e, fw')"
  shows "fw_ok fw' \<and> \<not> directMode fw' \<and> batchSize fw' = 0 \<and> batchBuf fw' = []"
proof (cases "batchSize fw = 0")
  case True
  then have "fw' = fw" using assms(3) by (simp add: flushLocked_def)
  then show ?thesis using assms(1,2) True by (simp add: fw_sane_def fw_live_def)
next
  case False
  then have "fw' = fw\<lparr>fw_w := fw_w fw', batchBuf := [], batchSize := 0\<rparr>"
    using assms(3) by (auto simp: flushLocked_def split: prod.splits)
  then obtain w where "fw' = fw\<lparr>fw_w := w, batchBuf := [], batchSize := 0\<rparr>" ..
  then show ?thesis using assms(1,2) by (simp add: fw_sane_def fw_live_def)
qed

lemma Flush_ok:
  assumes "fw_sane fw" "Flush wr fw = (e, fw')"
  shows "fw_ok fw' \<and> batchSize fw' = 0"
proof (cases "directMode fw")
  case True
  then show ?thesis using assms by (simp add: Flush_def fw_sane_def fw_live_def)
next
  case False
  then show ?thesis using assms flushLocked_ok [OF assms(1)] by (simp add: Flush_def)
qed

lemma batch_limit_frame: "n \<le> MaxFrameSize \<Longrightarrow> Suc (Suc n) \<le> batch_limit"
  by (simp add: batch_limit_def MaxFrameSize_def)

lemma make_room_ok:
  assumes "fw_sane fw" "\<not> directMode fw" "n \<le> MaxFrameSize" "make_room wr n fw = (e, fw')"
  shows "fw_sane fw' \<and> \<not> directMode fw' \<and> batchSize fw' + 2 + n \<le> maxBatchSize fw'"
proof (cases "maxBatchSize fw < batchSize fw + 2 + n")
  case True
  then have "flushLocked wr fw = (e, fw')" using assms by (simp add: make_room_def)
  from flushLocked_ok [OF assms(1,2) this] assms(3) show ?thesis
    by (auto simp: fw_sane_def batch_limit_frame)
qed (use assms in \<open>auto simp: make_room_def\<close>)

lemma length_blit [simp]: "i + length src \<le> length dst \<Longrightarrow> length (blit i src dst) = length dst"
  by (simp add: blit_def)

lemma append_batch_sane:
  "fw_sane fw \<Longrightarrow> \<not> directMode fw \<Longrightarrow> length bs = 2 + n \<Longrightarrow>
   batchSize fw + 2 + n \<le> maxBatchSize fw \<Longrightarrow>
   fw_sane (append_batch bs n fw) \<and> \<not> directMode (append_batch bs n fw)"
  by (simp add: fw_sane_def append_batch_def)

lemma scheduleFlush_ok: "fw_sane fw \<Longrightarrow> fw_ok (scheduleFlush fw)"
  by (auto simp: scheduleFlush_def fw_sane_def fw_live_def)

text \<open>The two writes, on the branch they take.\<close>

lemma WriteTypedFrame_big [simp]: "\<not> fits f \<Longrightarrow> WriteTypedFrame wr f fw = (None, fw)"
  by (simp add: WriteTypedFrame_def fits_def)

lemma WriteFrame_big [simp]: "d = [] \<or> MaxFrameSize < length d \<Longrightarrow> WriteFrame wr d fw = (None, fw)"
  by (simp add: WriteFrame_def)

lemma WriteTypedFrame_batched:
  assumes "fits f" "\<not> directMode fw" "WriteTypedFrame wr f fw = (e, fw')"
  obtains (full) e1 where "make_room wr (1 + length (frame_payload f)) fw = (Some e1, fw')"
      "e = Some e1"
    | (flush) fw1 where "make_room wr (1 + length (frame_payload f)) fw = (None, fw1)"
      "flushLocked wr (append_batch (enc_frame f) (1 + length (frame_payload f)) fw1) = (e, fw')"
    | (later) fw1 where "make_room wr (1 + length (frame_payload f)) fw = (None, fw1)"
      "fw' = scheduleFlush (append_batch (enc_frame f) (1 + length (frame_payload f)) fw1)" "e = None"
proof -
  let ?n = "1 + length (frame_payload f)"
  obtain r fw1 where r: "make_room wr ?n fw = (r, fw1)" by fastforce
  define fw2 where "fw2 = append_batch (enc_frame f) ?n fw1"
  have w: "WriteTypedFrame wr f fw =
      (case r of Some e \<Rightarrow> (Some e, fw1)
       | None \<Rightarrow> if maxBatchSize fw2 div 2 \<le> batchSize fw2 then flushLocked wr fw2
                 else (None, scheduleFlush fw2))"
    using assms(1,2) r
    by (simp add: WriteTypedFrame_def Let_def fits_def fw2_def enc_frame_def split: option.splits)
  show thesis
  proof (cases r)
    case None
    show thesis
    proof (cases "maxBatchSize fw2 div 2 \<le> batchSize fw2")
      case True
      then have "flushLocked wr fw2 = (e, fw')" using w None assms(3) by simp
      then show thesis using flush r None unfolding fw2_def by blast
    next
      case False
      then have "e = None" "fw' = scheduleFlush fw2" using w None assms(3) by simp_all
      then show thesis using later r None unfolding fw2_def by blast
    qed
  next
    case (Some e1)
    with w r assms(3) have "e = Some e1" "fw' = fw1" by simp_all
    then show thesis using full r Some by blast
  qed
qed

lemma WriteFrame_batched:
  assumes "d \<noteq> []" "length d \<le> MaxFrameSize" "\<not> directMode fw" "WriteFrame wr d fw = (e, fw')"
  obtains (full) e1 where "make_room wr (length d) fw = (Some e1, fw')" "e = Some e1"
    | (later) fw1 where "make_room wr (length d) fw = (None, fw1)" "e = None"
      "fw' = scheduleFlush (append_batch (be16 (word_of_nat (length d)) @ d) (length d) fw1)"
proof -
  obtain r fw1 where r: "make_room wr (length d) fw = (r, fw1)" by fastforce
  have w: "WriteFrame wr d fw =
      (case make_room wr (length d) fw of (Some e, fw1) \<Rightarrow> (Some e, fw1)
       | (None, fw1) \<Rightarrow> (None, scheduleFlush
           (append_batch (be16 (word_of_nat (length d)) @ d) (length d) fw1)))"
    using assms(1-3) by (simp add: WriteFrame_def)
  show thesis
  proof (cases r)
    case None
    with w r assms(4) have "e = None"
      "fw' = scheduleFlush (append_batch (be16 (word_of_nat (length d)) @ d) (length d) fw1)"
      by simp_all
    then show thesis using later r None by blast
  next
    case (Some e1)
    with w r assms(4) have "e = Some e1" "fw' = fw1" by simp_all
    then show thesis using full r Some by blast
  qed
qed

lemma direct_ok:
  "fw_ok fw \<Longrightarrow> directMode fw \<Longrightarrow> length buf = length (directBuf fw) \<Longrightarrow>
   fw_ok (fw\<lparr>directBuf := buf, fw_w := w\<rparr>)"
  by (auto simp add: fw_sane_def fw_live_def)

lemma blit_front: "length src \<le> length dst \<Longrightarrow> blit 0 src dst = src @ drop (length src) dst"
  by (simp add: blit_def)

lemma direct_typed:
  assumes "fits f" "fw_sane fw" "directMode fw" "WriteTypedFrame wr f fw = (e, fw')"
  obtains buf w' where "fw' = fw\<lparr>directBuf := buf, fw_w := w'\<rparr>"
    and "length buf = length (directBuf fw)" and "wr (enc_frame f) (fw_w fw) = (e, w')"
proof -
  let ?n = "1 + length (frame_payload f)"
  define buf where "buf = blit 3 (frame_payload f)
      ((blit 0 (be16 (word_of_nat ?n)) (directBuf fw)) [2 := frame_type f])"
  have len: "length (directBuf fw) = 3 + MaxFrameSize" "?n \<le> MaxFrameSize"
    using assms(1-3) by (auto simp: fw_sane_def fits_def)
  have b: "length buf = length (directBuf fw)" using len by (simp add: buf_def)
  have "take (2 + ?n) buf = enc_frame f"
    using len by (simp add: buf_def blit_front blit_def enc_frame_def list_update_append
        numeral_3_eq_3 take_Suc_conv_app_nth)
  moreover obtain e' w' where "wr (take (2 + ?n) buf) (fw_w fw) = (e', w')" by fastforce
  moreover have "WriteTypedFrame wr f fw =
      (case wr (take (2 + ?n) buf) (fw_w fw) of (e, w') \<Rightarrow> (e, fw\<lparr>directBuf := buf, fw_w := w'\<rparr>))"
    using assms(3) len(2) by (simp add: WriteTypedFrame_def Let_def buf_def)
  ultimately have "fw' = fw\<lparr>directBuf := buf, fw_w := w'\<rparr>" "wr (enc_frame f) (fw_w fw) = (e, w')"
    using assms(4) by simp_all
  with b show thesis using that by blast
qed

lemma direct_raw:
  assumes "d \<noteq> []" "length d \<le> MaxFrameSize" "fw_sane fw" "directMode fw"
    "WriteFrame wr d fw = (e, fw')"
  obtains buf w' where "fw' = fw\<lparr>directBuf := buf, fw_w := w'\<rparr>"
    and "length buf = length (directBuf fw)"
    and "wr (be16 (word_of_nat (length d)) @ d) (fw_w fw) = (e, w')"
proof -
  define buf where "buf = blit 2 d (blit 0 (be16 (word_of_nat (length d))) (directBuf fw))"
  have len: "length (directBuf fw) = 3 + MaxFrameSize" using assms by (auto simp: fw_sane_def)
  have b: "length buf = length (directBuf fw)" using len assms(2) by (simp add: buf_def)
  have "take (2 + length d) buf = be16 (word_of_nat (length d)) @ d"
    using len assms(2) by (simp add: buf_def blit_front blit_def)
  moreover obtain e' w' where "wr (take (2 + length d) buf) (fw_w fw) = (e', w')" by fastforce
  moreover have "WriteFrame wr d fw =
      (case wr (take (2 + length d) buf) (fw_w fw) of (e, w') \<Rightarrow> (e, fw\<lparr>directBuf := buf, fw_w := w'\<rparr>))"
    using assms(1,2,4) by (simp add: WriteFrame_def Let_def buf_def)
  ultimately have "fw' = fw\<lparr>directBuf := buf, fw_w := w'\<rparr>"
    "wr (be16 (word_of_nat (length d)) @ d) (fw_w fw) = (e, w')"
    using assms(5) by simp_all
  with b show thesis using that by blast
qed

lemma WriteTypedFrame_ok:
  assumes ok: "fw_ok fw" and w: "WriteTypedFrame wr f fw = (e, fw')"
  shows "fw_ok fw'"
proof (cases "fits f")
  case False
  then show ?thesis using assms by simp
next
  case f: True
  show ?thesis
  proof (cases "directMode fw")
    case True
    obtain buf w' where fw': "fw' = fw\<lparr>directBuf := buf, fw_w := w'\<rparr>"
      and "length buf = length (directBuf fw)"
      using direct_typed [OF f _ True w] ok by blast
    then show ?thesis using direct_ok [OF ok True] by blast
  next
    case False
    from f have n: "1 + length (frame_payload f) \<le> MaxFrameSize" by (simp add: fits_def)
    have room: "fw_sane fw1 \<and> \<not> directMode fw1 \<and>
        fw_sane (append_batch (enc_frame f) (1 + length (frame_payload f)) fw1) \<and>
        \<not> directMode (append_batch (enc_frame f) (1 + length (frame_payload f)) fw1)"
      if "make_room wr (1 + length (frame_payload f)) fw = (r, fw1)" for r fw1
      using make_room_ok [OF _ False n that] ok append_batch_sane [of fw1 "enc_frame f"] by auto
    from f False w show ?thesis
    proof (cases rule: WriteTypedFrame_batched)
      case (full e1)
      then have "flushLocked wr fw = (e, fw')" by (auto simp: make_room_def split: if_splits)
      then show ?thesis using flushLocked_ok ok False by blast
    next
      case (flush fw1)
      then show ?thesis using room flushLocked_ok by blast
    next
      case (later fw1)
      then show ?thesis using room scheduleFlush_ok by blast
    qed
  qed
qed

lemma WriteFrame_ok:
  assumes ok: "fw_ok fw" and w: "WriteFrame wr d fw = (e, fw')"
  shows "fw_ok fw'"
proof (cases "d = [] \<or> MaxFrameSize < length d")
  case True
  then show ?thesis using assms by simp
next
  case f: False
  then have n: "d \<noteq> []" "length d \<le> MaxFrameSize" by auto
  show ?thesis
  proof (cases "directMode fw")
    case True
    obtain buf w' where fw': "fw' = fw\<lparr>directBuf := buf, fw_w := w'\<rparr>"
      and "length buf = length (directBuf fw)"
      using direct_raw [OF n _ True w] ok by blast
    then show ?thesis using direct_ok [OF ok True] by blast
  next
    case False
    from n False w show ?thesis
    proof (cases rule: WriteFrame_batched)
      case (full e1)
      then have "flushLocked wr fw = (e, fw')" by (auto simp: make_room_def split: if_splits)
      then show ?thesis using flushLocked_ok ok False by blast
    next
      case (later fw1)
      then show ?thesis
        using make_room_ok [OF _ False n(2)] ok append_batch_sane [of fw1 "be16 (word_of_nat (length d)) @ d"]
          scheduleFlush_ok by auto
    qed
  qed
qed

lemma fw_step_ok: "fw_ok fw \<Longrightarrow> fw_step wr ev fw = (e, fw') \<Longrightarrow> fw_ok fw'"
proof (cases ev)
  case CloseCall
  assume "fw_ok fw" "fw_step wr ev fw = (e, fw')"
  moreover have "fw_sane fw \<Longrightarrow> fw_sane (fw\<lparr>closeChan := True, flushTimer := t\<rparr>)" for t
    by (auto simp: fw_sane_def)
  ultimately show "fw_ok fw'"
    using Flush_ok CloseCall by (fastforce simp: CloseWriter_def)
next
  case AutoFlush
  assume "fw_ok fw" "fw_step wr ev fw = (e, fw')"
  moreover have "fw_sane fw \<Longrightarrow> fw_sane (fw\<lparr>flushChan := False\<rparr>)"
    by (auto simp: fw_sane_def)
  ultimately show "fw_ok fw'"
    using Flush_ok AutoFlush by (fastforce split: if_splits)
next
  case (WriteTyped f)
  then show "fw_ok fw \<Longrightarrow> fw_step wr ev fw = (e, fw') \<Longrightarrow> fw_ok fw'"
    using WriteTypedFrame_ok by simp
next
  case (WriteRaw d)
  then show "fw_ok fw \<Longrightarrow> fw_step wr ev fw = (e, fw') \<Longrightarrow> fw_ok fw'"
    using WriteFrame_ok by simp
next
  case FlushCall
  then show "fw_ok fw \<Longrightarrow> fw_step wr ev fw = (e, fw') \<Longrightarrow> fw_ok fw'"
    using Flush_ok by fastforce
qed (auto simp: fw_sane_def fw_live_def split: if_splits)

lemma fw_run_ok: "fw_ok fw \<Longrightarrow> fw_run wr evs fw = (es, fw') \<Longrightarrow> fw_ok fw'"
proof (induction evs arbitrary: fw es fw')
  case (Cons ev evs)
  obtain e fw1 where s: "fw_step wr ev fw = (e, fw1)" by fastforce
  obtain es1 fw2 where r: "fw_run wr evs fw1 = (es1, fw2)" by fastforce
  show ?case using Cons.prems s r Cons.IH [OF fw_step_ok [OF Cons.prems(1) s] r] by simp
qed simp

lemma NewFrameWriter_ok [simp]: "fw_ok (NewFrameWriter w)" "fw_ok (NewFrameWriterDirect w)"
  by (simp_all add: NewFrameWriter_def NewFrameWriterDirect_def fw_sane_def fw_live_def)

text \<open>
  A frame sink is a byte writer; what a frame writer on top of it has sent, together with
  what it still holds in its batch, is the concatenation of the frames it accepted.
\<close>

locale frame_sink = byte_writer wr sent
  for wr :: "bytes \<Rightarrow> 'w \<Rightarrow> io_error option \<times> 'w" and sent
begin

definition emitted :: "'w frame_writer \<Rightarrow> bytes" where
  "emitted fw = sent (fw_w fw) @ batchBuf fw"

lemma flushLocked_emitted:
  "fw_sane fw \<Longrightarrow> \<not> directMode fw \<Longrightarrow> flushLocked wr fw = (None, fw') \<Longrightarrow>
   emitted fw' = emitted fw \<and> batchBuf fw' = []"
  by (auto simp: flushLocked_def emitted_def fw_sane_def dest: write_ok split: if_splits prod.splits)

lemma Flush_emitted:
  "fw_sane fw \<Longrightarrow> Flush wr fw = (None, fw') \<Longrightarrow> emitted fw' = emitted fw \<and> batchBuf fw' = []"
  using flushLocked_emitted [of fw fw']
  by (cases "directMode fw") (auto simp: Flush_def fw_sane_def)

lemma make_room_emitted:
  "fw_sane fw \<Longrightarrow> \<not> directMode fw \<Longrightarrow> make_room wr n fw = (None, fw') \<Longrightarrow> emitted fw' = emitted fw"
  using flushLocked_emitted [of fw fw']
  by (cases "maxBatchSize fw < batchSize fw + 2 + n") (auto simp: make_room_def)

lemma append_emitted [simp]: "emitted (append_batch bs n fw) = emitted fw @ bs"
  by (simp add: emitted_def append_batch_def)

lemma schedule_emitted [simp]: "emitted (scheduleFlush fw) = emitted fw"
  by (simp add: emitted_def scheduleFlush_def)

lemma WriteTypedFrame_emitted:
  assumes ok: "fw_sane fw" and f: "fits f" and w: "WriteTypedFrame wr f fw = (None, fw')"
  shows "emitted fw' = emitted fw @ enc_frame f"
proof (cases "directMode fw")
  case True
  obtain buf w' where "fw' = fw\<lparr>directBuf := buf, fw_w := w'\<rparr>"
    and "wr (enc_frame f) (fw_w fw) = (None, w')"
    using direct_typed [OF f ok True w] by blast
  then show ?thesis using True ok write_ok by (auto simp: emitted_def fw_sane_def)
next
  case False
  from f have n: "1 + length (frame_payload f) \<le> MaxFrameSize" by (simp add: fits_def)
  from f False w show ?thesis
  proof (cases rule: WriteTypedFrame_batched)
    case (flush fw1)
    have "fw_sane (append_batch (enc_frame f) (1 + length (frame_payload f)) fw1)"
      "\<not> directMode (append_batch (enc_frame f) (1 + length (frame_payload f)) fw1)"
      using make_room_ok [OF ok False n flush(1)] append_batch_sane [of fw1 "enc_frame f"] by auto
    then show ?thesis
      using flushLocked_emitted flush(2) make_room_emitted [OF ok False flush(1)] by fastforce
  next
    case (later fw1)
    then show ?thesis using make_room_emitted [OF ok False later(1)] by simp
  qed simp
qed

lemma WriteFrame_emitted:
  assumes ok: "fw_sane fw" and n: "d \<noteq> []" "length d \<le> MaxFrameSize"
    and w: "WriteFrame wr d fw = (None, fw')"
  shows "emitted fw' = emitted fw @ be16 (word_of_nat (length d)) @ d"
proof (cases "directMode fw")
  case True
  obtain buf w' where "fw' = fw\<lparr>directBuf := buf, fw_w := w'\<rparr>"
    and "wr (be16 (word_of_nat (length d)) @ d) (fw_w fw) = (None, w')"
    using direct_raw [OF n ok True w] by blast
  then show ?thesis using True ok write_ok by (auto simp: emitted_def fw_sane_def)
next
  case False
  from n False w show ?thesis
  proof (cases rule: WriteFrame_batched)
    case (later fw1)
    then show ?thesis using make_room_emitted [OF ok False later(1)] by simp
  qed simp
qed

lemma fw_step_emitted:
  assumes ok: "fw_sane fw" and s: "fw_step wr ev fw = (None, fw')"
  shows "emitted fw' = emitted fw @ concat (map enc_frame (ev_frames ev))"
proof (cases ev)
  case (WriteTyped f)
  then show ?thesis using WriteTypedFrame_emitted [OF ok, of f fw'] s by (cases "fits f") auto
next
  case (WriteRaw d)
  show ?thesis
  proof (cases "d = [] \<or> MaxFrameSize < length d")
    case False
    then obtain x xs where "d = x # xs" by (cases d) auto
    then show ?thesis
      using WriteRaw False WriteFrame_emitted [OF ok, of d fw'] s by (simp add: enc_frame_def)
  qed (use WriteRaw s in auto)
next
  case FlushCall
  then show ?thesis using s Flush_emitted [OF ok] by simp
next
  case AutoFlush
  have "fw_sane (fw\<lparr>flushChan := False\<rparr>)" using ok by (auto simp: fw_sane_def)
  then show ?thesis
    using AutoFlush s Flush_emitted [of "fw\<lparr>flushChan := False\<rparr>"] 
    by (auto simp: emitted_def split: if_splits)
next
  case CloseCall
  let ?c = "fw\<lparr>closeChan := True, flushTimer := map_option (\<lambda>_. False) (flushTimer fw)\<rparr>"
  have "fw_sane ?c" using ok by (auto simp: fw_sane_def)
  then have "emitted fw' = emitted ?c"
    using CloseCall s Flush_emitted [of ?c fw'] by (simp add: CloseWriter_def)
  then show ?thesis using CloseCall by (simp add: emitted_def)
qed (use s in \<open>auto simp: emitted_def split: if_splits\<close>)

lemma fw_run_emitted:
  "fw_ok fw \<Longrightarrow> fw_run wr evs fw = (es, fw') \<Longrightarrow> set es \<subseteq> {None} \<Longrightarrow>
   emitted fw' = emitted fw @ concat (map enc_frame (sent_frames evs))"
proof (induction evs arbitrary: fw es)
  case (Cons ev evs)
  obtain e fw1 where s: "fw_step wr ev fw = (e, fw1)" by fastforce
  obtain es1 fw2 where r: "fw_run wr evs fw1 = (es1, fw2)" by fastforce
  have "e = None" "fw2 = fw'" "set es1 \<subseteq> {None}" using Cons.prems s r by auto
  then show ?case
    using Cons.IH [OF fw_step_ok [OF Cons.prems(1) s], of es1] r s
      fw_step_emitted [of fw ev fw1] Cons.prems(1) by (simp add: sent_frames_def)
qed (simp add: sent_frames_def)

end

interpretation net_sink: frame_sink conn_write "\<lambda>c. concat (taken c)"
  by unfold_locales

lemma sent_frames_fit: "\<forall>f \<in> set (sent_frames evs). fits f"
proof -
  have "fits f" if "f \<in> set (ev_frames ev)" for f ev
    using that by (cases ev) (auto simp: fits_def split: if_splits)
  then show ?thesis by (auto simp: sent_frames_def)
qed

lemma drain_frames:
  "\<forall>f \<in> set fs. fits f \<Longrightarrow> length fs \<le> m \<Longrightarrow>
   drain (dec_frame e) m (concat (map enc_frame fs)) = (fs, [])"
proof (induction fs arbitrary: m)
  case Nil
  then show ?case by (cases m) (simp_all add: dec_frame_def)
next
  case (Cons f fs)
  then obtain k where m: "m = Suc k" by (cases m) auto
  then show ?case
    using Cons wire_frame.dec_enc [of f e "concat (map enc_frame fs)"] by simp
qed

lemma read_encoded_frames:
  assumes "\<forall>f \<in> set fs. fits f" "length fs \<le> n" "pool_ok p"
    "concat (arriving c) = concat (map enc_frame fs)"
  shows "\<exists>p' c'. read_frames conn_read n p c = Some (fs, p', c') \<and> pool_ok p' \<and> in_use p' = in_use p"
  using net_frames.read_frames_drain [of p n c] drain_frames [OF assms(1,2), of "ending c"] assms(3,4)
  by simp

lemma flushed_emitted:
  assumes "fw_run conn_write (evs @ [FlushCall]) (NewFrameWriter \<lparr>taken = [], lives = l\<rparr>) = (es, fw)"
    and "set es \<subseteq> {None}"
  shows "concat (taken (fw_w fw)) = concat (map enc_frame (sent_frames evs))"
proof -
  obtain e1 fw1 where s: "fw_run conn_write evs (NewFrameWriter \<lparr>taken = [], lives = l\<rparr>) = (e1, fw1)"
    by fastforce
  have split: "fw_run wr (a @ b) x = (let (u, y) = fw_run wr a x; (v, z) = fw_run wr b y in (u @ v, z))"
    for wr :: "bytes \<Rightarrow> 'w \<Rightarrow> io_error option \<times> 'w" and a b x
    by (induction a arbitrary: x) (auto split: prod.splits)
  have fl: "Flush conn_write fw1 = (None, fw)" "set e1 \<subseteq> {None}"
    using assms(1,2) s by (auto simp: split split: prod.splits)
  have ok: "fw_ok fw1" using fw_run_ok [OF NewFrameWriter_ok(1) s] .
  show ?thesis
    using net_sink.Flush_emitted [OF _ fl(1)] ok net_sink.fw_run_emitted [OF NewFrameWriter_ok(1) s fl(2)]
    by (auto simp: net_sink.emitted_def NewFrameWriter_def)
qed

section \<open>Properties\<close>

lemmas fw_eval = NewFrameWriter_def WriteTypedFrame_def WriteFrame_def make_room_def flushLocked_def
  append_batch_def scheduleFlush_def Flush_def conn_write_def batch_limit_def MaxFrameSize_def
  be16_def sent_frames_def fits_def enc_frame_def Let_def

text \<open>What a frame writer has put on the connection, followed by what its batch still holds,
  is at every moment the concatenation of the wire images of the frames it accepted, in order:
  batching, the flush threshold, the timer and the flusher neither lose, duplicate nor reorder
  anything as long as the connection takes the writes.\<close>

theorem writer_stream:
  assumes "fw_run conn_write evs (NewFrameWriter w) = (es, fw)" and "set es \<subseteq> {None}"
  shows "concat (taken (fw_w fw)) @ batchBuf fw =
    concat (taken w) @ concat (map enc_frame (sent_frames evs))"
  using net_sink.fw_run_emitted [OF NewFrameWriter_ok(1) assms]
  by (simp add: net_sink.emitted_def NewFrameWriter_def)

theorem writer_stream_witness:
  "let ev = [WriteTyped \<lparr>frame_type = 9, frame_payload = [1, 2]\<rparr>, TimerFires, AutoFlush, WriteRaw [7, 8]];
       fw = snd (fw_run conn_write ev (NewFrameWriter \<lparr>taken = [], lives = Some 2\<rparr>))
   in concat (taken (fw_w fw)) @ batchBuf fw = [0, 3, 9, 1, 2, 0, 2, 7, 8]"
proof -
  let ?ev = "[WriteTyped \<lparr>frame_type = 9, frame_payload = [1, 2]\<rparr>, TimerFires, AutoFlush, WriteRaw [7, 8]]"
  let ?w = "\<lparr>taken = [], lives = Some 2\<rparr>"
  obtain es fw where r: "fw_run conn_write ?ev (NewFrameWriter ?w) = (es, fw)" by fastforce
  have "fst (fw_run conn_write ?ev (NewFrameWriter ?w)) = [None, None, None, None]"
    by (simp add: fw_eval)
  then have es: "set es \<subseteq> {None}" using r by simp
  have "concat (map enc_frame (sent_frames ?ev)) = [0, 3, 9, 1, 2, 0, 2, 7, 8]"
    by (simp add: fw_eval)
  then show ?thesis using writer_stream [OF r es] r by (simp add: Let_def)
qed

text \<open>C1. Frames cross the wire intact. Write any frames (typed or raw, with flushes, timer
  ticks, flusher wake-ups and a close in between), flush, and let the network deliver the bytes in
  any pieces: the reader's loop returns exactly the frames that were accepted, in order, and
  gives every buffer back to the pool.\<close>

theorem frames_cross_the_wire:
  assumes "fw_run conn_write (evs @ [FlushCall]) (NewFrameWriter \<lparr>taken = [], lives = None\<rparr>) = (es, fw)"
    and "set es \<subseteq> {None}"
    and "concat (arriving c) = concat (taken (fw_w fw))"
    and "length (sent_frames evs) \<le> n" and "pool_ok p"
  shows "\<exists>p' c'. read_frames conn_read n p c = Some (sent_frames evs, p', c') \<and>
    pool_ok p' \<and> in_use p' = in_use p"
  using read_encoded_frames [OF sent_frames_fit assms(4,5)] flushed_emitted [OF assms(1,2)] assms(3)
  by simp

theorem frames_cross_the_wire_witness:
  "let ev = [WriteTyped \<lparr>frame_type = 9, frame_payload = [1, 2]\<rparr>, WriteRaw [7, 8]];
       c = \<lparr>arriving = [[0], [3, 9, 1], [2, 0, 2, 7], [8]], ending = EOF\<rparr>
   in \<exists>p' c'. read_frames conn_read 5 \<lparr>idle = [], fresh = 0\<rparr> c =
        Some ([\<lparr>frame_type = 9, frame_payload = [1, 2]\<rparr>, \<lparr>frame_type = 7, frame_payload = [8]\<rparr>], p', c')
      \<and> in_use p' = {}"
proof -
  let ?ev = "[WriteTyped \<lparr>frame_type = 9, frame_payload = [1, 2]\<rparr>, WriteRaw [7, 8]]"
  let ?w = "NewFrameWriter \<lparr>taken = [], lives = None\<rparr>"
  let ?c = "\<lparr>arriving = [[0], [3, 9, 1], [2, 0, 2, 7], [8]], ending = EOF\<rparr>"
  obtain es fw where r: "fw_run conn_write (?ev @ [FlushCall]) ?w = (es, fw)" by fastforce
  have "fst (fw_run conn_write (?ev @ [FlushCall]) ?w) = [None, None, None]"
    by (simp add: fw_eval)
  then have es: "set es \<subseteq> {None}" using r by simp
  have "concat (taken (fw_w (snd (fw_run conn_write (?ev @ [FlushCall]) ?w)))) = [0, 3, 9, 1, 2, 0, 2, 7, 8]"
    by (simp add: fw_eval)
  then have bytes: "concat (arriving ?c) = concat (taken (fw_w fw))" using r by simp
  have "sent_frames ?ev =
      [\<lparr>frame_type = 9, frame_payload = [1, 2]\<rparr>, \<lparr>frame_type = 7, frame_payload = [8]\<rparr>]"
    by (simp add: sent_frames_def fits_def MaxFrameSize_def)
  moreover have "pool_ok \<lparr>idle = [], fresh = 0\<rparr>" "in_use \<lparr>idle = [], fresh = 0\<rparr> = {}"
    by (simp_all add: pool_ok_def in_use_def)
  ultimately show ?thesis
    using frames_cross_the_wire [OF r es bytes, of 5 "\<lparr>idle = [], fresh = 0\<rparr>"]
    by (auto simp: Let_def)
qed

text \<open>Reading is a function of the byte stream. A frame read returns the frame, or the
  error, that the reference decoder finds at the front of the pending bytes, however the network
  cut them; a stream that ends inside a frame is an error and never a shortened frame; and the
  read buffer is back in the pool in every case.\<close>

theorem read_typed_frame_exact:
  assumes "pool_ok p"
  shows "\<exists>p' c'. ReadTypedFrame conn_read p c =
      Some (frame_result (dec_frame (ending c) (concat (arriving c))), p', c') \<and>
    concat (arriving c') = rest_after (dec_frame (ending c) (concat (arriving c))) \<and>
    pool_ok p' \<and> in_use p' = in_use p"
  by (rule net_frames.ReadTypedFrame_dec [OF TrueI assms, of c]) blast

theorem read_typed_frame_exact_witness:
  "\<exists>p' c'. ReadTypedFrame conn_read \<lparr>idle = [4], fresh = 5\<rparr> \<lparr>arriving = [[0], [3, 9, 1]], ending = EOF\<rparr> =
      Some (Err (ReadFailed UnexpectedEOF), p', c') \<and> concat (arriving c') = [] \<and>
    pool_ok p' \<and> in_use p' = {0, 1, 2, 3}"
proof -
  let ?c = "\<lparr>arriving = [[0], [3, 9, 1]], ending = EOF\<rparr>"
  have "dec_frame (ending ?c) (concat (arriving ?c)) = Err UnexpectedEOF"
    by (simp add: dec_frame_def short_error_def)
  moreover have "in_use \<lparr>idle = [4], fresh = 5\<rparr> = {0, 1, 2, 3}"
    by (auto simp: in_use_def)
  moreover have "pool_ok \<lparr>idle = [4], fresh = 5\<rparr>" by (simp add: pool_ok_def)
  ultimately show ?thesis
    using read_typed_frame_exact [of "\<lparr>idle = [4], fresh = 5\<rparr>" ?c]
    by (simp add: frame_result_def rest_after_def)
qed

text \<open>The batch never exceeds its bound and is never forgotten. Whatever the events and
  whether or not the connection fails, the batch holds at most 128 KiB; and as long as the writer
  is not closed, the timer's next tick followed by the flusher's wake-up empties it.\<close>

theorem batch_bounded_and_flushed:
  assumes "fw_run wr evs (NewFrameWriter w) = (es, fw)"
  shows "length (batchBuf fw) \<le> 128 * 1024 \<and>
    (\<not> closeChan fw \<longrightarrow> batchBuf (snd (fw_run wr [TimerFires, AutoFlush] fw)) = [])"
proof -
  have ok: "fw_ok fw" using fw_run_ok [OF NewFrameWriter_ok(1) assms] .
  have step: "directMode fw2 = directMode fw1" if "fw_step wr ev fw1 = (e, fw2)" for ev fw1 e fw2
    using that
    by (cases ev) (auto simp: WriteTypedFrame_def WriteFrame_def Flush_def flushLocked_def make_room_def
        CloseWriter_def Let_def append_batch_def scheduleFlush_def split: if_splits prod.splits option.splits)
  have mode: "directMode fw2 = directMode fw1" if "fw_run wr evs fw1 = (e, fw2)" for evs fw1 e fw2
    using that by (induction evs arbitrary: fw1 e) (auto dest: step split: prod.splits)
  have nd: "\<not> directMode fw" using mode [OF assms] by (simp add: NewFrameWriter_def)
  show ?thesis
  proof (intro conjI impI)
    show "length (batchBuf fw) \<le> 128 * 1024"
      using ok nd unfolding fw_sane_def batch_limit_def by metis
    assume unclosed: "\<not> closeChan fw"
    define fw1 where "fw1 = snd (fw_step wr TimerFires fw)"
    have fw1: "fw_ok fw1" "\<not> directMode fw1" "\<not> closeChan fw1" "batchSize fw1 = 0 \<or> flushChan fw1"
      using fw_step_ok [OF ok, of wr TimerFires None fw1] ok nd unclosed
      by (cases "flushTimer fw = Some True"; simp add: fw1_def fw_live_def)+
    have fl: "flusher fw1" using fw1 by (auto simp: fw_sane_def)
    have "batchBuf (snd (fw_step wr AutoFlush fw1)) = []"
    proof (cases "flushChan fw1")
      case True
      have sane: "fw_sane (fw1\<lparr>flushChan := False\<rparr>)" using fw1(1) by (auto simp: fw_sane_def)
      obtain e fw2 where l: "flushLocked wr (fw1\<lparr>flushChan := False\<rparr>) = (e, fw2)" by fastforce
      have "batchBuf fw2 = []" using flushLocked_ok [OF sane _ l] fw1(2) by simp
      then show ?thesis using True fl fw1(2) l by (simp add: Flush_def)
    next
      case False
      then show ?thesis using fw1 by (auto simp: fw_sane_def)
    qed
    then show "batchBuf (snd (fw_run wr [TimerFires, AutoFlush] fw)) = []"
      by (simp add: fw1_def case_prod_beta del: fw_step.simps)
  qed
qed

theorem batch_bounded_and_flushed_witness:
  "batchBuf (snd (fw_run conn_write [WriteRaw [7], TimerFires, AutoFlush]
     (NewFrameWriter \<lparr>taken = [], lives = Some 0\<rparr>))) = []"
proof -
  let ?w = "NewFrameWriter \<lparr>taken = [], lives = Some 0\<rparr>"
  obtain es fw where r: "fw_run conn_write [WriteRaw [7]] ?w = (es, fw)" by fastforce
  have "\<not> closeChan (snd (fw_run conn_write [WriteRaw [7]] ?w))" by (simp add: fw_eval)
  then have "\<not> closeChan fw" using r by simp
  then show ?thesis
    using batch_bounded_and_flushed [OF r] r by (simp add: case_prod_beta del: fw_step.simps)
qed

end
