(* ===== verification/Relay.thy ===== *)
theory Relay
  imports Framing
begin

text \<open>
  \<^verbatim>\<open>core/transport/relay.go\<close>: the address header read off a connection instead of a
  buffer, and the relay that copies two connections into each other. The header reader is
  shown to agree with \<open>DecodeAddress\<close> on the connection's byte stream; the relay, generic in
  its reader and writer, delivers each side's bytes to the other.
\<close>

section \<open>The address header off a connection\<close>

definition lift_read ::
  "((io_error, bytes) outcome \<times> 's) option \<Rightarrow>
   (bytes \<Rightarrow> 's \<Rightarrow> ((frame_error, 'a) outcome \<times> 's) option) \<Rightarrow>
   ((frame_error, 'a) outcome \<times> 's) option" where
  "lift_read r k =
     (case r of
        None \<Rightarrow> None
      | Some (Err e, s) \<Rightarrow> Some (Err (ReadFailed e), s)
      | Some (Panic, s) \<Rightarrow> Some (Panic, s)
      | Some (Ok bs, s) \<Rightarrow> k bs s)"

definition ReadAddressHeaderWithFirstByte ::
  "byte \<Rightarrow> (nat \<Rightarrow> 's \<Rightarrow> io_read \<times> 's) \<Rightarrow> 's \<Rightarrow>
   ((frame_error, byte \<times> string \<times> u16) outcome \<times> 's) option" where
  "ReadAddressHeaderWithFirstByte addrType rd s =
     (if addrType = AddrIPv4 then
        lift_read (read_full rd 6 s) (\<lambda>buf s'.
          Some (Ok (addrType, ip_string (take 4 buf), of_be16 (drop 4 buf)), s'))
      else if addrType = AddrIPv6 then
        lift_read (read_full rd 18 s) (\<lambda>buf s'.
          Some (Ok (addrType, ip_string (take 16 buf), of_be16 (drop 16 buf)), s'))
      else if addrType = AddrDomain then
        lift_read (read_full rd 1 s) (\<lambda>lenBuf s'.
          let n = unat (hd lenBuf) in
          lift_read (read_full rd (n + 2) s') (\<lambda>domainBuf s''.
            Some (Ok (addrType, bytes_str (take n domainBuf), of_be16 (drop n domainBuf)), s'')))
      else Some (Err (UnknownAddressType addrType), s))"

definition ReadAddressHeader ::
  "(nat \<Rightarrow> 's \<Rightarrow> io_read \<times> 's) \<Rightarrow> 's \<Rightarrow>
   ((frame_error, byte \<times> string \<times> u16) outcome \<times> 's) option" where
  "ReadAddressHeader rd s =
     lift_read (read_full rd 1 s) (\<lambda>header s'.
       ReadAddressHeaderWithFirstByte (hd header) rd s')"

text \<open>What the header reader must return on a connection whose pending bytes are \<open>bs\<close>.\<close>

definition header_agrees ::
  "bytes \<Rightarrow> (frame_error, byte \<times> string \<times> u16) outcome \<Rightarrow> bytes \<Rightarrow> bool" where
  "header_agrees bs r rest =
     (case DecodeAddress bs of
        Ok (x, t) \<Rightarrow> r = Ok x \<and> rest = t
      | Err (UnknownAddressType t) \<Rightarrow> r = Err (UnknownAddressType t) \<and> rest = tl bs
      | _ \<Rightarrow> \<not> is_ok r \<and> r \<noteq> Panic \<and> rest = [])"

locale header_source = byte_reader rd valid pending fate weight
  for rd :: "nat \<Rightarrow> 's \<Rightarrow> io_read \<times> 's" and valid pending fate weight
begin

lemma read_full_cases:
  assumes "valid s"
  obtains (got) s' where "n \<le> length (pending s)" "valid s'" "pending s' = drop n (pending s)"
      "read_full rd n s = Some (Ok (take n (pending s)), s')"
    | (short) s' e where "length (pending s) < n" "pending s' = []"
      "read_full rd n s = Some (Err e, s')"
proof (rule read_full_take [OF assms, of n])
  fix s' assume r: "read_full rd n s = Some (fst (take_full n (fate s) (pending s)), s')"
    "valid s'" "pending s' = snd (take_full n (fate s) (pending s))"
  show thesis
  proof (cases "n \<le> length (pending s)")
    case True
    then show thesis using r got [of s'] by (simp add: take_full_def)
  next
    case False
    then show thesis
      using r short [of s' "short_error (pending s) (fate s)"]
      by (simp add: take_full_def)
  qed
qed

lemma header_first_byte:
  assumes v: "valid s"
  shows "\<exists>r s'. ReadAddressHeaderWithFirstByte t rd s = Some (r, s') \<and>
    header_agrees (t # pending s) r (pending s')"
proof -
  consider (ip4) "t = AddrIPv4" | (ip6) "t = AddrIPv6" | (domain) "t = AddrDomain"
    | (other) "\<not> known_addr_type t"
    by (auto simp: known_addr_type_def)
  then show ?thesis
  proof cases
    case ip4
    from v show ?thesis
      by (cases rule: read_full_cases [of s 6])
         (use ip4 in \<open>auto simp: lift_read_def ReadAddressHeaderWithFirstByte_def header_agrees_def DecodeAddress_def
           drop_take take_take\<close>)
  next
    case ip6
    from v show ?thesis
      by (cases rule: read_full_cases [of s 18])
         (use ip6 in \<open>auto simp: lift_read_def ReadAddressHeaderWithFirstByte_def header_agrees_def DecodeAddress_def
           drop_take take_take\<close>)
  next
    case other
    then show ?thesis
      by (auto simp: lift_read_def ReadAddressHeaderWithFirstByte_def header_agrees_def DecodeAddress_def
          known_addr_type_def)
  next
    case domain
    from v show ?thesis
    proof (cases rule: read_full_cases [of s 1])
      case (short s' e)
      then show ?thesis
        using domain
        by (auto simp: lift_read_def ReadAddressHeaderWithFirstByte_def header_agrees_def DecodeAddress_def
            split: list.splits)
    next
      case (got s')
      then obtain l d where p: "pending s = l # d" by (cases "pending s") auto
      then have d: "pending s' = d" using got by simp
      have l: "hd (take 1 (pending s)) = l" by (simp add: p)
      from got(2) show ?thesis
        by (cases rule: read_full_cases [of s' "unat l + 2"])
           (use domain got(4) p d l in \<open>auto simp: lift_read_def ReadAddressHeaderWithFirstByte_def Let_def
             header_agrees_def DecodeAddress_def drop_take take_take\<close>)
    qed
  qed
qed

lemma header_any:
  assumes v: "valid s"
  shows "\<exists>r s'. ReadAddressHeader rd s = Some (r, s') \<and>
    header_agrees (pending s) r (pending s')"
  using v
proof (cases rule: read_full_cases [of s 1])
  case (got s')
  then obtain t d where p: "pending s = t # d" by (cases "pending s") auto
  then have "pending s' = d" "hd (take 1 (pending s)) = t" using got by simp_all
  then show ?thesis
    using header_first_byte [OF got(2), of t] got(4) p by (simp add: ReadAddressHeader_def lift_read_def)
next
  case (short s' e)
  then show ?thesis by (auto simp: lift_read_def ReadAddressHeader_def header_agrees_def DecodeAddress_def)
qed

end

interpretation net_header: header_source conn_read "\<lambda>_. True" "\<lambda>c. concat (arriving c)" ending
  "\<lambda>c. length (arriving c) + length (concat (arriving c))"
  by unfold_locales

section \<open>The relay\<close>

definition relayBufSize :: nat where
  "relayBufSize = 256 * 1024"

text \<open>
  \<^verbatim>\<open>io.CopyBuffer(dst, src, buf)\<close>: read up to a buffer, write it, until the source ends or a
  side fails. A clean end of file is success. \<open>None\<close> as the outer result is a copy that never
  returns.
\<close>

partial_function (option) copy_loop ::
  "(nat \<Rightarrow> 's \<Rightarrow> io_read \<times> 's) \<Rightarrow> (bytes \<Rightarrow> 'w \<Rightarrow> io_error option \<times> 'w) \<Rightarrow> nat \<Rightarrow> 's \<Rightarrow> 'w \<Rightarrow>
   (io_error option \<times> 's \<times> 'w) option"
where
  "copy_loop rd wr n s w =
     (case rd n s of
        (Got d, s') \<Rightarrow>
          if d = [] then copy_loop rd wr n s' w
          else (case wr d w of
            (None, w') \<Rightarrow> copy_loop rd wr n s' w'
          | (Some e, w') \<Rightarrow> Some (Some e, s', w'))
      | (Fail e, s') \<Rightarrow> Some (if e = EOF then None else Some e, s', w))"

text \<open>
  The dynamic type of a \<^verbatim>\<open>net.Conn\<close>, as far as the relay looks at it: a TCP connection, a
  wrapper with a \<^verbatim>\<open>NetConn\<close> method (a TLS connection), or anything else.
\<close>

datatype conn_kind = TCPConn | NetConner conn_kind | OtherConn

record endpoint =
  ep_in :: conn_in
  ep_out :: conn_out
  ep_kind :: conn_kind
  ep_write_closed :: bool

text \<open>\<^verbatim>\<open>closeWrite\<close> looks through at most one wrapper; \<^verbatim>\<open>TuneTCPConn\<close> through all of them.\<close>

fun can_close_write :: "conn_kind \<Rightarrow> bool" where
  "can_close_write TCPConn = True"
| "can_close_write (NetConner k) = (k = TCPConn)"
| "can_close_write OtherConn = False"

definition closeWrite :: "endpoint \<Rightarrow> endpoint" where
  "closeWrite c = (if can_close_write (ep_kind c) then c\<lparr>ep_write_closed := True\<rparr> else c)"

fun TuneTCPConn :: "conn_kind \<Rightarrow> bool" where
  "TuneTCPConn TCPConn = True"
| "TuneTCPConn (NetConner k) = TuneTCPConn k"
| "TuneTCPConn OtherConn = False"

text \<open>
  The two copies of \<^verbatim>\<open>BidirectionalRelay\<close> touch disjoint halves of the two connections
  (one reads \<open>left\<close> and writes \<open>right\<close>, the other the reverse), so their interleaving does not
  matter; the function returns when both have returned.
\<close>

definition copy_half :: "endpoint \<Rightarrow> endpoint \<Rightarrow> (conn_in \<times> conn_out) option" where
  "copy_half src dst =
     map_option snd (copy_loop conn_read conn_write relayBufSize (ep_in src) (ep_out dst))"

definition BidirectionalRelay :: "endpoint \<Rightarrow> endpoint \<Rightarrow> (endpoint \<times> endpoint) option" where
  "BidirectionalRelay left right =
     (case (copy_half left right, copy_half right left) of
        (Some (li, ro), Some (ri, lo)) \<Rightarrow>
          Some (closeWrite (left\<lparr>ep_in := li, ep_out := lo\<rparr>),
                closeWrite (right\<lparr>ep_in := ri, ep_out := ro\<rparr>))
      | _ \<Rightarrow> None)"

locale copier =
  byte_reader rd valid pending fate weight + byte_writer wr sent
  for rd :: "nat \<Rightarrow> 's \<Rightarrow> io_read \<times> 's" and valid pending fate weight
    and wr :: "bytes \<Rightarrow> 'w \<Rightarrow> io_error option \<times> 'w" and sent +
  fixes up :: "'w \<Rightarrow> bool"
  assumes up_writes: "up w \<Longrightarrow> \<exists>w'. wr b w = (None, w') \<and> up w'"
begin

lemma copy_returns:
  assumes "valid s" "0 < n"
  shows "\<exists>e s' w'. copy_loop rd wr n s w = Some (e, s', w') \<and>
    (up w \<longrightarrow> up w' \<and> pending s' = [] \<and> sent w' = sent w @ pending s)"
  using assms
proof (induction "weight s" arbitrary: s w rule: less_induct)
  case less
  obtain r s1 where r: "rd n s = (r, s1)" by fastforce
  have v1: "valid s1" using valid_step [OF less.prems(1) r] .
  show ?case
  proof (cases r)
    case (Fail e)
    then have "rd n s = (Fail e, s1)" using r by simp
    with fail_end [OF less.prems this] show ?thesis by (subst copy_loop.simps) auto
  next
    case (Got d)
    then have rd: "rd n s = (Got d, s1)" using r by simp
    have p: "pending s = d @ pending s1" and w: "weight s1 < weight s"
      using got_pending [OF less.prems(1) rd] got_progress [OF less.prems rd] by auto
    show ?thesis
    proof (cases "d = []")
      case True
      then show ?thesis
        using rd p less.hyps [OF w v1 less.prems(2), of w] by (subst copy_loop.simps) auto
    next
      case False
      obtain e w1 where wr: "wr d w = (e, w1)" by fastforce
      show ?thesis
      proof (cases e)
        case None
        then have wr': "wr d w = (None, w1)" using wr by simp
        have "up w \<longrightarrow> up w1" using up_writes [of w d] wr' by auto
        then show ?thesis
          using rd p False wr' write_ok [OF wr'] less.hyps [OF w v1 less.prems(2), of w1]
          by (subst copy_loop.simps) auto
      next
        case (Some e1)
        then have "\<not> up w" using up_writes [of w d] wr by auto
        then show ?thesis using rd False wr Some by (subst copy_loop.simps) auto
      qed
    qed
  qed
qed

end

interpretation net_copy: copier conn_read "\<lambda>_. True" "\<lambda>c. concat (arriving c)" ending
  "\<lambda>c. length (arriving c) + length (concat (arriving c))" conn_write "\<lambda>c. concat (taken c)"
  "\<lambda>c. lives c = None"
  by unfold_locales (simp add: conn_write_def)

lemma copy_half_delivers:
  assumes "lives (ep_out dst) = None"
  shows "\<exists>i out. copy_half src dst = Some (i, out) \<and>
    concat (taken out) = concat (taken (ep_out dst)) @ concat (arriving (ep_in src))"
  using net_copy.copy_returns [OF TrueI, of relayBufSize "ep_in src" "ep_out dst"] assms
  by (auto simp: copy_half_def relayBufSize_def)

lemma relay_outcome:
  assumes "lives (ep_out left) = None" "lives (ep_out right) = None"
  shows "\<exists>left' right'. BidirectionalRelay left right = Some (left', right') \<and>
    concat (taken (ep_out right')) = concat (taken (ep_out right)) @ concat (arriving (ep_in left)) \<and>
    concat (taken (ep_out left')) = concat (taken (ep_out left)) @ concat (arriving (ep_in right)) \<and>
    ep_write_closed right' = (ep_write_closed right \<or> can_close_write (ep_kind right))"
  using copy_half_delivers [OF assms(2), of left] copy_half_delivers [OF assms(1), of right]
  by (auto simp: BidirectionalRelay_def closeWrite_def)

section \<open>Properties\<close>

text \<open>Reading an address header off a connection and decoding it from a buffer are the same
  function: on the pending bytes the reader succeeds precisely where \<open>DecodeAddress\<close> does,
  with the same address, and leaves exactly the bytes after the header unread.\<close>

theorem read_header_agrees:
  "\<exists>r c'. ReadAddressHeader conn_read c = Some (r, c') \<and>
    header_agrees (concat (arriving c)) r (concat (arriving c'))"
  using net_header.header_any [OF TrueI] by blast

text \<open>The relay always returns once both sides end, and, when neither side stops taking
  bytes, everything either side sent has been delivered to the other, in order, and nothing
  more.\<close>

theorem relay_delivers:
  assumes "lives (ep_out left) = None" "lives (ep_out right) = None"
  shows "\<exists>left' right'. BidirectionalRelay left right = Some (left', right') \<and>
    concat (taken (ep_out right')) = concat (taken (ep_out right)) @ concat (arriving (ep_in left)) \<and>
    concat (taken (ep_out left')) = concat (taken (ep_out left)) @ concat (arriving (ep_in right)) \<and>
    ep_write_closed right' = (ep_write_closed right \<or> can_close_write (ep_kind right))"
  by (rule relay_outcome [OF assms])

theorem relay_delivers_witness:
  "\<exists>l r. BidirectionalRelay
      \<lparr>ep_in = \<lparr>arriving = [[1, 2], [3]], ending = EOF\<rparr>, ep_out = \<lparr>taken = [], lives = None\<rparr>,
       ep_kind = NetConner TCPConn, ep_write_closed = False\<rparr>
      \<lparr>ep_in = \<lparr>arriving = [[9]], ending = IOFail 1\<rparr>, ep_out = \<lparr>taken = [], lives = None\<rparr>,
       ep_kind = TCPConn, ep_write_closed = False\<rparr> = Some (l, r) \<and>
    concat (taken (ep_out r)) = [1, 2, 3] \<and> concat (taken (ep_out l)) = [9] \<and> ep_write_closed r"
  using relay_delivers
    [of "\<lparr>ep_in = \<lparr>arriving = [[1, 2], [3]], ending = EOF\<rparr>, ep_out = \<lparr>taken = [], lives = None\<rparr>,
          ep_kind = NetConner TCPConn, ep_write_closed = False\<rparr>"
        "\<lparr>ep_in = \<lparr>arriving = [[9]], ending = IOFail 1\<rparr>, ep_out = \<lparr>taken = [], lives = None\<rparr>,
          ep_kind = TCPConn, ep_write_closed = False\<rparr>"]
  by simp

end
