(* ===== verification/Replay.thy ===== *)
theory Replay
  imports GoHash GoIO
begin

text \<open>
  \<^verbatim>\<open>core/transport/replay.go\<close> and the replay-protected packet connection of
  \<^verbatim>\<open>core/transport/peeking_conn.go\<close>. The Bloom filter is bit-for-bit the Go one, with an
  index out of range and a division by zero as panics; the replay filter is written against
  the interface of a filter without false negatives (\<open>seen_filter\<close>), which the Bloom filter
  implements; its two critical sections and the rotation are the steps of an interleaving
  semantics.
\<close>

section \<open>The Bloom filter\<close>

record bloom =
  bitset :: "u64 list"
  bf_m :: u64
  bf_k :: nat

text \<open>
  \<^verbatim>\<open>NewBloomFilter\<close> computes the size \<open>m\<close> and the number of probes \<open>k\<close> from the capacity in
  floating point; the model takes them as they come out. The vector has \<^verbatim>\<open>(m+63)/64\<close> words, in
  64-bit arithmetic.
\<close>

definition NewBloomFilter :: "u64 \<Rightarrow> nat \<Rightarrow> bloom" where
  "NewBloomFilter m k = \<lparr>bitset = replicate (unat ((m + 63) div 64)) 0, bf_m = m, bf_k = k\<rparr>"

definition replay_hash :: "bytes \<Rightarrow> u64 \<times> u64" where
  "replay_hash d = (let h1 = fnv1a d in (h1, fnv_step h1 1))"

definition probes :: "bloom \<Rightarrow> bytes \<Rightarrow> u64 list" where
  "probes bf d =
     (case replay_hash d of (h1, h2) \<Rightarrow>
        map (\<lambda>i. (h1 + word_of_nat i * h2) mod bf_m bf) [0..<bf_k bf])"

text \<open>\<open>None\<close> is a run-time panic: the modulus is zero, or an index lies outside the vector.\<close>

fun set_bits :: "u64 list \<Rightarrow> u64 list \<Rightarrow> u64 list option" where
  "set_bits bs [] = Some bs"
| "set_bits bs (pos # ps) =
     (let i = unat (pos div 64) in
      if i < length bs then set_bits (bs[i := bs ! i OR push_bit (unat (pos mod 64)) 1]) ps else None)"

fun test_bits :: "u64 list \<Rightarrow> u64 list \<Rightarrow> bool option" where
  "test_bits bs [] = Some True"
| "test_bits bs (pos # ps) =
     (let i = unat (pos div 64) in
      if i < length bs then
        if bs ! i AND push_bit (unat (pos mod 64)) 1 = 0 then Some False else test_bits bs ps
      else None)"

definition Add :: "bytes \<Rightarrow> bloom \<Rightarrow> bloom option" where
  "Add d bf =
     (if bf_m bf = 0 \<and> 0 < bf_k bf then None
      else map_option (\<lambda>b. bf\<lparr>bitset := b\<rparr>) (set_bits (bitset bf) (probes bf d)))"

definition Contains :: "bytes \<Rightarrow> bloom \<Rightarrow> bool option" where
  "Contains d bf =
     (if bf_m bf = 0 \<and> 0 < bf_k bf then None else test_bits (bitset bf) (probes bf d))"

definition bloom_ok :: "bloom \<Rightarrow> bool" where
  "bloom_ok bf \<longleftrightarrow> bf_m bf \<noteq> 0 \<and> unat (bf_m bf) \<le> 64 * length (bitset bf)"

definition bits_of :: "u64 list \<Rightarrow> nat set" where
  "bits_of bs = {p. p div 64 < length bs \<and> bit (bs ! (p div 64)) (p mod 64)}"

lemma unat_div64: "unat (w div 64 :: u64) = unat w div 64" "unat (w mod 64 :: u64) = unat w mod 64"
  by (simp_all add: unat_div unat_mod)

lemma or_bit: "n < 64 \<Longrightarrow> bit (w OR 2 ^ n :: u64) k \<longleftrightarrow> bit w k \<or> k = n"
  by (auto simp: bit_or_iff bit_exp_iff)

lemma bits_of_set:
  assumes "unat pos div 64 < length bs"
  shows "bits_of (bs[unat pos div 64 := bs ! (unat pos div 64) OR 2 ^ (unat pos mod 64)]) =
    insert (unat pos) (bits_of bs)"
proof (rule set_eqI)
  fix p
  have "p = unat pos \<longleftrightarrow> p div 64 = unat pos div 64 \<and> p mod 64 = unat pos mod 64"
    by (metis div_mult_mod_eq)
  then show "p \<in> bits_of (bs[unat pos div 64 := bs ! (unat pos div 64) OR 2 ^ (unat pos mod 64)]) \<longleftrightarrow>
      p \<in> insert (unat pos) (bits_of bs)"
    using assms by (cases "p div 64 = unat pos div 64") (auto simp: bits_of_def or_bit)
qed

lemma set_bits_spec:
  assumes "\<forall>p \<in> set ps. unat p div 64 < length bs"
  shows "\<exists>bs'. set_bits bs ps = Some bs' \<and> length bs' = length bs \<and>
    bits_of bs' = bits_of bs \<union> unat ` set ps"
  using assms
proof (induction ps arbitrary: bs)
  case (Cons p ps)
  then show ?case
    using Cons.IH [of "bs[unat p div 64 := bs ! (unat p div 64) OR 2 ^ (unat p mod 64)]"]
    by (auto simp: unat_div64 bits_of_set)
qed simp

lemma test_bits_spec:
  assumes "\<forall>p \<in> set ps. unat p div 64 < length bs"
  shows "test_bits bs ps = Some (unat ` set ps \<subseteq> bits_of bs)"
  using assms by (induction ps) (auto simp: unat_div64 and_exp_eq_0_iff_not_bit bits_of_def)

lemma probes_in_range:
  assumes "bloom_ok bf" "p \<in> set (probes bf d)"
  shows "unat p div 64 < length (bitset bf)"
proof -
  obtain x where "p = x mod bf_m bf" using assms(2) by (auto simp: probes_def split: prod.splits)
  then have "unat p = unat x mod unat (bf_m bf)" by (simp add: unat_mod)
  moreover have "0 < unat (bf_m bf)" using assms(1) by (simp add: bloom_ok_def unat_gt_0)
  ultimately have "unat p < 64 * length (bitset bf)"
    using assms(1) mod_less_divisor [of "unat (bf_m bf)" "unat x"] unfolding bloom_ok_def by linarith
  then show ?thesis by (simp add: less_mult_imp_div_less mult.commute)
qed

lemma Contains_spec:
  "bloom_ok bf \<Longrightarrow> Contains d bf = Some (unat ` set (probes bf d) \<subseteq> bits_of (bitset bf))"
  using probes_in_range [of bf _ d]
  by (simp add: Contains_def test_bits_spec bloom_ok_def)

lemma Add_spec:
  assumes "bloom_ok bf"
  obtains bs where "Add d bf = Some (bf\<lparr>bitset := bs\<rparr>)" "length bs = length (bitset bf)"
    "bits_of bs = bits_of (bitset bf) \<union> unat ` set (probes bf d)"
  using set_bits_spec [of "probes bf d" "bitset bf"] probes_in_range [OF assms, of _ d] assms
  by (auto simp: Add_def bloom_ok_def)

lemma probes_bitset [simp]: "probes (bf\<lparr>bitset := bs\<rparr>) d = probes bf d"
  by (simp add: probes_def)

lemma NewBloomFilter_ok:
  assumes "m \<noteq> 0" "unat m \<le> 2 ^ 63"
  shows "bloom_ok (NewBloomFilter m k)"
proof -
  have "unat (m + 63) = unat m + 63"
    using assms(2) by (subst unat_add_lem [THEN iffD1]) simp_all
  then show ?thesis using assms(1) by (simp add: bloom_ok_def NewBloomFilter_def unat_div64)
qed

section \<open>Filters without false negatives\<close>

text \<open>
  What the replay filter needs of a filter: operations on a well-formed filter do not panic,
  what was added is contained, and stays contained.
\<close>

locale seen_filter =
  fixes contains :: "'d \<Rightarrow> 'f \<Rightarrow> bool option"
    and add :: "'d \<Rightarrow> 'f \<Rightarrow> 'f option"
    and ok :: "'f \<Rightarrow> bool"
  assumes contains_total: "ok f \<Longrightarrow> contains d f \<noteq> None"
    and add_spec: "ok f \<Longrightarrow> \<exists>f'. add d f = Some f' \<and> ok f' \<and> contains d f' = Some True \<and>
      (\<forall>e. contains e f = Some True \<longrightarrow> contains e f' = Some True)"

interpretation bloom_filter: seen_filter Contains Add bloom_ok
proof unfold_locales
  show "Contains d bf \<noteq> None" if "bloom_ok bf" for bf d
    using Contains_spec [OF that] by simp
  show "\<exists>f'. Add d bf = Some f' \<and> bloom_ok f' \<and> Contains d f' = Some True \<and>
      (\<forall>e. Contains e bf = Some True \<longrightarrow> Contains e f' = Some True)" if ok: "bloom_ok bf" for bf d
  proof (rule Add_spec [OF ok, of d])
    fix bs assume a: "Add d bf = Some (bf\<lparr>bitset := bs\<rparr>)" "length bs = length (bitset bf)"
      "bits_of bs = bits_of (bitset bf) \<union> unat ` set (probes bf d)"
    have ok': "bloom_ok (bf\<lparr>bitset := bs\<rparr>)" using ok a(2) by (simp add: bloom_ok_def)
    then show ?thesis
      using a ok by (auto simp: Contains_spec)
  qed
qed

section \<open>The replay filter\<close>

text \<open>
  Two generations of filters. The functions take the operations of the filter as arguments,
  so that they are proved once against the interface; the program's are the ones applied to
  \<open>Contains\<close> and \<open>Add\<close>.
\<close>

record 'f replay_filter =
  current :: 'f
  previous :: "'f option"

text \<open>The test both critical sections of \<^verbatim>\<open>CheckAndAdd\<close> make.\<close>

definition seen ::
  "('d \<Rightarrow> 'f \<Rightarrow> bool option) \<Rightarrow> 'd \<Rightarrow> 'f replay_filter \<Rightarrow> bool option" where
  "seen contains d rf =
     (case contains d (current rf) of
        None \<Rightarrow> None
      | Some True \<Rightarrow> Some True
      | Some False \<Rightarrow> (case previous rf of None \<Rightarrow> Some False | Some p \<Rightarrow> contains d p))"

text \<open>The second critical section, under the write lock: test again, then add.\<close>

definition commit ::
  "('d \<Rightarrow> 'f \<Rightarrow> bool option) \<Rightarrow> ('d \<Rightarrow> 'f \<Rightarrow> 'f option) \<Rightarrow> 'd \<Rightarrow> 'f replay_filter \<Rightarrow>
   (bool \<times> 'f replay_filter) option" where
  "commit contains add d rf =
     (case seen contains d rf of
        None \<Rightarrow> None
      | Some True \<Rightarrow> Some (True, rf)
      | Some False \<Rightarrow> map_option (\<lambda>f. (False, rf\<lparr>current := f\<rparr>)) (add d (current rf)))"

text \<open>A whole call that runs alone.\<close>

definition check_and_add ::
  "('d \<Rightarrow> 'f \<Rightarrow> bool option) \<Rightarrow> ('d \<Rightarrow> 'f \<Rightarrow> 'f option) \<Rightarrow> 'd \<Rightarrow> 'f replay_filter \<Rightarrow>
   (bool \<times> 'f replay_filter) option" where
  "check_and_add contains add d rf =
     (case seen contains d rf of
        None \<Rightarrow> None
      | Some True \<Rightarrow> Some (True, rf)
      | Some False \<Rightarrow> commit contains add d rf)"

definition rotate_filter :: "'f \<Rightarrow> 'f replay_filter \<Rightarrow> 'f replay_filter" where
  "rotate_filter blank rf = rf\<lparr>previous := Some (current rf), current := blank\<rparr>"

definition NewReplayFilter :: "'f \<Rightarrow> 'f replay_filter" where
  "NewReplayFilter blank = \<lparr>current = blank, previous = None\<rparr>"

definition CheckAndAdd :: "bytes \<Rightarrow> bloom replay_filter \<Rightarrow> (bool \<times> bloom replay_filter) option" where
  "CheckAndAdd = check_and_add Contains Add"

subsection \<open>Interleaved calls\<close>

text \<open>
  A goroutine in a call of \<^verbatim>\<open>CheckAndAdd\<close> is between its two critical sections (\<open>Between d\<close>)
  or outside (\<open>Outside\<close>); each critical section and each rotation is one step, since the
  mutex separates them. The log, newest first, records what the calls returned: \<open>Accepted d\<close>
  for false (new), \<open>Refused d\<close> for true (seen).
\<close>

datatype 'd caller = Outside | Between 'd

datatype 'd replay_event = Accepted 'd | Refused 'd | Rotated

record ('d, 'f) replay_state =
  rs_filter :: "'f replay_filter"
  rs_caller :: "nat \<Rightarrow> 'd caller"
  rs_log :: "'d replay_event list"

inductive replay_step ::
  "('d \<Rightarrow> 'f \<Rightarrow> bool option) \<Rightarrow> ('d \<Rightarrow> 'f \<Rightarrow> 'f option) \<Rightarrow> 'f \<Rightarrow>
   ('d, 'f) replay_state \<Rightarrow> ('d, 'f) replay_state \<Rightarrow> bool"
  for contains add blank
where
  early: "rs_caller s t = Outside \<Longrightarrow> seen contains d (rs_filter s) = Some True \<Longrightarrow>
     replay_step contains add blank s (s\<lparr>rs_log := Refused d # rs_log s\<rparr>)"
| pass: "rs_caller s t = Outside \<Longrightarrow> seen contains d (rs_filter s) = Some False \<Longrightarrow>
     replay_step contains add blank s (s\<lparr>rs_caller := (rs_caller s)(t := Between d)\<rparr>)"
| late: "rs_caller s t = Between d \<Longrightarrow> commit contains add d (rs_filter s) = Some (b, f) \<Longrightarrow>
     replay_step contains add blank s
       (s\<lparr>rs_filter := f, rs_caller := (rs_caller s)(t := Outside),
          rs_log := (if b then Refused d else Accepted d) # rs_log s\<rparr>)"
| turn: "replay_step contains add blank s
     (s\<lparr>rs_filter := rotate_filter blank (rs_filter s), rs_log := Rotated # rs_log s\<rparr>)"

definition replay_init :: "'f \<Rightarrow> ('d, 'f) replay_state" where
  "replay_init blank =
     \<lparr>rs_filter = NewReplayFilter blank, rs_caller = (\<lambda>_. Outside), rs_log = []\<rparr>"

inductive_cases replay_stepE: "replay_step contains add blank s s'"

abbreviation replay_reachable ::
  "('d \<Rightarrow> 'f \<Rightarrow> bool option) \<Rightarrow> ('d \<Rightarrow> 'f \<Rightarrow> 'f option) \<Rightarrow> 'f \<Rightarrow> ('d, 'f) replay_state \<Rightarrow> bool" where
  "replay_reachable contains add blank s \<equiv> (replay_step contains add blank)\<^sup>*\<^sup>* (replay_init blank) s"

text \<open>The events since the last rotation, and between the last two.\<close>

definition this_turn :: "'d replay_event list \<Rightarrow> 'd replay_event list" where
  "this_turn l = takeWhile (\<lambda>e. e \<noteq> Rotated) l"

definition last_turn :: "'d replay_event list \<Rightarrow> 'd replay_event list" where
  "last_turn l = takeWhile (\<lambda>e. e \<noteq> Rotated) (tl (dropWhile (\<lambda>e. e \<noteq> Rotated) l))"

lemma turn_Cons [simp]:
  "e \<noteq> Rotated \<Longrightarrow> this_turn (e # l) = e # this_turn l"
  "e \<noteq> Rotated \<Longrightarrow> last_turn (e # l) = last_turn l"
  "this_turn (Rotated # l) = []" "last_turn (Rotated # l) = this_turn l"
  by (simp_all add: this_turn_def last_turn_def)

lemma this_turn_append [simp]: "Rotated \<notin> set u \<Longrightarrow> this_turn (u @ v) = u @ this_turn v"
  by (induction u) (auto simp: this_turn_def)

lemma last_turn_append [simp]: "Rotated \<notin> set u \<Longrightarrow> last_turn (u @ Rotated # v) = this_turn v"
  by (induction u) (auto simp: this_turn_def last_turn_def)

lemma not_recent:
  assumes "x \<notin> set (this_turn (ys @ x # zs))" "x \<notin> set (last_turn (ys @ x # zs))" "x \<noteq> Rotated"
  shows "2 \<le> count_list ys Rotated"
proof -
  obtain u v where y: "ys = u @ Rotated # v" "Rotated \<notin> set u"
  proof (cases "Rotated \<in> set ys")
    case True
    then show thesis using that split_list_first [of Rotated ys] by blast
  next
    case False
    then show thesis using assms(1,3) by simp
  qed
  then have "x \<notin> set (this_turn (v @ x # zs))" using assms(2) by simp
  then have "Rotated \<in> set v" using assms(3) this_turn_append [of v "x # zs"] by fastforce
  then have "1 \<le> count_list v Rotated"
    using count_list_0_iff [of v Rotated] by linarith
  then show ?thesis using y by simp
qed

context seen_filter
begin

definition filter_ok :: "'f replay_filter \<Rightarrow> bool" where
  "filter_ok rf \<longleftrightarrow> ok (current rf) \<and> (\<forall>p. previous rf = Some p \<longrightarrow> ok p)"

definition log_inv :: "('d, 'f) replay_state \<Rightarrow> bool" where
  "log_inv s \<longleftrightarrow> filter_ok (rs_filter s) \<and>
     (\<forall>d. Accepted d \<in> set (this_turn (rs_log s)) \<longrightarrow>
        contains d (current (rs_filter s)) = Some True) \<and>
     (\<forall>d. Accepted d \<in> set (last_turn (rs_log s)) \<longrightarrow>
        (\<exists>p. previous (rs_filter s) = Some p \<and> contains d p = Some True))"

lemma seen_total: "filter_ok rf \<Longrightarrow> seen contains d rf \<noteq> None"
  using contains_total
  by (auto simp: seen_def filter_ok_def split: option.splits bool.splits)

lemma seen_false:
  "seen contains d rf = Some False \<Longrightarrow>
   contains d (current rf) = Some False \<and> (\<forall>p. previous rf = Some p \<longrightarrow> contains d p = Some False)"
  by (auto simp: seen_def split: option.splits bool.splits)

lemma commit_spec:
  assumes "filter_ok rf"
  shows "\<exists>b rf'. commit contains add d rf = Some (b, rf') \<and> filter_ok rf' \<and>
    previous rf' = previous rf \<and>
    (\<forall>e. contains e (current rf) = Some True \<longrightarrow> contains e (current rf') = Some True) \<and>
    (b \<longrightarrow> rf' = rf \<and> seen contains d rf = Some True) \<and>
    (\<not> b \<longrightarrow> seen contains d rf = Some False \<and> contains d (current rf') = Some True)"
proof (cases "seen contains d rf")
  case (Some b)
  show ?thesis
  proof (cases b)
    case False
    obtain f' where "add d (current rf) = Some f'" "ok f'" "contains d f' = Some True"
      "\<forall>e. contains e (current rf) = Some True \<longrightarrow> contains e f' = Some True"
      using add_spec [of "current rf" d] assms by (auto simp: filter_ok_def)
    then show ?thesis using Some False assms by (auto simp: commit_def filter_ok_def)
  next
    case True
    then have "commit contains add d rf = Some (True, rf)" using Some by (simp add: commit_def)
    then show ?thesis
      using Some True assms by (intro exI [of _ True] exI [of _ rf]) simp
  qed
qed (use assms seen_total in blast)

lemma commit_ok: "filter_ok rf \<Longrightarrow> commit contains add d rf = Some (b, rf') \<Longrightarrow> filter_ok rf'"
  using commit_spec [of rf d] by auto

lemma log_inv_step:
  assumes "log_inv s" "replay_step contains add blank s s'" "ok blank"
  shows "log_inv s'"
  using assms(2)
proof cases
  case (late t d b f)
  have ok: "filter_ok (rs_filter s)" using assms(1) by (simp add: log_inv_def)
  from late(3) commit_spec [OF ok, of d]
  have f: "filter_ok f" "previous f = previous (rs_filter s)"
    "\<And>e. contains e (current (rs_filter s)) = Some True \<Longrightarrow> contains e (current f) = Some True"
    "\<not> b \<Longrightarrow> contains d (current f) = Some True" by auto
  show ?thesis using assms(1) late(1) f by (auto simp: log_inv_def)
qed (use assms(1,3) in \<open>auto simp: log_inv_def rotate_filter_def filter_ok_def\<close>)

lemma log_inv_reachable:
  assumes "replay_reachable contains add blank s" "ok blank"
  shows "log_inv s"
  using assms(1)
proof (induction rule: rtranclp_induct)
  case base
  then show ?case
    using assms(2)
    by (simp add: replay_init_def log_inv_def NewReplayFilter_def filter_ok_def this_turn_def last_turn_def)
qed (use log_inv_step assms(2) in blast)

text \<open>An accepted datum was accepted neither this turn nor last turn.\<close>

lemma accepted_once:
  assumes "replay_reachable contains add blank s" "ok blank"
    and "rs_log s = xs @ Accepted d # ys @ Accepted d # zs"
  shows "2 \<le> count_list ys Rotated"
  using assms
proof (induction arbitrary: xs rule: rtranclp_induct)
  case base
  then show ?case by (simp add: replay_init_def)
next
  case (step s s')
  have inv: "log_inv s" using log_inv_reachable step.hyps(1) step.prems(1) by blast
  have old: "2 \<le> count_list ys Rotated" if "rs_log s = xs' @ Accepted d # ys @ Accepted d # zs" for xs'
    using step.IH [OF step.prems(1) that] .
  from step.hyps(2) show ?case
  proof cases
    case (late t e b f)
    have ok: "filter_ok (rs_filter s)" using inv by (simp add: log_inv_def)
    show ?thesis
    proof (cases xs)
      case Nil
      with step.prems(2) late(1) have b: "\<not> b" "e = d" and l: "rs_log s = ys @ Accepted d # zs"
        by (auto split: if_splits)
      have sf: "seen contains d (rs_filter s) = Some False"
        using commit_spec [OF ok, of e] late(3) b by auto
      have "Accepted d \<notin> set (this_turn (rs_log s))" "Accepted d \<notin> set (last_turn (rs_log s))"
        using inv seen_false [OF sf] by (auto simp: log_inv_def)
      then show ?thesis using not_recent [of "Accepted d" ys zs] l by simp
    next
      case (Cons x xs')
      then show ?thesis using old [of xs'] step.prems(2) late(1) by simp
    qed
  next
    case (early t e)
    then show ?thesis using old [of "tl xs"] step.prems(2) by (cases xs) auto
  next
    case (pass t e)
    then show ?thesis using old [of xs] step.prems(2) by simp
  next
    case turn
    then show ?thesis using old [of "tl xs"] step.prems(2) by (cases xs) auto
  qed
qed

text \<open>A call that runs alone: it does not panic, and what it answers new is answered seen next time.\<close>

lemma check_and_add_spec:
  assumes "filter_ok rf"
  shows "\<exists>b rf'. check_and_add contains add d rf = Some (b, rf') \<and> filter_ok rf' \<and>
    previous rf' = previous rf \<and> seen contains d rf' = Some True \<and>
    (\<forall>e. seen contains e rf = Some True \<longrightarrow> seen contains e rf' = Some True) \<and>
    seen contains d rf = Some b"
proof -
  obtain b rf' where c: "commit contains add d rf = Some (b, rf')" "filter_ok rf'"
    "previous rf' = previous rf"
    "\<And>e. contains e (current rf) = Some True \<Longrightarrow> contains e (current rf') = Some True"
    "b \<Longrightarrow> rf' = rf \<and> seen contains d rf = Some True"
    "\<not> b \<Longrightarrow> seen contains d rf = Some False \<and> contains d (current rf') = Some True"
    using commit_spec [OF assms, of d] by blast
  have ca: "check_and_add contains add d rf = Some (b, rf')"
    using c(1,5,6) by (cases b) (simp_all add: check_and_add_def commit_def)
  have mono: "seen contains e rf' = Some True" if e: "seen contains e rf = Some True" for e
  proof -
    have "contains e (current rf') \<noteq> None" using c(2) contains_total by (simp add: filter_ok_def)
    then show ?thesis
      using e c(3) c(4) [of e] by (auto simp: seen_def split: option.splits bool.splits)
  qed
  have "seen contains d rf' = Some True"
    using c(5,6) by (cases b) (auto simp: seen_def)
  then show ?thesis using ca c(2,3,5,6) mono by (cases b) auto
qed

end

section \<open>The replay-protected packet connection\<close>

text \<open>
  \<^verbatim>\<open>ReplayProtectedPacketConn.ReadFrom\<close>: datagrams arrive with their source, each cut to the
  caller's buffer of \<open>n\<close> bytes; seen ones are skipped. The first component of the result is
  \<open>None\<close> when the connection fails (here: when nothing more arrives); the outer \<open>None\<close> is a
  panic.
\<close>

fun ReadFrom ::
  "nat \<Rightarrow> bloom replay_filter \<Rightarrow> (bytes \<times> 'a) list \<Rightarrow>
   ((bytes \<times> 'a) option \<times> bloom replay_filter \<times> (bytes \<times> 'a) list) option"
where
  "ReadFrom n rf [] = Some (None, rf, [])"
| "ReadFrom n rf ((d, a) # ps) =
     (case CheckAndAdd (take n d) rf of
        None \<Rightarrow> None
      | Some (True, rf') \<Rightarrow> ReadFrom n rf' ps
      | Some (False, rf') \<Rightarrow> Some (Some (take n d, a), rf', ps))"

text \<open>What a caller receives that reads \<open>k\<close> times, or until the connection fails.\<close>

fun deliveries ::
  "nat \<Rightarrow> nat \<Rightarrow> bloom replay_filter \<Rightarrow> (bytes \<times> 'a) list \<Rightarrow> (bytes \<times> 'a) list option"
where
  "deliveries 0 n rf ps = Some []"
| "deliveries (Suc k) n rf ps =
     (case ReadFrom n rf ps of
        None \<Rightarrow> None
      | Some (None, _, _) \<Rightarrow> Some []
      | Some (Some x, rf', ps') \<Rightarrow> map_option (Cons x) (deliveries k n rf' ps'))"

lemma ReadFrom_spec:
  assumes "bloom_filter.filter_ok rf"
  obtains x rf' ps' where "ReadFrom n rf ps = Some (x, rf', ps')" "bloom_filter.filter_ok rf'"
    "\<And>e. seen Contains e rf = Some True \<Longrightarrow> seen Contains e rf' = Some True"
    "\<And>d a. x = Some (d, a) \<Longrightarrow> seen Contains d rf = Some False \<and> seen Contains d rf' = Some True \<and>
       (\<exists>full. (full, a) \<in> set ps \<and> d = take n full)"
    "set ps' \<subseteq> set ps"
proof -
  have "\<exists>x rf' ps'. ReadFrom n rf ps = Some (x, rf', ps') \<and> bloom_filter.filter_ok rf' \<and>
    (\<forall>e. seen Contains e rf = Some True \<longrightarrow> seen Contains e rf' = Some True) \<and>
    (\<forall>d a. x = Some (d, a) \<longrightarrow> seen Contains d rf = Some False \<and> seen Contains d rf' = Some True \<and>
       (\<exists>full. (full, a) \<in> set ps \<and> d = take n full)) \<and> set ps' \<subseteq> set ps"
    using assms
  proof (induction n rf ps rule: ReadFrom.induct)
    case (1 n rf)
    then show ?case by simp
  next
    case (2 n rf d a ps)
    obtain b rf1 where c: "CheckAndAdd (take n d) rf = Some (b, rf1)" "bloom_filter.filter_ok rf1"
      "seen Contains (take n d) rf1 = Some True" "seen Contains (take n d) rf = Some b"
      "\<And>e. seen Contains e rf = Some True \<Longrightarrow> seen Contains e rf1 = Some True"
      using bloom_filter.check_and_add_spec [OF 2(2), of "take n d"] by (auto simp: CheckAndAdd_def)
    show ?case
    proof (cases b)
      case True
      obtain x rf2 ps2 where r: "ReadFrom n rf1 ps = Some (x, rf2, ps2)" "bloom_filter.filter_ok rf2"
        "\<And>e. seen Contains e rf1 = Some True \<Longrightarrow> seen Contains e rf2 = Some True"
        "\<And>d a. x = Some (d, a) \<Longrightarrow> seen Contains d rf1 = Some False \<and> seen Contains d rf2 = Some True \<and>
           (\<exists>full. (full, a) \<in> set ps \<and> d = take n full)" "set ps2 \<subseteq> set ps"
        using 2(1) [OF c(1) refl _ c(2)] True by blast
      have "seen Contains e rf = Some False" if "seen Contains e rf1 = Some False" for e
        using bloom_filter.seen_total [OF 2(2), of e] c(5) [of e] that by auto
      then show ?thesis using r c True by (auto intro!: exI [of _ x])
    next
      case False
      then show ?thesis using c by (auto simp: exI)
    qed
  qed
  then show thesis using that by blast
qed

lemma deliveries_spec:
  assumes "bloom_filter.filter_ok rf"
  shows "\<exists>out. deliveries k n rf ps = Some out \<and> distinct (map fst out) \<and>
    (\<forall>(d, a) \<in> set out. seen Contains d rf = Some False \<and> (\<exists>full. (full, a) \<in> set ps \<and> d = take n full))"
  using assms
proof (induction k arbitrary: rf ps)
  case (Suc k)
  obtain x rf' ps' where r: "ReadFrom n rf ps = Some (x, rf', ps')" "bloom_filter.filter_ok rf'"
    "\<And>e. seen Contains e rf = Some True \<Longrightarrow> seen Contains e rf' = Some True"
    "\<And>d a. x = Some (d, a) \<Longrightarrow> seen Contains d rf = Some False \<and> seen Contains d rf' = Some True \<and>
       (\<exists>full. (full, a) \<in> set ps \<and> d = take n full)" "set ps' \<subseteq> set ps"
    using ReadFrom_spec [OF Suc.prems] by metis
  show ?case
  proof (cases x)
    case None
    then show ?thesis using r(1) by simp
  next
    case (Some da)
    obtain d a where da: "da = (d, a)" by (cases da)
    obtain out where out: "deliveries k n rf' ps' = Some out" "distinct (map fst out)"
      "\<forall>(d, a) \<in> set out. seen Contains d rf' = Some False \<and> (\<exists>full. (full, a) \<in> set ps' \<and> d = take n full)"
      using Suc.IH [OF r(2)] by blast
    have "seen Contains e rf = Some False" if "seen Contains e rf' = Some False" for e
      using bloom_filter.seen_total [OF Suc.prems, of e] r(3) [of e] that by auto
    then show ?thesis using r(1,5) r(4) [of d a] Some da out by fastforce
  qed
qed simp

section \<open>Properties\<close>

text \<open>C20. No replay is accepted twice within a rotation period, under any interleaving.
  Goroutines call \<open>CheckAndAdd\<close> concurrently and the rotation fires at any moment; between two
  calls that both accept the same datum there are at least two rotations. The second test
  under the write lock is what makes this true.\<close>

theorem replay_accepted_once:
  assumes "replay_reachable Contains Add (NewBloomFilter m k) s"
    and "m \<noteq> 0" "unat m \<le> 2 ^ 63"
    and "rs_log s = xs @ Accepted d # ys @ Accepted d # zs"
  shows "2 \<le> count_list ys Rotated"
  using bloom_filter.accepted_once [OF assms(1) NewBloomFilter_ok [OF assms(2,3)] assms(4)] .

theorem replay_accepted_once_witness:
  "\<exists>s :: (bytes, bloom) replay_state. replay_reachable Contains Add (NewBloomFilter 64 2) s \<and>
     rs_log s = [Accepted [1], Rotated, Rotated, Accepted [1]] \<and> 2 \<le> count_list [Rotated, Rotated] (Rotated :: bytes replay_event)"
proof -
  let ?e = "NewBloomFilter 64 2"
  let ?step = "replay_step Contains Add ?e"
  have fresh: "seen Contains [1] \<lparr>current = ?e, previous = p\<rparr> = Some False"
    if "p = None \<or> p = Some ?e" for p
  proof -
    have "Contains [1] ?e = Some False" by code_simp
    then show ?thesis using that by (auto simp: seen_def)
  qed
  obtain f where add: "Add [1] ?e = Some f"
    using bloom_filter.add_spec [of ?e "[1]"] NewBloomFilter_ok [of 64 2] by auto
  define s0 :: "(bytes, bloom) replay_state" where "s0 = replay_init ?e"
  define s1 where "s1 = s0\<lparr>rs_caller := (rs_caller s0)(0 := Between [1])\<rparr>"
  define s2 where "s2 = s1\<lparr>rs_filter := \<lparr>current = f, previous = None\<rparr>,
    rs_caller := (rs_caller s1)(0 := Outside), rs_log := Accepted [1] # rs_log s1\<rparr>"
  define s3 where "s3 = s2\<lparr>rs_filter := rotate_filter ?e (rs_filter s2), rs_log := Rotated # rs_log s2\<rparr>"
  define s4 where "s4 = s3\<lparr>rs_filter := rotate_filter ?e (rs_filter s3), rs_log := Rotated # rs_log s3\<rparr>"
  define s5 where "s5 = s4\<lparr>rs_caller := (rs_caller s4)(0 := Between [1])\<rparr>"
  define s6 where "s6 = s5\<lparr>rs_filter := \<lparr>current = f, previous = Some ?e\<rparr>,
    rs_caller := (rs_caller s5)(0 := Outside), rs_log := Accepted [1] # rs_log s5\<rparr>"
  note defs = s0_def s1_def s2_def s3_def s4_def s5_def s6_def replay_init_def NewReplayFilter_def
    rotate_filter_def
  have 1: "?step s0 s1" unfolding s1_def by (rule pass) (simp_all add: defs fresh)
  have 2: "?step s1 s2"
    using late [of s1 0 "[1]" Contains Add False "\<lparr>current = f, previous = None\<rparr>" ?e] fresh [of None] add
    by (simp add: defs commit_def)
  have 3: "?step s2 s3" unfolding s3_def by (rule turn)
  have 4: "?step s3 s4" unfolding s4_def by (rule turn)
  have 5: "?step s4 s5" unfolding s5_def by (rule pass) (simp_all add: defs fresh)
  have 6: "?step s5 s6"
    using late [of s5 0 "[1]" Contains Add False "\<lparr>current = f, previous = Some ?e\<rparr>" ?e]
      fresh [of "Some ?e"] add by (simp add: defs commit_def)
  have reach: "replay_reachable Contains Add ?e s6"
    using 1 2 3 4 5 6 unfolding s0_def by (meson converse_rtranclp_into_rtranclp rtranclp.rtrancl_refl)
  have log: "rs_log s6 = [] @ Accepted [1] # [Rotated, Rotated] @ Accepted [1] # []"
    by (simp add: defs)
  have "2 \<le> count_list [Rotated, Rotated] (Rotated :: bytes replay_event)"
    by (rule replay_accepted_once [OF reach _ _ log]) simp_all
  then show ?thesis using reach log by auto
qed

text \<open>\<open>CheckAndAdd\<close> on well-formed filters never panics, and what it has been asked about is
  refused from then on, by a second call and also by a call after one rotation.\<close>

theorem check_and_add_remembers:
  assumes "bloom_ok (current rf)" and "\<forall>p. previous rf = Some p \<longrightarrow> bloom_ok p" and "bloom_ok e"
  shows "\<exists>b rf'. CheckAndAdd d rf = Some (b, rf') \<and> (\<exists>r. CheckAndAdd d rf' = Some (True, r)) \<and>
    (b \<or> (\<exists>r. CheckAndAdd d (rotate_filter e rf') = Some (True, r)))"
proof -
  have ok: "bloom_filter.filter_ok rf" using assms(1,2) by (simp add: bloom_filter.filter_ok_def)
  obtain b rf' where c: "CheckAndAdd d rf = Some (b, rf')" "bloom_filter.filter_ok rf'"
    "seen Contains d rf' = Some True" "seen Contains d rf = Some b"
    using bloom_filter.check_and_add_spec [OF ok, of d] by (auto simp: CheckAndAdd_def)
  have again: "\<exists>r. CheckAndAdd d x = Some (True, r)" if "seen Contains d x = Some True" for x
    using that by (simp add: CheckAndAdd_def check_and_add_def)
  have "seen Contains d (rotate_filter e rf') = Some True" if "\<not> b"
  proof -
    have "commit Contains Add d rf = Some (b, rf')"
      using c(1,4) that by (simp add: CheckAndAdd_def check_and_add_def)
    then have "Contains d (current rf') = Some True"
      using bloom_filter.commit_spec [OF ok, of d] that by auto
    moreover have "Contains d e \<noteq> None" using assms(3) Contains_spec by simp
    ultimately show ?thesis by (auto simp: rotate_filter_def seen_def split: option.splits bool.splits)
  qed
  then show ?thesis using c again by blast
qed

theorem check_and_add_remembers_witness:
  "\<exists>b rf'. CheckAndAdd [1] (NewReplayFilter (NewBloomFilter 64 2)) = Some (b, rf') \<and>
    (\<exists>r. CheckAndAdd [1] rf' = Some (True, r)) \<and>
    (b \<or> (\<exists>r. CheckAndAdd [1] (rotate_filter (NewBloomFilter 64 2) rf') = Some (True, r)))"
  by (rule check_and_add_remembers) (simp_all add: NewReplayFilter_def NewBloomFilter_ok)

text \<open>A replay-protected packet connection delivers no datagram twice (between rotations, and
  whatever was sent how often): its successive reads return pairwise different contents, each of
  them a datagram that arrived, cut to the buffer, and none the filter had already seen.\<close>

theorem read_from_no_duplicates:
  assumes "bloom_ok (current rf)" and "\<forall>p. previous rf = Some p \<longrightarrow> bloom_ok p"
  shows "\<exists>out. deliveries k n rf ps = Some out \<and> distinct (map fst out) \<and>
    (\<forall>(d, a) \<in> set out. seen Contains d rf = Some False \<and> (\<exists>full. (full, a) \<in> set ps \<and> d = take n full))"
  by (rule deliveries_spec) (use assms in \<open>simp add: bloom_filter.filter_ok_def\<close>)

theorem read_from_no_duplicates_witness:
  "\<exists>out. deliveries 3 4 (NewReplayFilter (NewBloomFilter 64 2)) [([1, 2], ''a''), ([1, 2], ''b'')] = Some out \<and>
    distinct (map fst out)"
  using read_from_no_duplicates [of "NewReplayFilter (NewBloomFilter 64 2)" 3 4
      "[([1, 2], ''a''), ([1, 2], ''b'')]"]
  by (auto simp: NewReplayFilter_def NewBloomFilter_ok)

end
