(* ===== verification/Conns.thy ===== *)
theory Conns
  imports GoIO
begin

text \<open>
  The connections that put bytes back in front of another connection: \<^verbatim>\<open>PeekingConn\<close> of
  \<^verbatim>\<open>core/transport/peeking_conn.go\<close>, through which the server looks at the first bytes of
  a client, and \<^verbatim>\<open>prefixConn\<close> of \<^verbatim>\<open>core/transport/camouflage.go\<close>, which returns what was
  read past the credentials. Both are wrappers of an arbitrary reader and are readers again.
\<close>

section \<open>PeekingConn\<close>

record 's peeking_conn =
  pk_conn :: 's
  peekBuf :: bytes
  readIdx :: nat

definition NewPeekingConn ::
  "(nat \<Rightarrow> 's \<Rightarrow> io_read \<times> 's) \<Rightarrow> 's \<Rightarrow> nat \<Rightarrow> (io_error, 's peeking_conn) outcome" where
  "NewPeekingConn rd conn peekSize =
     (case rd peekSize conn of
        (Fail e, _) \<Rightarrow> Err e
      | (Got d, s) \<Rightarrow> Ok \<lparr>pk_conn = s, peekBuf = d, readIdx = 0\<rparr>)"

definition Peek :: "'s peeking_conn \<Rightarrow> bytes" where
  "Peek c = peekBuf c"

definition PeekingRead ::
  "(nat \<Rightarrow> 's \<Rightarrow> io_read \<times> 's) \<Rightarrow> nat \<Rightarrow> 's peeking_conn \<Rightarrow> io_read \<times> 's peeking_conn" where
  "PeekingRead rd p c =
     (if readIdx c < length (peekBuf c) then
        let d = take p (drop (readIdx c) (peekBuf c))
        in (Got d, c\<lparr>readIdx := readIdx c + length d\<rparr>)
      else case rd p (pk_conn c) of (r, s) \<Rightarrow> (r, c\<lparr>pk_conn := s\<rparr>))"

definition unpeeked :: "'s peeking_conn \<Rightarrow> bytes" where
  "unpeeked c = drop (readIdx c) (peekBuf c)"

section \<open>prefixConn\<close>

record 's prefix_conn =
  px_conn :: 's
  px_prefix :: bytes
  px_read :: bool

definition PrefixRead ::
  "(nat \<Rightarrow> 's \<Rightarrow> io_read \<times> 's) \<Rightarrow> nat \<Rightarrow> 's prefix_conn \<Rightarrow> io_read \<times> 's prefix_conn" where
  "PrefixRead rd b c =
     (if \<not> px_read c \<and> 0 < length (px_prefix c) then
        let d = take b (px_prefix c) in
        if length (px_prefix c) \<le> length d
        then (Got d, c\<lparr>px_read := True, px_prefix := []\<rparr>)
        else (Got d, c\<lparr>px_prefix := drop (length d) (px_prefix c)\<rparr>)
      else case rd b (px_conn c) of (r, s) \<Rightarrow> (r, c\<lparr>px_conn := s\<rparr>))"

definition unprefixed :: "'s prefix_conn \<Rightarrow> bytes" where
  "unprefixed c = (if px_read c then [] else px_prefix c)"

section \<open>Both are readers\<close>

locale wrappable = byte_reader rd valid pending fate weight
  for rd :: "nat \<Rightarrow> 's \<Rightarrow> io_read \<times> 's" and valid pending fate weight

sublocale wrappable \<subseteq> peeking: byte_reader "PeekingRead rd" "\<lambda>c. valid (pk_conn c)"
  "\<lambda>c. unpeeked c @ pending (pk_conn c)" "\<lambda>c. fate (pk_conn c)"
  "\<lambda>c. length (unpeeked c) + weight (pk_conn c)"
proof unfold_locales
  fix c c' :: "'s peeking_conn" and n d
  assume v: "valid (pk_conn c)" and r: "PeekingRead rd n c = (Got d, c')"
  show "unpeeked c @ pending (pk_conn c) = d @ unpeeked c' @ pending (pk_conn c')"
    using r got_pending [OF v, of n d] append_take_drop_id [of n "unpeeked c"]
    by (auto simp: PeekingRead_def unpeeked_def Let_def drop_drop add.commute split: if_splits prod.splits)
       (metis append_take_drop_id append_assoc drop_drop add.commute min_def nat_le_linear take_all drop_all length_drop append_Nil2)+
  show "length d \<le> n" "fate (pk_conn c') = fate (pk_conn c)"
    using r got_length [OF v, of n d] got_fate [OF v, of n d]
    by (auto simp: PeekingRead_def Let_def split: if_splits prod.splits)
next
  fix c c' :: "'s peeking_conn" and n d
  assume v: "valid (pk_conn c)" and n: "0 < n" and r: "PeekingRead rd n c = (Got d, c')"
  show "length (unpeeked c') + weight (pk_conn c') < length (unpeeked c) + weight (pk_conn c)"
    using r n got_progress [OF v n, of d]
    by (auto simp: PeekingRead_def unpeeked_def Let_def split: if_splits prod.splits)
next
  fix c c' :: "'s peeking_conn" and n e
  assume v: "valid (pk_conn c)" and n: "0 < n" and r: "PeekingRead rd n c = (Fail e, c')"
  show "unpeeked c @ pending (pk_conn c) = [] \<and> unpeeked c' @ pending (pk_conn c') = [] \<and>
      e = fate (pk_conn c) \<and> fate (pk_conn c') = fate (pk_conn c)"
    using r fail_end [OF v n, of e]
    by (auto simp: PeekingRead_def unpeeked_def Let_def split: if_splits prod.splits)
next
  fix c c' :: "'s peeking_conn" and n r
  assume "valid (pk_conn c)" "PeekingRead rd n c = (r, c')"
  then show "valid (pk_conn c')"
    using valid_step by (auto simp: PeekingRead_def Let_def split: if_splits prod.splits)
qed

sublocale wrappable \<subseteq> prefixed: byte_reader "PrefixRead rd" "\<lambda>c. valid (px_conn c)"
  "\<lambda>c. unprefixed c @ pending (px_conn c)" "\<lambda>c. fate (px_conn c)"
  "\<lambda>c. length (unprefixed c) + weight (px_conn c)"
proof unfold_locales
  fix c c' :: "'s prefix_conn" and n d
  assume v: "valid (px_conn c)" and r: "PrefixRead rd n c = (Got d, c')"
  show "unprefixed c @ pending (px_conn c) = d @ unprefixed c' @ pending (px_conn c')"
    using r got_pending [OF v, of n d]
    by (auto simp: PrefixRead_def unprefixed_def Let_def min_def split: if_splits prod.splits)
  show "length d \<le> n" "fate (px_conn c') = fate (px_conn c)"
    using r got_length [OF v, of n d] got_fate [OF v, of n d]
    by (auto simp: PrefixRead_def Let_def split: if_splits prod.splits)
next
  fix c c' :: "'s prefix_conn" and n d
  assume v: "valid (px_conn c)" and n: "0 < n" and r: "PrefixRead rd n c = (Got d, c')"
  show "length (unprefixed c') + weight (px_conn c') < length (unprefixed c) + weight (px_conn c)"
    using r n got_progress [OF v n, of d]
    by (auto simp: PrefixRead_def unprefixed_def Let_def split: if_splits prod.splits)
next
  fix c c' :: "'s prefix_conn" and n e
  assume v: "valid (px_conn c)" and n: "0 < n" and r: "PrefixRead rd n c = (Fail e, c')"
  show "unprefixed c @ pending (px_conn c) = [] \<and> unprefixed c' @ pending (px_conn c') = [] \<and>
      e = fate (px_conn c) \<and> fate (px_conn c') = fate (px_conn c)"
    using r fail_end [OF v n, of e]
    by (auto simp: PrefixRead_def unprefixed_def Let_def split: if_splits prod.splits)
next
  fix c c' :: "'s prefix_conn" and n r
  assume "valid (px_conn c)" "PrefixRead rd n c = (r, c')"
  then show "valid (px_conn c')"
    using valid_step by (auto simp: PrefixRead_def Let_def split: if_splits prod.splits)
qed

interpretation net_wrap: wrappable conn_read "\<lambda>_. True" "\<lambda>c. concat (arriving c)" ending
  "\<lambda>c. length (arriving c) + length (concat (arriving c))"
  by unfold_locales

section \<open>Properties\<close>

text \<open>Peeking is invisible. After looking at the first bytes of a connection, what \<open>Peek\<close> shows
  is a prefix of the client's stream, and reading through the \<open>PeekingConn\<close> yields, for every
  length asked and however the network cuts the bytes, exactly what reading the untouched
  connection would have yielded.\<close>

theorem peek_transparent:
  assumes "NewPeekingConn conn_read c peekSize = Ok pc"
  shows "(\<exists>r. concat (arriving c) = Peek pc @ r) \<and>
    (\<exists>pc'. read_full (PeekingRead conn_read) n pc =
       Some (fst (take_full n (ending c) (concat (arriving c))), pc'))"
proof -
  obtain d s where r: "conn_read peekSize c = (Got d, s)" and pc: "pc = \<lparr>pk_conn = s, peekBuf = d, readIdx = 0\<rparr>"
    using assms by (auto simp: NewPeekingConn_def split: prod.splits io_read.splits)
  have "concat (arriving c) = d @ concat (arriving s)" "ending s = ending c"
    using net_in.got_pending [OF _ r] net_in.got_fate [OF _ r] by simp_all
  then show ?thesis
    using net_wrap.peeking.read_full_take [of n pc] pc
    by (auto simp: Peek_def unpeeked_def)
qed

theorem peek_transparent_witness:
  "\<exists>pc'. read_full (PeekingRead conn_read) 4
     \<lparr>pk_conn = \<lparr>arriving = [[3], [4, 5]], ending = EOF\<rparr>, peekBuf = [1, 2], readIdx = 0\<rparr> =
     Some (Ok [1, 2, 3, 4], pc')"
proof -
  have "NewPeekingConn conn_read \<lparr>arriving = [[1, 2, 3], [4, 5]], ending = EOF\<rparr> 2 =
      Ok \<lparr>pk_conn = \<lparr>arriving = [[3], [4, 5]], ending = EOF\<rparr>, peekBuf = [1, 2], readIdx = 0\<rparr>"
    by (simp add: NewPeekingConn_def conn_read_def)
  from peek_transparent [OF this, of 4] show ?thesis by (simp add: take_full_def)
qed

text \<open>The bytes read past the credentials are not lost. A connection wrapped with what was left
  over of an earlier read delivers the leftover followed by the rest of the stream, for every
  length asked.\<close>

theorem prefix_conn_restores:
  "\<exists>c'. read_full (PrefixRead conn_read) n \<lparr>px_conn = c, px_prefix = left, px_read = False\<rparr> =
     Some (fst (take_full n (ending c) (left @ concat (arriving c))), c')"
  using net_wrap.prefixed.read_full_take [of n "\<lparr>px_conn = c, px_prefix = left, px_read = False\<rparr>"]
  by (auto simp: unprefixed_def)

end
