(* ===== verification/Auth.thy ===== *)
theory Auth
  imports GoHash GoNet Framing "HOL-Library.Signed_Division"
begin

text \<open>
  \<^verbatim>\<open>core/transport/auth.go\<close>: user records, the authentication manager with its per-address
  rate limiter, and the credentials the client sends (a keyed hash of the minute and a
  nonce). Times are nanoseconds since the epoch; each reading of the clock is an argument.
\<close>

section \<open>State\<close>

text \<open>\<open>None\<close> is Go's zero \<^verbatim>\<open>time.Time\<close>.\<close>

type_synonym time = int

record port_range =
  pr_from :: u16
  pr_to :: u16

record upstream_config =
  us_address :: string
  us_psk :: string
  us_sni :: string
  us_secret_path :: string
  us_fingerprint :: string

record user_record =
  u_id :: string
  u_psk :: string
  u_max_bandwidth :: int
  u_ports :: "port_range list"
  u_expires :: string
  u_upstream :: "upstream_config option"
  u_pskBytes :: bytes
  u_expiresAt :: "time option"

record rate_entry =
  re_count :: int
  re_resetAt :: time

record auth_manager =
  users :: "string \<rightharpoonup> user_record"
  pskMap :: "bytes \<rightharpoonup> user_record"
  authRates :: "string \<rightharpoonup> rate_entry"

record auth_session =
  as_user :: user_record
  as_remote :: string

datatype auth_error = RateLimited | AuthTooShort | InvalidCredentials

datatype net_addr = TCPAddr ip nat | UDPAddr ip nat | OtherAddr string

definition minute_ns :: int where
  "minute_ns = 60 * 1000000000"

section \<open>Users\<close>

text \<open>
  \<^verbatim>\<open>AddUser\<close>. \<open>parse_time\<close> stands for \<^verbatim>\<open>time.Parse(time.RFC3339, _)\<close>; an expiry that does not
  parse leaves the field as it was.
\<close>

definition prepare_user :: "(string \<Rightarrow> time option) \<Rightarrow> user_record \<Rightarrow> user_record" where
  "prepare_user parse_time u =
     (let u1 = u\<lparr>u_pskBytes := sha256 (str_bytes (u_psk u))\<rparr>
      in if u_expires u \<noteq> [] then
           (case parse_time (u_expires u) of None \<Rightarrow> u1 | Some t \<Rightarrow> u1\<lparr>u_expiresAt := Some t\<rparr>)
         else u1)"

definition AddUser :: "(string \<Rightarrow> time option) \<Rightarrow> user_record \<Rightarrow> auth_manager \<Rightarrow> auth_manager" where
  "AddUser parse_time u am =
     (let u' = prepare_user parse_time u
      in am\<lparr>users := (users am)(u_id u \<mapsto> u'), pskMap := (pskMap am)(u_pskBytes u' \<mapsto> u')\<rparr>)"

definition RemoveUser :: "string \<Rightarrow> auth_manager \<Rightarrow> auth_manager" where
  "RemoveUser uid am =
     (case users am uid of
        None \<Rightarrow> am
      | Some u \<Rightarrow> am\<lparr>pskMap := (pskMap am)(u_pskBytes u := None), users := (users am)(uid := None)\<rparr>)"

definition NewAuthManager :: "(string \<Rightarrow> time option) \<Rightarrow> user_record list \<Rightarrow> auth_manager" where
  "NewAuthManager parse_time us =
     foldl (\<lambda>am u. AddUser parse_time u am)
       \<lparr>users = Map.empty, pskMap = Map.empty, authRates = Map.empty\<rparr> us"

section \<open>The rate limiter\<close>

definition checkRateLimit :: "string \<Rightarrow> time \<Rightarrow> auth_manager \<Rightarrow> bool \<times> auth_manager" where
  "checkRateLimit remoteIP now am =
     (case authRates am remoteIP of
        None \<Rightarrow> (True, am\<lparr>authRates := (authRates am)(remoteIP \<mapsto>
                   \<lparr>re_count = 1, re_resetAt = now + minute_ns\<rparr>)\<rparr>)
      | Some e \<Rightarrow>
          if re_resetAt e < now then
            (True, am\<lparr>authRates := (authRates am)(remoteIP \<mapsto>
               \<lparr>re_count = 1, re_resetAt = now + minute_ns\<rparr>)\<rparr>)
          else
            (let e' = e\<lparr>re_count := re_count e + 1\<rparr>
             in (re_count e' \<le> 1000, am\<lparr>authRates := (authRates am)(remoteIP \<mapsto> e')\<rparr>)))"

definition cleanRateLimits :: "time \<Rightarrow> auth_manager \<Rightarrow> auth_manager" where
  "cleanRateLimits now am =
     am\<lparr>authRates := (\<lambda>ip. case authRates am ip of
         None \<Rightarrow> None
       | Some e \<Rightarrow> if re_resetAt e < now then None else Some e)\<rparr>"

section \<open>Credentials\<close>

definition remote_ip :: "net_addr \<Rightarrow> string" where
  "remote_ip a = (case a of TCPAddr i _ \<Rightarrow> ip_string i | UDPAddr i _ \<Rightarrow> ip_string i | OtherAddr s \<Rightarrow> s)"

definition unix_minute :: "time \<Rightarrow> int" where
  "unix_minute now = (now div 1000000000) sdiv 60"

definition auth_mac :: "bytes \<Rightarrow> int \<Rightarrow> bytes \<Rightarrow> bytes" where
  "auth_mac key minute nonce = hmac_sha256 key (be64 (word_of_int minute) @ nonce)"

definition expired :: "time \<Rightarrow> user_record \<Rightarrow> bool" where
  "expired now u = (case u_expiresAt u of None \<Rightarrow> False | Some t \<Rightarrow> t < now)"

definition mac_matches :: "time \<Rightarrow> bytes \<Rightarrow> user_record \<Rightarrow> bool" where
  "mac_matches now authData u =
     list_ex (\<lambda>minute. take 32 authData = auth_mac (u_pskBytes u) minute (take 24 (drop 32 authData)))
       [unix_minute now, unix_minute now - 1]"

text \<open>The loop over the users; \<open>order\<close> is the order in which Go happens to range over the map.\<close>

fun find_user :: "time \<Rightarrow> bytes \<Rightarrow> (string \<rightharpoonup> user_record) \<Rightarrow> string list \<Rightarrow> user_record option" where
  "find_user now authData us [] = None"
| "find_user now authData us (i # is) =
     (case us i of
        None \<Rightarrow> find_user now authData us is
      | Some u \<Rightarrow>
          if expired now u then find_user now authData us is
          else if mac_matches now authData u then Some u
          else find_user now authData us is)"

definition ValidateAuth ::
  "string list \<Rightarrow> time \<Rightarrow> time \<Rightarrow> bytes \<Rightarrow> net_addr \<Rightarrow> auth_manager \<Rightarrow>
   (auth_error, auth_session) outcome \<times> auth_manager" where
  "ValidateAuth order t_rate now authData remoteAddr am =
     (let remoteIP = remote_ip remoteAddr in
      case checkRateLimit remoteIP t_rate am of
        (False, am') \<Rightarrow> (Err RateLimited, am')
      | (True, am') \<Rightarrow>
          if length authData < 56 then (Err AuthTooShort, am')
          else (case find_user now authData (users am') order of
            Some u \<Rightarrow> (Ok \<lparr>as_user = u, as_remote = remoteIP\<rparr>, am')
          | None \<Rightarrow> (Err InvalidCredentials, am')))"

text \<open>
  The 24 bytes of \<^verbatim>\<open>rand.Read\<close> are an argument, \<open>None\<close> when the source fails.
\<close>

definition GenerateAuthPayload :: "string \<Rightarrow> time \<Rightarrow> bytes option \<Rightarrow> bytes option" where
  "GenerateAuthPayload psk now rnd =
     (case rnd of
        None \<Rightarrow> None
      | Some nonce \<Rightarrow> Some (auth_mac (sha256 (str_bytes psk)) (unix_minute now) nonce @ nonce))"

definition EncodeAuthFrame :: "string \<Rightarrow> time \<Rightarrow> bytes option \<Rightarrow> frame option" where
  "EncodeAuthFrame psk now rnd =
     map_option (\<lambda>p. \<lparr>frame_type = FrameAuth, frame_payload = p\<rparr>) (GenerateAuthPayload psk now rnd)"

definition EncodeAuthResponse :: "byte \<Rightarrow> bytes \<Rightarrow> frame" where
  "EncodeAuthResponse status config =
     \<lparr>frame_type = FrameAuthResp, frame_payload = status # config\<rparr>"

definition AuthStatusOK :: byte where "AuthStatusOK = 0x00"
definition AuthStatusDenied :: byte where "AuthStatusDenied = 0x01"
definition AuthStatusExpired :: byte where "AuthStatusExpired = 0x02"
definition AuthStatusRateLimited :: byte where "AuthStatusRateLimited = 0x03"

section \<open>Lemmas\<close>

lemma checkRateLimit_users [simp]: "users (snd (checkRateLimit ip now am)) = users am"
  by (auto simp: checkRateLimit_def Let_def split: option.splits)

lemma find_user_Some:
  "find_user now d us is = Some u \<Longrightarrow>
   \<exists>i \<in> set is. us i = Some u \<and> \<not> expired now u \<and> mac_matches now d u"
  by (induction "is") (auto split: option.splits if_splits)

lemma find_user_None:
  "find_user now d us is = None \<longleftrightarrow>
   (\<forall>i \<in> set is. \<forall>u. us i = Some u \<longrightarrow> expired now u \<or> \<not> mac_matches now d u)"
  by (induction "is") (auto split: option.splits)

lemma length_auth_mac [simp]: "length (auth_mac k m n) = 32"
  by (simp add: auth_mac_def)

lemma generated_matches:
  assumes "GenerateAuthPayload psk t0 (Some nonce) = Some d" "length nonce = 24"
    and "u_pskBytes u = sha256 (str_bytes psk)"
    and "unix_minute now - 1 \<le> unix_minute t0" "unix_minute t0 \<le> unix_minute now"
  shows "length d = 56" "mac_matches now (d @ r) u"
proof -
  from assms(4,5) have "unix_minute t0 = unix_minute now \<or> unix_minute t0 = unix_minute now - 1"
    by linarith
  then show "mac_matches now (d @ r) u"
    using assms(1-3) by (auto simp: GenerateAuthPayload_def mac_matches_def)
qed (use assms(1,2) in \<open>auto simp: GenerateAuthPayload_def\<close>)

text \<open>The administrative operations, as a run.\<close>

datatype auth_op = AddOp user_record | RemoveOp string | RateOp string time | CleanOp time

fun auth_step :: "(string \<Rightarrow> time option) \<Rightarrow> auth_manager \<Rightarrow> auth_op \<Rightarrow> auth_manager" where
  "auth_step parse_time am (AddOp u) = AddUser parse_time u am"
| "auth_step parse_time am (RemoveOp i) = RemoveUser i am"
| "auth_step parse_time am (RateOp ip t) = snd (checkRateLimit ip t am)"
| "auth_step parse_time am (CleanOp t) = cleanRateLimits t am"

definition users_ok :: "auth_manager \<Rightarrow> bool" where
  "users_ok am \<longleftrightarrow>
     (\<forall>i u. users am i = Some u \<longrightarrow> u_id u = i \<and> u_pskBytes u = sha256 (str_bytes (u_psk u)))"

lemma prepare_user_fields [simp]:
  "u_id (prepare_user p u) = u_id u" "u_psk (prepare_user p u) = u_psk u"
  "u_pskBytes (prepare_user p u) = sha256 (str_bytes (u_psk u))"
  "u_ports (prepare_user p u) = u_ports u"
  by (auto simp: prepare_user_def Let_def split: option.splits)

lemma auth_step_ok: "users_ok am \<Longrightarrow> users_ok (auth_step p am op)"
  by (cases op) (auto simp: users_ok_def AddUser_def RemoveUser_def Let_def cleanRateLimits_def
      split: option.splits if_splits)

lemma auth_run_ok: "users_ok am \<Longrightarrow> users_ok (foldl (auth_step p) am ops)"
  by (induction ops arbitrary: am) (auto intro: auth_step_ok)

lemma AddUsers_ok: "users_ok am \<Longrightarrow> users_ok (foldl (\<lambda>am u. AddUser p u am) am us)"
proof (induction us arbitrary: am)
  case (Cons u us)
  show ?case using Cons.IH auth_step_ok [OF Cons.prems, of p "AddOp u"] by simp
qed simp

lemma NewAuthManager_ok: "users_ok (NewAuthManager p us)"
  unfolding NewAuthManager_def by (rule AddUsers_ok) (simp add: users_ok_def)

text \<open>Calls of the limiter in a row, with the times at which they are made.\<close>

fun rate_run :: "string \<Rightarrow> time list \<Rightarrow> auth_manager \<Rightarrow> bool list \<times> auth_manager" where
  "rate_run ip [] am = ([], am)"
| "rate_run ip (t # ts) am =
     (case checkRateLimit ip t am of (b, am1) \<Rightarrow>
        case rate_run ip ts am1 of (bs, am2) \<Rightarrow> (b # bs, am2))"

lemma rate_run_counting:
  "authRates am ip = Some \<lparr>re_count = int k, re_resetAt = r\<rparr> \<Longrightarrow> \<forall>t \<in> set ts. t \<le> r \<Longrightarrow>
   fst (rate_run ip ts am) = map (\<lambda>i. k + i < 1000) [0..<length ts]"
proof (induction ts arbitrary: am k)
  case (Cons t ts)
  define am1 where "am1 = am\<lparr>authRates := (authRates am)(ip \<mapsto> \<lparr>re_count = int k + 1, re_resetAt = r\<rparr>)\<rparr>"
  have step: "checkRateLimit ip t am = (k < 1000, am1)"
    using Cons.prems by (auto simp: checkRateLimit_def Let_def am1_def)
  have "authRates am1 ip = Some \<lparr>re_count = int (Suc k), re_resetAt = r\<rparr>"
    by (simp add: am1_def)
  then have "fst (rate_run ip ts am1) = map (\<lambda>i. Suc k + i < 1000) [0..<length ts]"
    using Cons.prems by (intro Cons.IH) auto
  then show ?case
    using step by (simp add: upt_conv_Cons map_Suc_upt [symmetric] comp_def case_prod_beta del: upt_Suc)
qed simp

lemma clean_entry:
  "authRates (cleanRateLimits now am) ip =
     (case authRates am ip of None \<Rightarrow> None | Some e \<Rightarrow> if re_resetAt e < now then None else Some e)"
  by (simp add: cleanRateLimits_def)

lemma checkRateLimit_entry:
  "fst (checkRateLimit ip now am) =
     (case authRates am ip of None \<Rightarrow> True
      | Some e \<Rightarrow> re_resetAt e < now \<or> re_count e + 1 \<le> 1000)"
  "authRates (snd (checkRateLimit ip now am)) =
     (authRates am)(ip \<mapsto> (case authRates am ip of
         None \<Rightarrow> \<lparr>re_count = 1, re_resetAt = now + minute_ns\<rparr>
       | Some e \<Rightarrow> if re_resetAt e < now then \<lparr>re_count = 1, re_resetAt = now + minute_ns\<rparr>
                  else e\<lparr>re_count := re_count e + 1\<rparr>))"
  by (auto simp: checkRateLimit_def Let_def split: option.splits)

lemma generated_accepted:
  assumes "GenerateAuthPayload psk t0 (Some nonce) = Some d" and "length nonce = 24"
    and "users am i = Some u" and "u_psk u = psk" and "users_ok am" and "\<not> expired now u"
    and "unix_minute now - 1 \<le> unix_minute t0" and "unix_minute t0 \<le> unix_minute now"
    and "fst (checkRateLimit (remote_ip addr) t am)" and "set order = dom (users am)"
  shows "\<exists>s. fst (ValidateAuth order t now (d @ r) addr am) = Ok s"
proof -
  have "u_pskBytes u = sha256 (str_bytes psk)" using assms(3-5) by (auto simp: users_ok_def)
  from generated_matches [OF assms(1,2) this assms(7,8)]
  have "56 \<le> length (d @ r)" "mac_matches now (d @ r) u" by auto
  moreover obtain am' where "checkRateLimit (remote_ip addr) t am = (True, am')"
    using assms(9) by (cases "checkRateLimit (remote_ip addr) t am") auto
  moreover from this have "users am' = users am"
    using checkRateLimit_users [of "remote_ip addr" t am] by simp
  moreover have "find_user now (d @ r) (users am) order \<noteq> None"
    using calculation(2) assms(3,6,10) by (auto simp: find_user_None)
  ultimately show ?thesis by (auto simp: ValidateAuth_def Let_def)
qed

section \<open>Properties\<close>



text \<open>Honest clients get in. Credentials generated from a registered user's key are accepted as
  long as the server's clock is in the same or the next minute, the user has not expired and
  the address is within its rate, with any bytes following them, and whatever other users
  there are.\<close>

theorem fresh_credentials_accepted:
  assumes "GenerateAuthPayload psk t0 (Some nonce) = Some d" and "length nonce = 24"
    and "users am i = Some u" and "u_psk u = psk" and "users_ok am" and "\<not> expired now u"
    and "unix_minute now - 1 \<le> unix_minute t0" and "unix_minute t0 \<le> unix_minute now"
    and "fst (checkRateLimit (remote_ip addr) t am)" and "set order = dom (users am)"
  shows "\<exists>s. fst (ValidateAuth order t now (d @ r) addr am) = Ok s"
  by (rule generated_accepted [OF assms])

theorem fresh_credentials_accepted_witness:
  "\<exists>d s. GenerateAuthPayload ''k'' 59000000000 (Some (replicate 24 7)) = Some d \<and>
     fst (ValidateAuth [''a''] 0 60000000000 (d @ [1]) (OtherAddr ''pipe'')
     (NewAuthManager (\<lambda>_. None) [\<lparr>u_id = ''a'', u_psk = ''k'', u_max_bandwidth = 0, u_ports = [],
        u_expires = [], u_upstream = None, u_pskBytes = [], u_expiresAt = None\<rparr>])) = Ok s"
proof -
  let ?u = "\<lparr>u_id = ''a'', u_psk = ''k'', u_max_bandwidth = 0, u_ports = [],
        u_expires = [], u_upstream = None, u_pskBytes = [], u_expiresAt = None\<rparr>"
  let ?am = "NewAuthManager (\<lambda>_. None) [?u]"
  obtain d where d: "GenerateAuthPayload ''k'' 59000000000 (Some (replicate 24 7)) = Some d"
    by (simp add: GenerateAuthPayload_def)
  have u: "users ?am ''a'' = Some (prepare_user (\<lambda>_. None) ?u)"
    by (simp add: NewAuthManager_def AddUser_def Let_def)
  have dm: "set [''a''] = dom (users ?am)" by (auto simp: NewAuthManager_def AddUser_def Let_def)
  have "\<exists>s. fst (ValidateAuth [''a''] 0 60000000000 (d @ [1]) (OtherAddr ''pipe'') ?am) = Ok s"
    by (rule fresh_credentials_accepted [OF d _ u _ NewAuthManager_ok _ _ _ _ dm])
       (simp_all add: prepare_user_def expired_def unix_minute_def checkRateLimit_def NewAuthManager_def
         AddUser_def Let_def)
  with d show ?thesis by blast
qed

text \<open>The limiter admits exactly a thousand. Of the calls an address makes within the minute that
  follows its first call, the first thousand pass and every later one is refused.\<close>

theorem rate_limit_window:
  assumes "authRates am ip = None" and "\<forall>t \<in> set ts. t \<le> t0 + minute_ns"
  shows "fst (rate_run ip (t0 # ts) am) = map (\<lambda>i. i < 1000) [0..<Suc (length ts)]"
proof -
  define am1 where
    "am1 = am\<lparr>authRates := (authRates am)(ip \<mapsto> \<lparr>re_count = 1, re_resetAt = t0 + minute_ns\<rparr>)\<rparr>"
  have "checkRateLimit ip t0 am = (True, am1)"
    using assms(1) by (simp add: checkRateLimit_def am1_def)
  moreover have "fst (rate_run ip ts am1) = map (\<lambda>i. 1 + i < 1000) [0..<length ts]"
    by (rule rate_run_counting [OF _ assms(2)]) (simp add: am1_def)
  ultimately show ?thesis
    by (simp add: upt_conv_Cons map_Suc_upt [symmetric] comp_def case_prod_beta del: upt_Suc)
qed

theorem rate_limit_window_witness:
  "fst (rate_run ''h'' [0, 5, 7] \<lparr>users = Map.empty, pskMap = Map.empty, authRates = Map.empty\<rparr>) =
     [True, True, True]"
  using rate_limit_window [of "\<lparr>users = Map.empty, pskMap = Map.empty, authRates = Map.empty\<rparr>" "''h''" "[5, 7]" 0]
  by (simp add: minute_ns_def)

text \<open>Cleaning is invisible. Dropping the stale entries of the limiter at some moment changes the
  answer of no later call, nor the entry that call leaves behind.\<close>

theorem clean_invisible:
  assumes "t1 \<le> t2"
  shows "fst (checkRateLimit ip t2 (cleanRateLimits t1 am)) = fst (checkRateLimit ip t2 am) \<and>
    authRates (snd (checkRateLimit ip t2 (cleanRateLimits t1 am))) ip =
      authRates (snd (checkRateLimit ip t2 am)) ip"
  using assms by (auto simp: checkRateLimit_entry clean_entry split: option.splits)

theorem clean_invisible_witness:
  "fst (checkRateLimit ''h'' 9 (cleanRateLimits 8
     \<lparr>users = Map.empty, pskMap = Map.empty, authRates = [''h'' \<mapsto> \<lparr>re_count = 1000, re_resetAt = 7\<rparr>]\<rparr>)) = True"
  using clean_invisible [of 8 9 "''h''"
      "\<lparr>users = Map.empty, pskMap = Map.empty, authRates = [''h'' \<mapsto> \<lparr>re_count = 1000, re_resetAt = 7\<rparr>]\<rparr>"]
  by (simp add: checkRateLimit_entry)

text \<open>A removed user is out. After any history of adding and removing users and of rate limiting,
  removing an id means no credentials ever again yield a session for that id, until it is added
  back; and every session is for a user registered under its own id with the hash of its own
  key.\<close>

theorem removed_user_rejected:
  assumes "am = foldl (auth_step p) (NewAuthManager p us) ops"
    and "fst (ValidateAuth order t now d addr (RemoveUser i am)) = Ok s"
  shows "u_id (as_user s) \<noteq> i \<and> u_pskBytes (as_user s) = sha256 (str_bytes (u_psk (as_user s)))"
proof -
  have ok: "users_ok (RemoveUser i am)"
    using auth_step_ok [of am p "RemoveOp i"] auth_run_ok [OF NewAuthManager_ok] assms(1) by simp
  obtain b am' where c: "checkRateLimit (remote_ip addr) t (RemoveUser i am) = (b, am')" by fastforce
  then have "users am' = users (RemoveUser i am)"
    using checkRateLimit_users [of "remote_ip addr" t "RemoveUser i am"] by simp
  then have "find_user now d (users (RemoveUser i am)) order = Some (as_user s)"
    using assms(2) c by (auto simp: ValidateAuth_def Let_def split: bool.splits if_splits option.splits)
  then obtain j where "users (RemoveUser i am) j = Some (as_user s)"
    using find_user_Some by blast
  moreover from this have "j \<noteq> i"
    by (auto simp: RemoveUser_def split: option.splits if_splits)
  ultimately show ?thesis using ok by (auto simp: users_ok_def)
qed

theorem removed_user_rejected_witness:
  "\<exists>d s. GenerateAuthPayload ''k'' 59000000000 (Some (replicate 24 7)) = Some d \<and>
     fst (ValidateAuth [''a''] 0 60000000000 d (OtherAddr ''pipe'')
       (RemoveUser ''b'' (foldl (auth_step (\<lambda>_. None)) (NewAuthManager (\<lambda>_. None) [])
          [AddOp \<lparr>u_id = ''a'', u_psk = ''k'', u_max_bandwidth = 0, u_ports = [],
             u_expires = [], u_upstream = None, u_pskBytes = [], u_expiresAt = None\<rparr>]))) = Ok s \<and>
     u_id (as_user s) \<noteq> ''b''"
proof -
  let ?u = "\<lparr>u_id = ''a'', u_psk = ''k'', u_max_bandwidth = 0, u_ports = [],
        u_expires = [], u_upstream = None, u_pskBytes = [], u_expiresAt = None\<rparr>"
  let ?am = "foldl (auth_step (\<lambda>_. None)) (NewAuthManager (\<lambda>_. None) []) [AddOp ?u]"
  obtain d where d: "GenerateAuthPayload ''k'' 59000000000 (Some (replicate 24 7)) = Some d"
    by (simp add: GenerateAuthPayload_def)
  have am: "RemoveUser ''b'' ?am = ?am"
    by (simp add: RemoveUser_def NewAuthManager_def AddUser_def Let_def)
  have u: "users ?am ''a'' = Some (prepare_user (\<lambda>_. None) ?u)"
    by (simp add: NewAuthManager_def AddUser_def Let_def)
  have dm: "set [''a''] = dom (users ?am)" by (auto simp: NewAuthManager_def AddUser_def Let_def)
  have ok: "users_ok ?am" by (rule auth_run_ok [OF NewAuthManager_ok])
  have "\<exists>s. fst (ValidateAuth [''a''] 0 60000000000 (d @ []) (OtherAddr ''pipe'') ?am) = Ok s"
    by (rule generated_accepted [OF d _ u _ ok _ _ _ _ dm])
       (simp_all add: prepare_user_def expired_def unix_minute_def checkRateLimit_def NewAuthManager_def
         AddUser_def Let_def)
  then obtain s where
    s: "fst (ValidateAuth [''a''] 0 60000000000 d (OtherAddr ''pipe'') (RemoveUser ''b'' ?am)) = Ok s"
    unfolding am by auto
  have "u_id (as_user s) \<noteq> ''b''" using removed_user_rejected [OF refl s] by blast
  with d s show ?thesis by blast
qed

end
