(* ===== verification/Firewall.thy ===== *)
theory Firewall
  imports Auth
begin

text \<open>
  \<^verbatim>\<open>core/transport/firewall.go\<close>: which destinations a user may reach, how many connections a
  user may hold, and the per-user bandwidth window. The private ranges are parsed from the
  source's CIDR strings by the model of \<^verbatim>\<open>net.ParseCIDR\<close>, and the test on a destination goes
  through the text of the address, as in the code.
\<close>

section \<open>State\<close>

record firewall_config =
  fc_blocked :: "u16 list"
  fc_max_conns :: int
  fc_max_bandwidth :: int
  fc_allow_private :: bool

record bandwidth_tracker =
  bytesUsed :: int
  bt_limit :: int
  windowStart :: time

record firewall =
  fw_config :: firewall_config
  blockedPorts :: "u16 \<rightharpoonup> bool"
  privateRanges :: "ipnet list"
  userConnCounts :: "string \<rightharpoonup> int"
  userBandwidth :: "string \<rightharpoonup> bandwidth_tracker"

definition DefaultFirewallConfig :: firewall_config where
  "DefaultFirewallConfig =
     \<lparr>fc_blocked = [25, 465, 587, 137, 138, 139, 445], fc_max_conns = 2000, fc_max_bandwidth = 0,
      fc_allow_private = False\<rparr>"

definition private_cidrs :: "string list" where
  "private_cidrs = [''10.0.0.0/8'', ''172.16.0.0/12'', ''192.168.0.0/16'', ''127.0.0.0/8'',
     ''169.254.0.0/16'', ''fc00::/7'', ''fe80::/10'', ''::1/128'']"

definition NewFirewall :: "firewall_config \<Rightarrow> firewall" where
  "NewFirewall cfg =
     \<lparr>fw_config = cfg,
      blockedPorts = foldl (\<lambda>m p. m(p \<mapsto> True)) Map.empty (fc_blocked cfg),
      privateRanges = List.map_filter parse_cidr private_cidrs,
      userConnCounts = Map.empty,
      userBandwidth = Map.empty\<rparr>"

section \<open>Connections\<close>

text \<open>\<^verbatim>\<open>getConnCount\<close> returns a pointer to the user's counter, made on first use.\<close>

definition getConnCount :: "string \<Rightarrow> firewall \<Rightarrow> int \<times> firewall" where
  "getConnCount userID fw =
     (case userConnCounts fw userID of
        Some n \<Rightarrow> (n, fw)
      | None \<Rightarrow> (0, fw\<lparr>userConnCounts := (userConnCounts fw)(userID \<mapsto> 0)\<rparr>))"

definition add_count :: "int \<Rightarrow> string \<Rightarrow> firewall \<Rightarrow> firewall" where
  "add_count k userID fw =
     (case getConnCount userID fw of
        (n, fw') \<Rightarrow> fw'\<lparr>userConnCounts := (userConnCounts fw')(userID \<mapsto> n + k)\<rparr>)"

definition OnConnect :: "string \<Rightarrow> firewall \<Rightarrow> firewall" where
  "OnConnect userID fw = add_count 1 userID fw"

definition OnDisconnect :: "string \<Rightarrow> firewall \<Rightarrow> firewall" where
  "OnDisconnect userID fw = add_count (- 1) userID fw"

definition port_allowed :: "port_range list \<Rightarrow> u16 \<Rightarrow> bool" where
  "port_allowed prs destPort = list_ex (\<lambda>pr. pr_from pr \<le> destPort \<and> destPort \<le> pr_to pr) prs"

definition CheckConnection ::
  "string \<Rightarrow> string \<Rightarrow> u16 \<Rightarrow> user_record option \<Rightarrow> firewall \<Rightarrow> bool \<times> firewall" where
  "CheckConnection userID destAddr destPort user fw =
     (if blockedPorts fw destPort = Some True then (False, fw)
      else if (case user of None \<Rightarrow> False
               | Some u \<Rightarrow> u_ports u \<noteq> [] \<and> \<not> port_allowed (u_ports u) destPort)
      then (False, fw)
      else if \<not> fc_allow_private (fw_config fw) \<and>
              (case parse_ip destAddr of None \<Rightarrow> False
               | Some ip \<Rightarrow> list_ex (\<lambda>priv. net_contains priv ip) (privateRanges fw))
      then (False, fw)
      else if 0 < fc_max_conns (fw_config fw) then
        (case getConnCount userID fw of
           (count, fw') \<Rightarrow> (count < fc_max_conns (fw_config fw), fw'))
      else (True, fw))"

section \<open>Bandwidth\<close>

text \<open>
  The three readings of the clock: when the tracker is made, when the age of the window is
  taken, and when the window is restarted.
\<close>

definition TrackBandwidth ::
  "time \<Rightarrow> time \<Rightarrow> time \<Rightarrow> string \<Rightarrow> int \<Rightarrow> firewall \<Rightarrow> bool \<times> firewall" where
  "TrackBandwidth t_new t_since t_reset userID n fw =
     (let tr0 = (case userBandwidth fw userID of
            Some tr \<Rightarrow> tr
          | None \<Rightarrow> \<lparr>bytesUsed = 0, bt_limit = fc_max_bandwidth (fw_config fw), windowStart = t_new\<rparr>);
          tr1 = (if 1000000000 < t_since - windowStart tr0
                 then tr0\<lparr>bytesUsed := 0, windowStart := t_reset\<rparr> else tr0);
          tr2 = tr1\<lparr>bytesUsed := bytesUsed tr1 + n\<rparr>
      in (\<not> (0 < bt_limit tr2 \<and> bt_limit tr2 < bytesUsed tr2),
          fw\<lparr>userBandwidth := (userBandwidth fw)(userID \<mapsto> tr2)\<rparr>))"

definition SetUserBandwidthLimit :: "time \<Rightarrow> string \<Rightarrow> int \<Rightarrow> firewall \<Rightarrow> firewall" where
  "SetUserBandwidthLimit t_new userID limit fw =
     (let tr = (case userBandwidth fw userID of
            Some tr \<Rightarrow> tr
          | None \<Rightarrow> \<lparr>bytesUsed = 0, bt_limit = 0, windowStart = t_new\<rparr>)
      in fw\<lparr>userBandwidth := (userBandwidth fw)(userID \<mapsto> tr\<lparr>bt_limit := limit\<rparr>)\<rparr>)"

section \<open>Which addresses are private\<close>

text \<open>
  The reference: a four-byte address in 10/8, 172.16/12, 192.168/16, 127/8 or 169.254/16, and
  a sixteen-byte one that is such an address in its IPv4-mapped form, or lies in fc00::/7 or
  fe80::/10, or is ::1.
\<close>

fun private4 :: "bytes \<Rightarrow> bool" where
  "private4 [a, b, c, d] \<longleftrightarrow>
     a = 10 \<or> (a = 172 \<and> drop_bit 4 b = 1) \<or> (a = 192 \<and> b = 168) \<or> a = 127 \<or> (a = 169 \<and> b = 254)"
| "private4 _ \<longleftrightarrow> False"

definition private_ip :: "ip \<Rightarrow> bool" where
  "private_ip ip =
     (case to4 ip of
        Some q \<Rightarrow> private4 q
      | None \<Rightarrow> length ip = 16 \<and>
          (drop_bit 1 (ip ! 0) = 126 \<or> (ip ! 0 = 0xfe \<and> drop_bit 6 (ip ! 1) = 2) \<or>
           ip = replicate 15 0 @ [1]))"

lemma replicate_numeral: "replicate (numeral k) x = x # replicate (pred_numeral k) x"
  by (simp add: numeral_eq_Suc)

lemmas cidr_eval = parse_cidr_def parse_ip_def parse_ipv4_def parse_ipv6_def v6_finish_def
  expand_ellipsis_def cidr_mask_def mask_byte_def mask_bytes_def v4in6_prefix_def dec_digit_def
  hex_digit_def Let_def v6_loop.simps upt_rec ungroup_def replicate_numeral

lemma parse_private_cidrs:
  "parse_cidr ''10.0.0.0/8'' = Some \<lparr>net_ip = [10, 0, 0, 0], net_mask = [255, 0, 0, 0]\<rparr>"
  "parse_cidr ''172.16.0.0/12'' = Some \<lparr>net_ip = [172, 16, 0, 0], net_mask = [255, 240, 0, 0]\<rparr>"
  "parse_cidr ''192.168.0.0/16'' = Some \<lparr>net_ip = [192, 168, 0, 0], net_mask = [255, 255, 0, 0]\<rparr>"
  "parse_cidr ''127.0.0.0/8'' = Some \<lparr>net_ip = [127, 0, 0, 0], net_mask = [255, 0, 0, 0]\<rparr>"
  "parse_cidr ''169.254.0.0/16'' = Some \<lparr>net_ip = [169, 254, 0, 0], net_mask = [255, 255, 0, 0]\<rparr>"
  "parse_cidr ''fc00::/7'' = Some \<lparr>net_ip = 0xfc # replicate 15 0, net_mask = 254 # replicate 15 0\<rparr>"
  "parse_cidr ''fe80::/10'' =
     Some \<lparr>net_ip = 0xfe # 0x80 # replicate 14 0, net_mask = 255 # 192 # replicate 14 0\<rparr>"
  "parse_cidr ''::1/128'' = Some \<lparr>net_ip = replicate 15 0 @ [1], net_mask = replicate 16 255\<rparr>"
  by (simp_all add: cidr_eval)

lemma private_ranges:
  "privateRanges (NewFirewall cfg) =
     [\<lparr>net_ip = [10, 0, 0, 0], net_mask = [255, 0, 0, 0]\<rparr>,
      \<lparr>net_ip = [172, 16, 0, 0], net_mask = [255, 240, 0, 0]\<rparr>,
      \<lparr>net_ip = [192, 168, 0, 0], net_mask = [255, 255, 0, 0]\<rparr>,
      \<lparr>net_ip = [127, 0, 0, 0], net_mask = [255, 0, 0, 0]\<rparr>,
      \<lparr>net_ip = [169, 254, 0, 0], net_mask = [255, 255, 0, 0]\<rparr>,
      \<lparr>net_ip = 0xfc # replicate 15 0, net_mask = 254 # replicate 15 0\<rparr>,
      \<lparr>net_ip = 0xfe # 0x80 # replicate 14 0, net_mask = 255 # 192 # replicate 14 0\<rparr>,
      \<lparr>net_ip = replicate 15 0 @ [1], net_mask = replicate 16 255\<rparr>]"
  by (simp add: NewFirewall_def private_cidrs_def List.map_filter_def parse_private_cidrs)

lemma high_bits_eq:
  "(a AND NOT (mask n) = c AND NOT (mask n)) \<longleftrightarrow> drop_bit n a = drop_bit n (c :: byte)"
proof
  have d: "drop_bit n (x AND NOT (mask n)) = drop_bit n x" for x :: byte
    by (rule bit_word_eqI) (auto simp: bit_simps dest: bit_imp_le_length)
  have p: "x AND NOT (mask n) = push_bit n (drop_bit n x)" for x :: byte
    by (rule bit_word_eqI) (auto simp: bit_simps dest: bit_imp_le_length)
  show "drop_bit n a = drop_bit n c" if "a AND NOT (mask n) = c AND NOT (mask n)"
    using that d [of a] d [of c] by simp
  show "a AND NOT (mask n) = c AND NOT (mask n)" if "drop_bit n a = drop_bit n c"
    using that p by simp
qed

lemma neg_bytes: "(- 16 :: byte) = 240" "(- 2 :: byte) = 254" "(- 64 :: byte) = 192"
  by simp_all

lemma high_bits:
  "16 = (b AND 240 :: byte) \<longleftrightarrow> drop_bit 4 b = 1"
  "252 = (b AND 254 :: byte) \<longleftrightarrow> drop_bit 1 b = 126"
  "128 = (b AND 192 :: byte) \<longleftrightarrow> drop_bit 6 b = 2"
  using high_bits_eq [of b 4 16] high_bits_eq [of b 1 252] high_bits_eq [of b 6 128]
  by (auto simp: mask_eq_exp_minus_1 neg_bytes)

lemma and_255 [simp]: "(255 AND b :: byte) = b" "(b AND 255 :: byte) = b"
proof -
  have eq: "(255 :: byte) = - 1" by simp
  show "(255 AND b :: byte) = b" "(b AND 255 :: byte) = b"
    by (simp_all only: eq and.left_neutral and.right_neutral)
qed

lemma contains_eval:
  assumes "length (net_ip n) = length (net_mask n)" "to4 (net_ip n) = None \<or> length (net_ip n) = 4"
    and "length x = 4 \<or> length x = 16 \<and> to4 x = None"
  shows "net_contains n x \<longleftrightarrow>
    length x = length (net_ip n) \<and> (length x = 4 \<or> length x = 16) \<and>
    mask_bytes (net_mask n) (net_ip n) = mask_bytes (net_mask n) x"
  using assms by (auto simp: net_contains_def net_number_mask_def to4_def Let_def split: if_splits)

lemma loopback_mask: "length x = 16 \<Longrightarrow> mask_bytes (replicate 16 255) x = x"
proof -
  have "mask_bytes (replicate (length y) 255) y = y" for y :: bytes
    by (induction y) (auto simp: mask_bytes_def)
  then show "length x = 16 \<Longrightarrow> ?thesis" by metis
qed

lemma zero_mask: "length x = n \<Longrightarrow> mask_bytes (replicate n 0) x = replicate n 0"
  by (induction n arbitrary: x) (auto simp: mask_bytes_def length_Suc_conv)

lemma to4_none: "length x = 16 \<Longrightarrow> x ! 0 \<noteq> 0 \<or> x ! 11 = 0 \<Longrightarrow> to4 x = None"
proof -
  assume l: "length x = 16" and c: "x ! 0 \<noteq> 0 \<or> x ! 11 = 0"
  have "x ! i = v4in6_prefix ! i" if "take 12 x = v4in6_prefix" "i < 12" for i
    using that nth_take [of i 12 x] by simp
  from this [of 0] this [of 11] have "take 12 x \<noteq> v4in6_prefix"
    using c by (auto simp: v4in6_prefix_def nth_append)
  then show "to4 x = None" using l by (simp add: to4_def)
qed

lemma in_private4:
  assumes "length q = 4"
  shows "list_ex (\<lambda>priv. net_contains priv q) (privateRanges (NewFirewall cfg)) = private4 q"
proof -
  obtain a b c d where q: "q = [a, b, c, d]" using assms by (rule length4E)
  show ?thesis
    unfolding private_ranges q
    by (auto simp: contains_eval to4_none mask_bytes_def high_bits and.commute [of 240] nth_append nth_Cons')
qed

lemma in_private16:
  assumes "length ip = 16" "to4 ip = None"
  shows "list_ex (\<lambda>priv. net_contains priv ip) (privateRanges (NewFirewall cfg)) = private_ip ip"
proof -
  from assms(1) obtain a b r where ip: "ip = a # b # r" and r: "length r = 14"
    by (auto simp: numeral_eq_Suc length_Suc_conv)
  have "mask_bytes (254 # replicate 15 0) ip = (a AND 254) # replicate 15 0"
    using zero_mask [of "b # r" 15] r by (simp add: ip mask_bytes_def and.commute)
  moreover have "mask_bytes (255 # 192 # replicate 14 0) ip = a # (b AND 192) # replicate 14 0"
    using zero_mask [of r 14] r by (simp add: ip mask_bytes_def and.commute)
  moreover have "mask_bytes (replicate 16 255) (replicate 15 0 @ [1 :: byte]) = replicate 15 0 @ [1]"
    by (rule loopback_mask) simp
  moreover have "mask_bytes (254 # replicate 15 0) (252 # replicate 15 0) = 252 # replicate 15 0"
    "mask_bytes (255 # 192 # replicate 14 0) (254 # 128 # replicate 14 0) = 254 # 128 # replicate 14 0"
    by (simp_all add: mask_bytes_def replicate_numeral)
  ultimately show ?thesis
    unfolding private_ranges
    using assms loopback_mask [OF assms(1)] high_bits
    by (auto simp: contains_eval to4_none private_ip_def ip nth_append)
qed

lemma private_text:
  assumes "length ip = 4 \<or> length ip = 16" "parse_ip (ip_string ip) = Some x"
  shows "list_ex (\<lambda>priv. net_contains priv x) (privateRanges (NewFirewall cfg)) = private_ip ip"
proof -
  have x: "to16 ip = Some x" using assms by (simp add: parse_ip_ip_string)
  then have eq: "list_ex (\<lambda>priv. net_contains priv x) rs = list_ex (\<lambda>priv. net_contains priv ip) rs" for rs
    by (simp add: net_contains_to16)
  show ?thesis
  proof (cases "to4 ip")
    case None
    then have "length ip = 16" using assms(1) by (auto simp: to4_def split: if_splits)
    then show ?thesis using in_private16 None eq by simp
  next
    case (Some q)
    have q: "length q = 4" using length_to4 [OF Some] .
    have "net_contains n ip = net_contains n q" for n
      using Some q by (simp add: net_contains_def to4_def)
    then show ?thesis using in_private4 [OF q] eq Some by (simp add: private_ip_def)
  qed
qed

lemma private_parsed:
  assumes "parse_ip s = Some x"
  shows "list_ex (\<lambda>priv. net_contains priv x) (privateRanges (NewFirewall cfg)) = private_ip x"
proof -
  have l: "length x = 16" using parse_ip_length [OF assms] .
  then have "parse_ip (ip_string x) = Some x" by (simp add: parse_ip_ip_string to16_def)
  then show ?thesis using private_text [of x x] l by simp
qed

section \<open>Any history of a firewall\<close>

datatype fw_op =
    ConnectOp string
  | DisconnectOp string
  | CheckOp string string u16 "user_record option"
  | TrackOp time time time string int
  | LimitOp time string int

fun fwall_step :: "firewall \<Rightarrow> fw_op \<Rightarrow> firewall" where
  "fwall_step fw (ConnectOp u) = OnConnect u fw"
| "fwall_step fw (DisconnectOp u) = OnDisconnect u fw"
| "fwall_step fw (CheckOp u a p r) = snd (CheckConnection u a p r fw)"
| "fwall_step fw (TrackOp t1 t2 t3 u n) = snd (TrackBandwidth t1 t2 t3 u n fw)"
| "fwall_step fw (LimitOp t u n) = SetUserBandwidthLimit t u n fw"

abbreviation fwall_run :: "firewall_config \<Rightarrow> fw_op list \<Rightarrow> firewall" where
  "fwall_run cfg ops \<equiv> foldl fwall_step (NewFirewall cfg) ops"

definition held :: "string \<Rightarrow> fw_op list \<Rightarrow> int" where
  "held u ops = int (count_list ops (ConnectOp u)) - int (count_list ops (DisconnectOp u))"

definition conn_count :: "string \<Rightarrow> firewall \<Rightarrow> int" where
  "conn_count u fw = fst (getConnCount u fw)"

definition same_rules :: "firewall_config \<Rightarrow> firewall \<Rightarrow> bool" where
  "same_rules cfg fw \<longleftrightarrow> fw_config fw = cfg \<and>
     blockedPorts fw = blockedPorts (NewFirewall cfg) \<and>
     privateRanges fw = privateRanges (NewFirewall cfg)"

lemma blocked_ports: "blockedPorts (NewFirewall cfg) p = Some True \<longleftrightarrow> p \<in> set (fc_blocked cfg)"
proof -
  have "(foldl (\<lambda>m p. m(p \<mapsto> True)) m ps) p = Some True \<longleftrightarrow> p \<in> set ps \<or> m p = Some True" for m ps
    by (induction ps arbitrary: m) auto
  then show ?thesis by (simp add: NewFirewall_def)
qed

lemma getConnCount_simps [simp]:
  "fw_config (snd (getConnCount u fw)) = fw_config fw"
  "blockedPorts (snd (getConnCount u fw)) = blockedPorts fw"
  "privateRanges (snd (getConnCount u fw)) = privateRanges fw"
  "conn_count v (snd (getConnCount u fw)) = conn_count v fw"
  by (auto simp: getConnCount_def conn_count_def split: option.splits)

lemma add_count_simps [simp]:
  "fw_config (add_count k u fw) = fw_config fw"
  "blockedPorts (add_count k u fw) = blockedPorts fw"
  "privateRanges (add_count k u fw) = privateRanges fw"
  "conn_count v (add_count k u fw) = conn_count v fw + (if u = v then k else 0)"
  by (auto simp: add_count_def getConnCount_def conn_count_def split: option.splits)

lemma check_state: "snd (CheckConnection u a p r fw) \<in> {fw, snd (getConnCount u fw)}"
  by (auto simp: CheckConnection_def split: prod.splits)

lemma fwall_step_rules: "same_rules cfg fw \<Longrightarrow> same_rules cfg (fwall_step fw op)"
proof (cases op)
  case (CheckOp u a p r)
  then show "same_rules cfg fw \<Longrightarrow> ?thesis"
    using check_state [of u a p r fw] by (auto simp: same_rules_def)
qed (auto simp: same_rules_def OnConnect_def OnDisconnect_def TrackBandwidth_def
    SetUserBandwidthLimit_def Let_def split: option.splits)

lemma fwall_run_rules: "same_rules cfg fw \<Longrightarrow> same_rules cfg (foldl fwall_step fw ops)"
  by (induction ops arbitrary: fw) (auto intro: fwall_step_rules)

lemma fwall_step_count:
  "conn_count u (fwall_step fw op) = conn_count u fw + held u [op]"
proof (cases op)
  case (CheckOp v a p r)
  then show ?thesis
    using check_state [of v a p r fw] by (auto simp: held_def)
qed (auto simp: held_def OnConnect_def OnDisconnect_def TrackBandwidth_def SetUserBandwidthLimit_def
    Let_def conn_count_def getConnCount_def split: option.splits, auto simp: add_count_def getConnCount_def split: option.splits)

lemma fwall_run_count: "conn_count u (foldl fwall_step fw ops) = conn_count u fw + held u ops"
proof (induction ops arbitrary: fw)
  case (Cons op ops)
  have "held u (op # ops) = held u [op] + held u ops" by (simp add: held_def)
  then show ?case using Cons by (simp add: fwall_step_count)
qed (simp add: held_def)

lemma check_decision:
  assumes "same_rules cfg fw"
  shows "fst (CheckConnection uid a p user fw) \<longleftrightarrow>
    p \<notin> set (fc_blocked cfg) \<and>
    (\<forall>u. user = Some u \<longrightarrow> u_ports u = [] \<or>
       (\<exists>pr \<in> set (u_ports u). pr_from pr \<le> p \<and> p \<le> pr_to pr)) \<and>
    (fc_allow_private cfg \<or> (\<forall>ip. parse_ip a = Some ip \<longrightarrow> \<not> private_ip ip)) \<and>
    (fc_max_conns cfg \<le> 0 \<or> conn_count uid fw < fc_max_conns cfg)"
proof -
  have "(case parse_ip a of None \<Rightarrow> False
         | Some ip \<Rightarrow> list_ex (\<lambda>priv. net_contains priv ip) (privateRanges fw)) \<longleftrightarrow>
        (\<exists>ip. parse_ip a = Some ip \<and> private_ip ip)"
    using assms private_parsed [of a _ cfg] by (auto simp: same_rules_def split: option.splits)
  moreover have "(case user of None \<Rightarrow> False
               | Some u \<Rightarrow> u_ports u \<noteq> [] \<and> \<not> port_allowed (u_ports u) p) \<longleftrightarrow>
     \<not> (\<forall>u. user = Some u \<longrightarrow> u_ports u = [] \<or>
       (\<exists>pr \<in> set (u_ports u). pr_from pr \<le> p \<and> p \<le> pr_to pr))"
    by (auto simp: port_allowed_def list_ex_iff split: option.splits)
  moreover have "blockedPorts fw p = Some True \<longleftrightarrow> p \<in> set (fc_blocked cfg)" "fw_config fw = cfg"
    using assms blocked_ports by (auto simp: same_rules_def)
  ultimately show ?thesis
    unfolding CheckConnection_def conn_count_def by (simp split: prod.splits)
qed

lemma NewFirewall_rules [simp]: "same_rules cfg (NewFirewall cfg)" "conn_count u (NewFirewall cfg) = 0"
  by (simp_all add: same_rules_def conn_count_def getConnCount_def NewFirewall_def)

text \<open>Tracked bytes in a row, all three clock readings of a call being the same moment.\<close>

fun track_run :: "string \<Rightarrow> (time \<times> int) list \<Rightarrow> firewall \<Rightarrow> bool list" where
  "track_run u [] fw = []"
| "track_run u ((t, n) # xs) fw =
     (case TrackBandwidth t t t u n fw of (b, fw') \<Rightarrow> b # track_run u xs fw')"

lemma track_run_window:
  "userBandwidth fw u = Some \<lparr>bytesUsed = b, bt_limit = l, windowStart = t0\<rparr> \<Longrightarrow>
   \<forall>(t, n) \<in> set xs. t \<le> t0 + 1000000000 \<Longrightarrow>
   track_run u xs fw =
     map (\<lambda>i. l \<le> 0 \<or> b + sum_list (map snd (take (Suc i) xs)) \<le> l) [0..<length xs]"
proof (induction xs arbitrary: fw b)
  case (Cons x xs)
  obtain t n where x: "x = (t, n)" by (cases x)
  define fw' where
    "fw' = fw\<lparr>userBandwidth := (userBandwidth fw)(u \<mapsto> \<lparr>bytesUsed = b + n, bt_limit = l, windowStart = t0\<rparr>)\<rparr>"
  have "TrackBandwidth t t t u n fw = (l \<le> 0 \<or> b + n \<le> l, fw')"
    using Cons.prems by (auto simp: TrackBandwidth_def Let_def x fw'_def)
  moreover have "userBandwidth fw' u = Some \<lparr>bytesUsed = b + n, bt_limit = l, windowStart = t0\<rparr>"
    by (simp add: fw'_def)
  ultimately show ?case
    using Cons.IH [of fw' "b + n"] Cons.prems
    by (simp add: x upt_conv_Cons map_Suc_upt [symmetric] comp_def add.assoc del: upt_Suc)
qed simp

text \<open>Sessions that check and connect without another goroutine in between.\<close>

datatype session_op = Open string string u16 "user_record option" | Shut string

fun session_step :: "firewall \<Rightarrow> session_op \<Rightarrow> firewall" where
  "session_step fw (Open u a p r) =
     (case CheckConnection u a p r fw of (ok, fw') \<Rightarrow> if ok then OnConnect u fw' else fw')"
| "session_step fw (Shut u) = OnDisconnect u fw"

lemma check_count [simp]: "conn_count v (snd (CheckConnection u a p r fw)) = conn_count v fw"
  using check_state [of u a p r fw] by auto

lemma check_rules: "same_rules cfg fw \<Longrightarrow> same_rules cfg (snd (CheckConnection u a p r fw))"
  using fwall_step_rules [of cfg fw "CheckOp u a p r"] by simp

lemma session_step_bound:
  assumes "same_rules cfg fw" "0 < fc_max_conns cfg" "conn_count u fw \<le> fc_max_conns cfg"
  shows "same_rules cfg (session_step fw op) \<and> conn_count u (session_step fw op) \<le> fc_max_conns cfg"
proof (cases op)
  case (Open v a p r)
  obtain ok fw' where c: "CheckConnection v a p r fw = (ok, fw')" by fastforce
  have "same_rules cfg fw'" "conn_count u fw' = conn_count u fw"
    using check_rules [OF assms(1), of v a p r] check_count [of u v a p r fw] c by auto
  moreover have "ok \<Longrightarrow> conn_count v fw < fc_max_conns cfg"
    using check_decision [OF assms(1), of v a p r] assms(2) c by auto
  ultimately show ?thesis
    using Open c assms(3) by (auto simp: OnConnect_def same_rules_def)
qed (use assms in \<open>auto simp: OnDisconnect_def same_rules_def\<close>)

section \<open>Properties\<close>

text \<open>C21. What the firewall lets through, after any history. A destination passes precisely when its
  port is not blocked, is in one of the user's ranges if the user has any, the address is not
  the text of a private IP (unless those are allowed), and the user holds fewer connections
  than the limit, where the number held is the connects minus the disconnects so far.\<close>

theorem firewall_decision:
  "fst (CheckConnection uid a p user (fwall_run cfg ops)) \<longleftrightarrow>
    p \<notin> set (fc_blocked cfg) \<and>
    (case user of None \<Rightarrow> True
     | Some u \<Rightarrow> u_ports u = [] \<or> port_allowed (u_ports u) p) \<and>
    (fc_allow_private cfg \<or> (case parse_ip a of None \<Rightarrow> True | Some ip \<Rightarrow> \<not> private_ip ip)) \<and>
    (fc_max_conns cfg \<le> 0 \<or> held uid ops < fc_max_conns cfg)"
  using check_decision [OF fwall_run_rules [OF NewFirewall_rules(1)], of uid a p user cfg ops]
    fwall_run_count [of uid "NewFirewall cfg" ops]
  by (auto simp: port_allowed_def list_ex_iff split: option.splits)

text \<open>No address header reaches a private network. Whatever four or sixteen address bytes a client
  puts on the wire, if they are a private address, in plain or IPv4-mapped form, then the text
  \<open>DecodeAddress\<close> makes of them is refused: printing and parsing the address again does not
  change what it denotes.\<close>

theorem private_headers_blocked:
  assumes "\<not> fc_allow_private cfg"
    and "t = AddrIPv4 \<and> length q = 4 \<or> t = AddrIPv6 \<and> length q = 16" and "private_ip q"
  shows "\<exists>a. DecodeAddress (t # q @ be16 port @ rest) = Ok ((t, a, port), rest) \<and>
    \<not> fst (CheckConnection uid a port user (fwall_run cfg ops))"
proof -
  have d: "DecodeAddress (t # q @ be16 port @ rest) = Ok ((t, ip_string q, port), rest)"
    using assms(2) decode_encode_norm [of t "ip_string q" port rest]
    by (auto simp: known_addr_type_def EncodeAddress_ip4 EncodeAddress_ip6 norm_address_ip_string)
  have len: "length q = 4 \<or> length q = 16" using assms(2) by auto
  obtain x where x: "parse_ip (ip_string q) = Some x"
    using len by (auto simp: parse_ip_ip_string to16_def)
  have "private_ip x" using private_text [OF len x, of cfg] private_parsed [OF x, of cfg] assms(3) by simp
  then show ?thesis
    using d x assms(1) check_decision [OF fwall_run_rules [OF NewFirewall_rules(1)],
        of uid "ip_string q" port user cfg ops] by auto
qed

theorem private_headers_blocked_witness:
  "\<exists>a. DecodeAddress (AddrIPv6 # (v4in6_prefix @ [127, 0, 0, 1]) @ be16 80 @ [9]) = Ok ((AddrIPv6, a, 80), [9]) \<and>
    \<not> fst (CheckConnection ''u'' a 80 None (fwall_run DefaultFirewallConfig [ConnectOp ''u'']))"
  by (rule private_headers_blocked)
     (simp_all add: DefaultFirewallConfig_def v4in6_prefix_def private_ip_def to4_def)

text \<open>The bandwidth window. Of the transfers tracked for a user within the second after the first
  one, each is reported as within the limit precisely when the bytes tracked so far, itself
  included, do not exceed the default limit (or there is none).\<close>

theorem bandwidth_window:
  assumes "userBandwidth fw u = None" and "\<forall>(t, n) \<in> set xs. t \<le> t0 + 1000000000"
  shows "track_run u ((t0, n0) # xs) fw =
    map (\<lambda>i. fc_max_bandwidth (fw_config fw) \<le> 0 \<or>
             sum_list (map snd (take (Suc i) ((t0, n0) # xs))) \<le> fc_max_bandwidth (fw_config fw))
        [0..<Suc (length xs)]"
proof -
  let ?l = "fc_max_bandwidth (fw_config fw)"
  define fw' where
    "fw' = fw\<lparr>userBandwidth := (userBandwidth fw)(u \<mapsto> \<lparr>bytesUsed = n0, bt_limit = ?l, windowStart = t0\<rparr>)\<rparr>"
  have "TrackBandwidth t0 t0 t0 u n0 fw = (?l \<le> 0 \<or> n0 \<le> ?l, fw')"
    using assms(1) by (auto simp: TrackBandwidth_def Let_def fw'_def)
  moreover have "userBandwidth fw' u = Some \<lparr>bytesUsed = n0, bt_limit = ?l, windowStart = t0\<rparr>"
    by (simp add: fw'_def)
  ultimately show ?thesis
    using track_run_window [of fw' u n0 ?l t0 xs] assms(2)
    by (simp add: upt_conv_Cons map_Suc_upt [symmetric] comp_def del: upt_Suc)
qed

theorem bandwidth_window_witness:
  "track_run ''u'' [(0, 60), (5, 40), (9, 1)]
     (NewFirewall (DefaultFirewallConfig\<lparr>fc_max_bandwidth := 100\<rparr>)) = [True, True, False]"
  using bandwidth_window [of "NewFirewall (DefaultFirewallConfig\<lparr>fc_max_bandwidth := 100\<rparr>)" "''u''"
      "[(5, 40), (9, 1)]" 0 60]
  by (simp add: NewFirewall_def)

text \<open>C32. The connection limit, and what it takes. As long as no other goroutine runs between a
  session's check and its connect, no user ever holds more connections than the limit; but the
  two are separate steps, and two sessions that both check before either connects take the
  user past it.\<close>

theorem connection_limit:
  assumes "0 < fc_max_conns cfg"
  shows "conn_count u (foldl session_step (NewFirewall cfg) ops) \<le> fc_max_conns cfg \<and>
    (\<forall>fw a p. same_rules cfg fw \<longrightarrow> conn_count u fw = fc_max_conns cfg - 1 \<longrightarrow>
       fst (CheckConnection u a p None fw) \<longrightarrow>
       (let fw1 = snd (CheckConnection u a p None fw);
            (ok2, fw2) = CheckConnection u a p None fw1
        in ok2 \<and> conn_count u (OnConnect u (OnConnect u fw2)) = fc_max_conns cfg + 1))"
proof (intro conjI allI impI)
  have "same_rules cfg (foldl session_step fw ops) \<and>
      conn_count u (foldl session_step fw ops) \<le> fc_max_conns cfg"
    if "same_rules cfg fw" "conn_count u fw \<le> fc_max_conns cfg" for fw
    using that
  proof (induction ops arbitrary: fw)
    case (Cons op ops)
    then show ?case using session_step_bound [OF Cons.prems(1) assms Cons.prems(2), of op] by simp
  qed simp
  then show "conn_count u (foldl session_step (NewFirewall cfg) ops) \<le> fc_max_conns cfg"
    using assms by simp
next
  fix fw a p
  assume r: "same_rules cfg fw" and c: "conn_count u fw = fc_max_conns cfg - 1"
    and ok: "fst (CheckConnection u a p None fw)"
  define fw1 where "fw1 = snd (CheckConnection u a p None fw)"
  obtain ok2 fw2 where s: "CheckConnection u a p None fw1 = (ok2, fw2)" by fastforce
  have r1: "same_rules cfg fw1" "conn_count u fw1 = conn_count u fw"
    using check_rules [OF r] by (simp_all add: fw1_def)
  have "ok2" using ok check_decision [OF r] check_decision [OF r1(1), of u a p None] r1(2) s by auto
  moreover have "conn_count u fw2 = conn_count u fw"
    using check_count [of u u a p None fw1] s r1(2) by simp
  ultimately show "let fw1 = snd (CheckConnection u a p None fw);
            (ok2, fw2) = CheckConnection u a p None fw1
        in ok2 \<and> conn_count u (OnConnect u (OnConnect u fw2)) = fc_max_conns cfg + 1"
    using s c by (simp add: OnConnect_def fw1_def Let_def)
qed

theorem connection_limit_witness:
  "conn_count ''u'' (foldl session_step (NewFirewall DefaultFirewallConfig)
     [Open ''u'' ''8.8.8.8'' 443 None, Shut ''u'', Open ''u'' ''x.y'' 443 None]) \<le> 2000"
  using connection_limit [of DefaultFirewallConfig "''u''"
      "[Open ''u'' ''8.8.8.8'' 443 None, Shut ''u'', Open ''u'' ''x.y'' 443 None]"]
  by (simp add: DefaultFirewallConfig_def)

end
