(* ===== verification/Redstone.thy ===== *)
theory Redstone
  imports Framing Auth Codec
begin

text \<open>
  \<^verbatim>\<open>core/transport/redstone.go\<close>: the tunnel that looks like a Minecraft server. Variable-length
  integers, packets, the tunnel connection \<open>mc_conn\<close> that carries a byte stream in packets,
  the handshake, and the server's and client's side of the opening exchange. The functions
  that read are generic in the reader under the \<^verbatim>\<open>bufio.Reader\<close>, the ones that write in the
  writer.
\<close>

section \<open>Variable-length integers\<close>

definition mc_tunnel_id :: int where "mc_tunnel_id = 0x17"
definition mc_max_packet :: int where "mc_max_packet = 2 * 1024 * 1024"
definition mc_chunk_size :: nat where "mc_chunk_size = 16 * 1024"
definition mc_default_proto :: int where "mc_default_proto = 765"
definition mc_default_ver :: string where "mc_default_ver = ''1.20.4''"
definition mc_default_motd :: string where "mc_default_motd = ''A Minecraft Server''"

text \<open>The three errors the file makes itself.\<close>

definition varint_too_long :: io_error where "varint_too_long = IOFail 101"
definition varint_failed :: io_error where "varint_failed = IOFail 102"
definition bad_packet_length :: io_error where "bad_packet_length = IOFail 103"

lemma drop7: "unat (drop_bit 7 u :: u32) = unat u div 128"
  by (simp only: unat_drop_bit_eq) (simp add: drop_bit_eq_div)

function varint_bytes :: "u32 \<Rightarrow> bytes" where
  "varint_bytes u =
     (let b = ucast (u AND 0x7F) :: byte; u' = drop_bit 7 u
      in if u' \<noteq> 0 then (b OR 0x80) # varint_bytes u' else [b])"
  by pat_completeness auto
termination
proof (relation "measure unat")
  fix u u' :: u32 and b :: byte
  assume u': "u' = drop_bit 7 u" "u' \<noteq> 0"
  then have "unat u div 128 \<noteq> 0" using drop7 [of u] by (metis unat_eq_zero)
  then have "unat u div 128 < unat u" by simp
  then show "(u', u) \<in> measure unat" using u' drop7 by simp
qed simp

declare varint_bytes.simps [simp del]

definition mc_append_varint :: "bytes \<Rightarrow> int \<Rightarrow> bytes" where
  "mc_append_varint buf v = buf @ varint_bytes (word_of_int v)"

fun decode_varint_loop :: "nat \<Rightarrow> u32 \<Rightarrow> bytes \<Rightarrow> (int \<times> nat) option" where
  "decode_varint_loop i result [] = None"
| "decode_varint_loop i result (b # bs) =
     (if 5 \<le> i then None
      else let r = result OR push_bit (7 * i) (ucast (b AND 0x7F)) in
        if b AND 0x80 = 0 then Some (sint r, i + 1) else decode_varint_loop (Suc i) r bs)"

definition mc_decode_varint :: "bytes \<Rightarrow> (int \<times> nat) option" where
  "mc_decode_varint data = decode_varint_loop 0 0 data"

text \<open>The same loop on a reader; \<^verbatim>\<open>ReadByte\<close> is a read of one byte.\<close>

fun read_varint_loop ::
  "(nat \<Rightarrow> 's \<Rightarrow> io_read \<times> 's) \<Rightarrow> nat \<Rightarrow> nat \<Rightarrow> u32 \<Rightarrow> 's \<Rightarrow> ((io_error, int) outcome \<times> 's) option"
where
  "read_varint_loop rd 0 shift result s = Some (Err varint_too_long, s)"
| "read_varint_loop rd (Suc n) shift result s =
     (case read_full rd 1 s of
        None \<Rightarrow> None
      | Some (Err e, s') \<Rightarrow> Some (Err e, s')
      | Some (Panic, s') \<Rightarrow> Some (Panic, s')
      | Some (Ok bs, s') \<Rightarrow>
          let b = hd bs; r = result OR push_bit shift (ucast (b AND 0x7F)) in
          if b AND 0x80 = 0 then Some (Ok (sint r), s')
          else read_varint_loop rd n (shift + 7) r s')"

definition mc_read_varint ::
  "(nat \<Rightarrow> 's \<Rightarrow> io_read \<times> 's) \<Rightarrow> 's \<Rightarrow> ((io_error, int) outcome \<times> 's) option" where
  "mc_read_varint rd s = read_varint_loop rd 5 0 0 s"

definition mc_append_string :: "bytes \<Rightarrow> string \<Rightarrow> bytes" where
  "mc_append_string buf s = mc_append_varint buf (int (length s)) @ str_bytes s"

lemma low7: "(u AND 0x7F :: 'a::len word) = take_bit 7 u"
proof -
  have "(0x7F :: 'a word) = mask 7" by (simp add: mask_eq_exp_minus_1)
  then show ?thesis by (simp add: take_bit_eq_mask)
qed

lemma bit7: "(b AND 0x80 = (0 :: byte)) \<longleftrightarrow> \<not> bit b 7"
proof -
  have "(0x80 :: byte) = 2 ^ 7" by simp
  then show ?thesis by (simp only: and_exp_eq_0_iff_not_bit)
qed

lemma or80: "(b OR 0x80 :: byte) = b OR 2 ^ 7"
  by simp

lemma ucast_take7: "take_bit 7 ((ucast (take_bit 7 u) OR 2 ^ 7) :: byte) = (ucast (take_bit 7 (u :: u32)) :: byte)"
  by (rule bit_word_eqI) (auto simp: bit_simps)

lemma not_bit7: "\<not> bit (ucast (take_bit 7 (u :: u32)) :: byte) 7"
  by (simp add: bit_simps)

lemma bit7_or: "bit (b OR 2 ^ 7 :: byte) 7"
  by (simp add: bit_simps)

lemma ucast_ucast7: "(ucast (ucast (take_bit 7 (u :: u32)) :: byte) :: u32) = take_bit 7 u"
  by (rule bit_word_eqI) (auto simp: bit_simps)

lemma push_split: "push_bit k (take_bit 7 u) OR push_bit (k + 7) (drop_bit 7 u) = push_bit k (u :: u32)"
proof (rule bit_word_eqI)
  fix n
  show "bit (push_bit k (take_bit 7 u) OR push_bit (k + 7) (drop_bit 7 u)) n \<longleftrightarrow> bit (push_bit k u) n"
    by (cases "n < k + 7") (auto simp: bit_simps)
qed

lemma drop7_zero: "drop_bit 7 (u :: u32) = 0 \<Longrightarrow> take_bit 7 u = u"
  using bits_ident [of 7 u] by simp

text \<open>
  Decoding what was encoded, from the \<open>i\<close>-th digit on: the digits still to come fit.
\<close>

lemma decode_varint_bytes:
  assumes "i < 5" "unat u < 2 ^ (35 - 7 * i)"
  shows "decode_varint_loop i res (varint_bytes u @ r) =
      Some (sint (res OR push_bit (7 * i) u), i + length (varint_bytes u)) \<and>
    i + length (varint_bytes u) \<le> 5"
  using assms
proof (induction u arbitrary: i res rule: varint_bytes.induct)
  case (1 u)
  define b where "b = (ucast (take_bit 7 u) :: byte)"
  have b: "b AND 0x80 = 0" "(b OR 0x80) AND 0x80 \<noteq> 0"
    "(ucast (b AND 0x7F) :: u32) = take_bit 7 u" "(ucast ((b OR 0x80) AND 0x7F) :: u32) = take_bit 7 u"
    unfolding low7 bit7 or80
    using not_bit7 [of u] bit7_or [of b] ucast_take7 [of u] ucast_ucast7 [of u]
    by (auto simp: b_def take_bit_take_bit)
  have unf: "varint_bytes u =
      (if drop_bit 7 u \<noteq> 0 then (b OR 0x80) # varint_bytes (drop_bit 7 u) else [b])"
    by (subst varint_bytes.simps) (simp add: low7 b_def Let_def)
  show ?case
  proof (cases "drop_bit 7 u = 0")
    case True
    then show ?thesis using "1.prems"(1) unf b drop7_zero [OF True] by (simp add: Let_def)
  next
    case False
    have small: "unat (drop_bit 7 u) < 2 ^ (35 - 7 * Suc i)"
    proof -
      define k where "k = 35 - 7 * Suc i"
      then have "35 - 7 * i = k + 7" using "1.prems"(1) by simp
      then have "unat u < 2 ^ k * 128" using "1.prems"(2) by (simp add: power_add)
      then show ?thesis unfolding drop7 k_def [symmetric] by (rule less_mult_imp_div_less)
    qed
    have i: "Suc i < 5"
    proof (rule ccontr)
      assume "\<not> Suc i < 5"
      then have "35 - 7 * Suc i = 0" using "1.prems"(1) by simp
      then have "unat (drop_bit 7 u) < 1" using small by (simp only: power_0)
      then show False using False by (simp add: unat_eq_zero)
    qed
    have "decode_varint_loop (Suc i) (res OR push_bit (7 * i) (take_bit 7 u)) (varint_bytes (drop_bit 7 u) @ r) =
        Some (sint (res OR push_bit (7 * i) (take_bit 7 u) OR push_bit (7 * Suc i) (drop_bit 7 u)),
          Suc i + length (varint_bytes (drop_bit 7 u))) \<and> Suc i + length (varint_bytes (drop_bit 7 u)) \<le> 5"
      using "1.IH" [OF refl refl False i small] by (simp add: or.assoc)
    moreover have "push_bit (7 * i) (take_bit 7 u) OR push_bit (7 * Suc i) (drop_bit 7 u) = push_bit (7 * i) u"
      using push_split [of "7 * i" u] by (simp add: add.commute)
    ultimately show ?thesis using False unf b "1.prems"(1) by (simp add: Let_def or.assoc)
  qed
qed

lemma decode_append_varint:
  assumes "- (2 ^ 31) \<le> v" "v < 2 ^ 31"
  shows "mc_decode_varint (mc_append_varint [] v @ r) = Some (v, length (mc_append_varint [] v))"
proof -
  have "sint (word_of_int v :: u32) = v"
    using assms by (simp add: sint_sbintrunc' signed_take_bit_int_eq_self)
  moreover have "unat (word_of_int v :: u32) < 2 ^ (35 - 7 * 0)"
    using unsigned_less [where ?'a = nat and w = "word_of_int v :: u32"] by simp
  ultimately show ?thesis
    using decode_varint_bytes [of 0 "word_of_int v" 0 r]
    by (simp add: mc_decode_varint_def mc_append_varint_def)
qed

section \<open>Packets\<close>

definition mc_packet :: "int \<Rightarrow> bytes \<Rightarrow> bytes" where
  "mc_packet packetID data =
     (let pkt = mc_append_varint [] packetID @ data
      in mc_append_varint [] (int (length pkt)) @ pkt)"

definition mc_write_packet ::
  "(bytes \<Rightarrow> 'w \<Rightarrow> io_error option \<times> 'w) \<Rightarrow> int \<Rightarrow> bytes \<Rightarrow> 'w \<Rightarrow> io_error option \<times> 'w" where
  "mc_write_packet wr packetID data w = wr (mc_packet packetID data) w"

definition mc_read_packet ::
  "(nat \<Rightarrow> 's \<Rightarrow> io_read \<times> 's) \<Rightarrow> 's \<Rightarrow> ((io_error, int \<times> bytes) outcome \<times> 's) option" where
  "mc_read_packet rd s =
     (case mc_read_varint rd s of
        None \<Rightarrow> None
      | Some (Err e, s') \<Rightarrow> Some (Err e, s')
      | Some (Panic, s') \<Rightarrow> Some (Panic, s')
      | Some (Ok n, s') \<Rightarrow>
          if n \<le> 0 \<or> mc_max_packet < n then Some (Err bad_packet_length, s')
          else (case read_full rd (nat n) s' of
            None \<Rightarrow> None
          | Some (Err e, s'') \<Rightarrow> Some (Err e, s'')
          | Some (Panic, s'') \<Rightarrow> Some (Panic, s'')
          | Some (Ok data, s'') \<Rightarrow>
              (case mc_decode_varint data of
                 None \<Rightarrow> Some (Err varint_failed, s'')
               | Some (pid, k) \<Rightarrow> Some (Ok (pid, drop k data), s''))))"

text \<open>
  The reference decoders on a byte string that ends with the error \<open>e\<close>: a variable-length
  integer, and a packet.
\<close>

fun dec_varint :: "io_error \<Rightarrow> nat \<Rightarrow> nat \<Rightarrow> u32 \<Rightarrow> bytes \<Rightarrow> (io_error, int \<times> bytes) outcome" where
  "dec_varint e 0 shift result bs = Err varint_too_long"
| "dec_varint e (Suc n) shift result [] = Err e"
| "dec_varint e (Suc n) shift result (b # bs) =
     (let r = result OR push_bit shift (ucast (b AND 0x7F)) in
      if b AND 0x80 = 0 then Ok (sint r, bs) else dec_varint e n (shift + 7) r bs)"

definition dec_packet :: "io_error \<Rightarrow> bytes \<Rightarrow> (io_error, (int \<times> bytes) \<times> bytes) outcome" where
  "dec_packet e bs =
     (case dec_varint e 5 0 0 bs of
        Err x \<Rightarrow> Err x
      | Panic \<Rightarrow> Panic
      | Ok (n, r) \<Rightarrow>
          if n \<le> 0 \<or> mc_max_packet < n then Err bad_packet_length
          else if length r < nat n then Err (short_error r e)
          else (case mc_decode_varint (take (nat n) r) of
            None \<Rightarrow> Err varint_failed
          | Some (pid, k) \<Rightarrow> Ok ((pid, drop k (take (nat n) r)), drop (nat n) r)))"

definition packet_fits :: "int \<times> bytes \<Rightarrow> bool" where
  "packet_fits = (\<lambda>(pid, d). - (2 ^ 31) \<le> pid \<and> pid < 2 ^ 31 \<and>
     int (length (mc_append_varint [] pid @ d)) \<le> mc_max_packet)"

lemma dec_varint_length: "dec_varint e n sh res bs = Ok (v, r) \<Longrightarrow> length r < length bs"
  by (induction e n sh res bs rule: dec_varint.induct) (auto simp: Let_def split: if_splits)

lemma dec_varint_loop:
  "decode_varint_loop i res bs = Some (v, k) \<Longrightarrow> i + n = 5 \<Longrightarrow>
   dec_varint e n (7 * i) res bs = Ok (v, drop (k - i) bs) \<and> i < k \<and> k - i \<le> length bs"
proof (induction i res bs arbitrary: n rule: decode_varint_loop.induct)
  case (2 i res b bs)
  then obtain m where n: "n = Suc m" by (cases n) (auto split: if_splits)
  show ?case
  proof (cases "b AND 0x80 = 0")
    case True
    then show ?thesis using 2(2,3) n by (auto simp: Let_def split: if_splits)
  next
    case False
    define r where "r = res OR push_bit (7 * i) (ucast (b AND 0x7F))"
    have i: "\<not> 5 \<le> i" and rec: "decode_varint_loop (Suc i) r bs = Some (v, k)"
      using 2(2) False by (auto simp: Let_def r_def split: if_splits)
    have IH: "dec_varint e m (7 * Suc i) r bs = Ok (v, drop (k - Suc i) bs) \<and> Suc i < k \<and>
        k - Suc i \<le> length bs"
      using 2(1) [OF i r_def False rec, of m] 2(3) n by simp
    moreover from IH have "k - i = Suc (k - Suc i)" by linarith
    then have "drop (k - Suc i) bs = drop (k - i) (b # bs)" by simp
    ultimately show ?thesis using False n by (auto simp: Let_def r_def add.commute)
  qed
qed simp

lemma varint_bytes_not_Nil [simp]: "varint_bytes u \<noteq> []"
  by (subst varint_bytes.simps) (simp add: Let_def)

lemma dec_append_varint:
  assumes "- (2 ^ 31) \<le> v" "v < 2 ^ 31"
  shows "dec_varint e 5 0 0 (mc_append_varint [] v @ r) = Ok (v, r)"
  using dec_varint_loop [of 0 0 "mc_append_varint [] v @ r" v "length (mc_append_varint [] v)" 5 e]
    decode_append_varint [OF assms, of r] by (simp add: mc_decode_varint_def)

interpretation mc_codec: codec "dec_packet e" "\<lambda>(pid, d). mc_packet pid d" packet_fits for e
proof unfold_locales
  show "length r < length bs" if "dec_packet e bs = Ok (x, r)" for bs x r
    using that dec_varint_length [of e 5 0 0 bs]
    by (fastforce simp: dec_packet_def split: outcome.splits if_splits option.splits prod.splits)
  show "dec_packet e ((case x of (pid, d) \<Rightarrow> mc_packet pid d) @ r) = Ok (x, r)"
    if "packet_fits x" for x r
  proof -
    obtain pid d where x: "x = (pid, d)" by (cases x)
    let ?pkt = "mc_append_varint [] pid @ d"
    have fit: "- (2 ^ 31) \<le> pid" "pid < 2 ^ 31" "int (length ?pkt) \<le> mc_max_packet"
      using that by (simp_all add: x packet_fits_def)
    have pos: "0 < int (length ?pkt)" by (simp add: mc_append_varint_def add_pos_nonneg)
    have "dec_varint e 5 0 0 (mc_packet pid d @ r) = Ok (int (length ?pkt), ?pkt @ r)"
      using dec_append_varint [of "int (length ?pkt)" e "?pkt @ r"] fit
      by (simp add: mc_packet_def mc_max_packet_def)
    then show ?thesis
      using fit pos decode_append_varint [OF fit(1,2), of d] x
      by (simp add: dec_packet_def)
  qed
qed

section \<open>Reading packets off a connection\<close>

definition packet_result :: "(io_error, 'a \<times> bytes) outcome \<Rightarrow> (io_error, 'a) outcome" where
  "packet_result r = map_outcome fst r"

locale mc_source = byte_reader rd valid pending fate weight
  for rd :: "nat \<Rightarrow> 's \<Rightarrow> io_read \<times> 's" and valid pending fate weight
begin

lemma read_varint_dec:
  "valid s \<Longrightarrow> \<exists>s'. read_varint_loop rd n sh res s =
      Some (packet_result (dec_varint (fate s) n sh res (pending s)), s') \<and>
    valid s' \<and> fate s' = fate s \<and> length (pending s') \<le> length (pending s) \<and>
    (\<forall>v r. dec_varint (fate s) n sh res (pending s) = Ok (v, r) \<longrightarrow> pending s' = r)"
proof (induction n arbitrary: sh res s)
  case 0
  then show ?case by (auto simp: packet_result_def)
next
  case (Suc n)
  obtain s1 where s1: "read_full rd 1 s = Some (fst (take_full 1 (fate s) (pending s)), s1)"
    "valid s1" "fate s1 = fate s" "pending s1 = snd (take_full 1 (fate s) (pending s))"
    using read_full_take [OF Suc.prems] .
  show ?case
  proof (cases "pending s")
    case Nil
    then show ?thesis using s1 by (simp add: take_full_def short_error_def packet_result_def)
  next
    case (Cons b bs)
    let ?r = "res OR push_bit sh (ucast (b AND 0x7F))"
    have t: "take_full 1 (fate s) (pending s) = (Ok [b], bs)" using Cons by (simp add: take_full_def)
    show ?thesis
    proof (cases "b AND 0x80 = 0")
      case True
      then show ?thesis using s1 t Cons by (simp add: packet_result_def Let_def)
    next
      case False
      then show ?thesis
        using Suc.IH [OF s1(2), of "sh + 7" ?r] s1 t Cons by (auto simp: Let_def)
    qed
  qed
qed

lemma read_packet_dec:
  assumes v: "valid s"
  obtains s' where "mc_read_packet rd s = Some (packet_result (dec_packet (fate s) (pending s)), s')"
    and "valid s'" and "fate s' = fate s" and "length (pending s') \<le> length (pending s)"
    and "\<And>x r. dec_packet (fate s) (pending s) = Ok (x, r) \<Longrightarrow> pending s' = r"
proof -
  let ?d = "dec_varint (fate s) 5 0 0 (pending s)"
  obtain s1 where s1: "mc_read_varint rd s = Some (packet_result ?d, s1)" "valid s1" "fate s1 = fate s"
    "length (pending s1) \<le> length (pending s)" "\<forall>v r. ?d = Ok (v, r) \<longrightarrow> pending s1 = r"
    using read_varint_dec [OF v, of 5 0 0] unfolding mc_read_varint_def by blast
  show thesis
  proof (cases ?d)
    case (Ok x)
    obtain n r where x: "x = (n, r)" by (cases x)
    have p1: "pending s1 = r" using s1(5) Ok x by simp
    show thesis
    proof (cases "n \<le> 0 \<or> mc_max_packet < n")
      case True
      then show thesis
        using that [of s1] s1 Ok x by (simp add: mc_read_packet_def packet_result_def dec_packet_def)
    next
      case False
      obtain s2 where s2: "read_full rd (nat n) s1 = Some (fst (take_full (nat n) (fate s) r), s2)"
        "valid s2" "fate s2 = fate s" "pending s2 = snd (take_full (nat n) (fate s) r)"
        using read_full_take [OF s1(2), of "nat n"] s1(3) p1 by metis
      note defs = mc_read_packet_def packet_result_def dec_packet_def take_full_def
      show thesis
      proof (cases "nat n \<le> length r")
        case short: False
        then show thesis using that [of s2] s1 s2 Ok x False by (simp add: defs)
      next
        case full: True
        show thesis
        proof (cases "mc_decode_varint (take (nat n) r)")
          case None
          then show thesis using that [of s2] s1 s2 Ok x False full by (simp add: defs)
        next
          case (Some q)
          obtain pid k where "q = (pid, k)" by (cases q)
          then show thesis using that [of s2] s1 s2 Ok x False full Some by (simp add: defs)
        qed
      qed
    qed
  qed (use that [of s1] s1 in \<open>auto simp: mc_read_packet_def packet_result_def dec_packet_def\<close>)
qed

end

section \<open>The tunnel connection\<close>

record 's mc_conn =
  mc_br :: 's
  mc_wid :: int
  mc_rbuf :: bytes

definition new_mc_conn :: "'s \<Rightarrow> 's mc_conn" where
  "new_mc_conn br = \<lparr>mc_br = br, mc_wid = mc_tunnel_id, mc_rbuf = []\<rparr>"

text \<open>
  \<^verbatim>\<open>mc_conn.Read\<close>: packets are read until one has a payload. The loop is a partial function;
  \<open>None\<close> is a read that never returns.
\<close>

partial_function (option) mc_read ::
  "(nat \<Rightarrow> 's \<Rightarrow> io_read \<times> 's) \<Rightarrow> nat \<Rightarrow> 's mc_conn \<Rightarrow> (io_read \<times> 's mc_conn) option"
where
  "mc_read rd n c =
     (if mc_rbuf c = [] then
        (case mc_read_packet rd (mc_br c) of
           None \<Rightarrow> None
         | Some (Err e, s) \<Rightarrow> Some (Fail e, c\<lparr>mc_br := s\<rparr>)
         | Some (Panic, s) \<Rightarrow> None
         | Some (Ok (_, payload), s) \<Rightarrow> mc_read rd n (c\<lparr>mc_br := s, mc_rbuf := payload\<rparr>))
      else Some (Got (take n (mc_rbuf c)), c\<lparr>mc_rbuf := drop n (mc_rbuf c)\<rparr>))"

text \<open>The same as a reader; a read that never returned would be an end of file.\<close>

definition mc_conn_read ::
  "(nat \<Rightarrow> 's \<Rightarrow> io_read \<times> 's) \<Rightarrow> nat \<Rightarrow> 's mc_conn \<Rightarrow> io_read \<times> 's mc_conn" where
  "mc_conn_read rd n c = (case mc_read rd n c of Some r \<Rightarrow> r | None \<Rightarrow> (Fail EOF, c))"

text \<open>\<^verbatim>\<open>mc_conn.Write\<close>: chunks of at most 16 KiB, one packet each.\<close>

function mc_chunks :: "bytes \<Rightarrow> bytes list" where
  "mc_chunks p = (if p = [] then [] else take mc_chunk_size p # mc_chunks (drop mc_chunk_size p))"
  by pat_completeness auto
termination by (relation "measure length") (auto simp: mc_chunk_size_def)

declare mc_chunks.simps [simp del]

fun mc_write_chunks ::
  "(bytes \<Rightarrow> 'w \<Rightarrow> io_error option \<times> 'w) \<Rightarrow> int \<Rightarrow> bytes list \<Rightarrow> nat \<Rightarrow> 'w \<Rightarrow>
   (nat \<times> io_error option) \<times> 'w"
where
  "mc_write_chunks wr wid [] sofar w = ((sofar, None), w)"
| "mc_write_chunks wr wid (chunk # cs) sofar w =
     (case mc_write_packet wr wid chunk w of
        (Some e, w') \<Rightarrow> ((sofar, Some e), w')
      | (None, w') \<Rightarrow> mc_write_chunks wr wid cs (sofar + length chunk) w')"

definition mc_write ::
  "(bytes \<Rightarrow> 'w \<Rightarrow> io_error option \<times> 'w) \<Rightarrow> int \<Rightarrow> bytes \<Rightarrow> 'w \<Rightarrow> (nat \<times> io_error option) \<times> 'w" where
  "mc_write wr wid p w = mc_write_chunks wr wid (mc_chunks p) 0 w"

lemma concat_mc_chunks [simp]: "concat (mc_chunks p) = p"
proof (induction p rule: mc_chunks.induct)
  case (1 p)
  then show ?case by (subst mc_chunks.simps) simp
qed

lemma mc_chunks_size: "c \<in> set (mc_chunks p) \<Longrightarrow> 0 < length c \<and> length c \<le> mc_chunk_size"
proof (induction p rule: mc_chunks.induct)
  case (1 p)
  then show ?case
    by (subst (asm) (2) mc_chunks.simps) (auto simp: mc_chunk_size_def split: if_splits)
qed

lemma chunk_fits: "c \<in> set (mc_chunks p) \<Longrightarrow> packet_fits (mc_tunnel_id, c)"
proof -
  have "length (mc_append_varint [] mc_tunnel_id) \<le> 5"
    using decode_varint_bytes [of 0 "word_of_int mc_tunnel_id" 0 "[]"]
    by (simp add: mc_append_varint_def mc_tunnel_id_def)
  then show "c \<in> set (mc_chunks p) \<Longrightarrow> ?thesis"
    using mc_chunks_size [of c p]
    by (auto simp: packet_fits_def mc_tunnel_id_def mc_max_packet_def mc_chunk_size_def)
qed

context byte_writer
begin

lemma mc_write_sent:
  "mc_write_chunks wr wid cs n w = ((m, None), w') \<Longrightarrow>
   m = n + length (concat cs) \<and> sent w' = sent w @ concat (map (mc_packet wid) cs)"
proof (induction cs arbitrary: n w)
  case (Cons c cs)
  obtain e w1 where w1: "wr (mc_packet wid c) w = (e, w1)" by fastforce
  then have e: "e = None"
    using Cons.prems by (auto simp: mc_write_packet_def split: option.splits)
  have "m = n + length c + length (concat cs)" "sent w' = sent w1 @ concat (map (mc_packet wid) cs)"
    using Cons.IH [of "n + length c" w1] Cons.prems w1 e by (simp_all add: mc_write_packet_def)
  then show ?case using write_ok [OF w1 [unfolded e]] by simp
qed simp

end

text \<open>
  On the receiving side: as long as what is pending is a sequence of whole packets, the tunnel
  connection is a reader of their payloads.
\<close>

lemma dec_packet_shrinks:
  "dec_packet e bs = Ok ((pid, d), r) \<Longrightarrow> length r + length d < length bs"
proof -
  assume ok: "dec_packet e bs = Ok ((pid, d), r)"
  then obtain n t where v: "dec_varint e 5 0 0 bs = Ok (n, t)" "\<not> length t < nat n" "r = drop (nat n) t"
    and d: "\<exists>k. d = drop k (take (nat n) t)"
    by (auto simp: dec_packet_def split: outcome.splits if_splits option.splits prod.splits)
  have "length t < length bs" using dec_varint_length [OF v(1)] .
  moreover have "length d \<le> nat n" using d by auto
  ultimately show ?thesis using v by simp
qed

lemma dec_packet_Nil [simp]: "dec_packet e [] = Err e"
  by (simp add: dec_packet_def numeral_eq_Suc)

definition payloads :: "io_error \<Rightarrow> bytes \<Rightarrow> bytes" where
  "payloads e bs = concat (map snd (fst (decode_all (dec_packet e) bs)))"

definition whole_packets :: "io_error \<Rightarrow> bytes \<Rightarrow> bool" where
  "whole_packets e bs \<longleftrightarrow> snd (decode_all (dec_packet e) bs) = []"

lemma payloads_step:
  "dec_packet e bs = Ok ((pid, d), r) \<Longrightarrow> payloads e bs = d @ payloads e r"
  "dec_packet e bs = Ok ((pid, d), r) \<Longrightarrow> whole_packets e bs = whole_packets e r"
  using mc_codec.decode_all_step [of e bs "(pid, d)" r]
  by (simp_all add: payloads_def whole_packets_def)

lemma payloads_stop:
  "\<not> is_ok (dec_packet e bs) \<Longrightarrow> payloads e bs = []"
  "\<not> is_ok (dec_packet e bs) \<Longrightarrow> whole_packets e bs \<longleftrightarrow> bs = []"
  using mc_codec.decode_all_stop [of e bs] by (simp_all add: payloads_def whole_packets_def)

lemma packets_written:
  assumes "\<forall>c \<in> set cs. packet_fits (wid, c)"
  shows "payloads e (concat (map (mc_packet wid) cs)) = concat cs"
    and "whole_packets e (concat (map (mc_packet wid) cs))"
proof -
  have *: "concat (map (\<lambda>(pid, d). mc_packet pid d) (map (Pair wid) cs)) = concat (map (mc_packet wid) cs)"
    by (simp add: comp_def)
  have "decode_all (dec_packet e) (concat (map (mc_packet wid) cs) @ []) = (map (Pair wid) cs, [])"
    using mc_codec.decode_all_concat [of "map (Pair wid) cs" e "[]"] assms
      mc_codec.decode_all_stop [of e "[]"] unfolding * by auto
  then show "payloads e (concat (map (mc_packet wid) cs)) = concat cs"
    and "whole_packets e (concat (map (mc_packet wid) cs))"
    by (simp_all add: payloads_def whole_packets_def comp_def)
qed

context mc_source
begin

definition tunnel_ok :: "'s mc_conn \<Rightarrow> bool" where
  "tunnel_ok c \<longleftrightarrow> valid (mc_br c) \<and> whole_packets (fate (mc_br c)) (pending (mc_br c))"

definition tunnel_pending :: "'s mc_conn \<Rightarrow> bytes" where
  "tunnel_pending c = mc_rbuf c @ payloads (fate (mc_br c)) (pending (mc_br c))"

definition tunnel_weight :: "'s mc_conn \<Rightarrow> nat" where
  "tunnel_weight c = length (mc_rbuf c) + length (pending (mc_br c))"

lemma mc_read_spec:
  assumes "tunnel_ok c"
  shows "\<exists>r c'. mc_read rd n c = Some (r, c') \<and> tunnel_ok c' \<and> fate (mc_br c') = fate (mc_br c) \<and>
    (case r of
       Got d \<Rightarrow> tunnel_pending c = d @ tunnel_pending c' \<and> length d \<le> n \<and>
         (0 < n \<longrightarrow> tunnel_weight c' < tunnel_weight c)
     | Fail e \<Rightarrow> tunnel_pending c = [] \<and> tunnel_pending c' = [] \<and> e = fate (mc_br c))"
  using assms
proof (induction "length (pending (mc_br c))" arbitrary: c rule: less_induct)
  case less
  show ?case
  proof (cases "mc_rbuf c = []")
    case False
    then show ?thesis
      using less.prems
      by (subst mc_read.simps) (auto simp: tunnel_ok_def tunnel_pending_def tunnel_weight_def)
  next
    case True
    let ?s = "mc_br c"
    have v: "valid ?s" using less.prems by (simp add: tunnel_ok_def)
    obtain s' where s': "mc_read_packet rd ?s = Some (packet_result (dec_packet (fate ?s) (pending ?s)), s')"
      "valid s'" "fate s' = fate ?s" "length (pending s') \<le> length (pending ?s)"
      "\<And>x r. dec_packet (fate ?s) (pending ?s) = Ok (x, r) \<Longrightarrow> pending s' = r"
      using read_packet_dec [OF v] by metis
    show ?thesis
    proof (cases "is_ok (dec_packet (fate ?s) (pending ?s))")
      case False
      then have "pending ?s = []"
        using less.prems payloads_stop(2) by (simp add: tunnel_ok_def)
      then have "mc_read rd n c = Some (Fail (fate ?s), c\<lparr>mc_br := s'\<rparr>)" "pending s' = []"
        using s'(1,4) True by (simp_all add: mc_read.simps [of rd n c] packet_result_def)
      then show ?thesis
        using s'(2,3) True \<open>pending ?s = []\<close>
        by (simp add: tunnel_ok_def tunnel_pending_def payloads_stop)
    next
      case ok: True
      then obtain pid d r where d: "dec_packet (fate ?s) (pending ?s) = Ok ((pid, d), r)"
        by (cases "dec_packet (fate ?s) (pending ?s)") auto
      define c1 where "c1 = c\<lparr>mc_br := s', mc_rbuf := d\<rparr>"
      have r: "pending s' = r" "length r + length d < length (pending ?s)"
        using s'(5) [OF d] dec_packet_shrinks [OF d] by auto
      have step: "mc_read rd n c = mc_read rd n c1"
        using True s'(1) d by (simp add: mc_read.simps [of rd n c] packet_result_def c1_def)
      have c1: "tunnel_ok c1" "tunnel_pending c1 = tunnel_pending c" "tunnel_weight c1 < tunnel_weight c"
        "fate (mc_br c1) = fate ?s" "length (pending (mc_br c1)) < length (pending ?s)"
        using less.prems payloads_step [OF d] s'(2,3) r True
        by (simp_all add: tunnel_ok_def tunnel_pending_def tunnel_weight_def c1_def)
      obtain rs c' where ih: "mc_read rd n c1 = Some (rs, c')" "tunnel_ok c'"
        "fate (mc_br c') = fate (mc_br c1)"
        "case rs of Got d \<Rightarrow> tunnel_pending c1 = d @ tunnel_pending c' \<and> length d \<le> n \<and>
            (0 < n \<longrightarrow> tunnel_weight c' < tunnel_weight c1)
          | Fail e \<Rightarrow> tunnel_pending c1 = [] \<and> tunnel_pending c' = [] \<and> e = fate (mc_br c1)"
        using less.hyps [OF c1(5) c1(1)] by blast
      show ?thesis
        by (intro exI [of _ rs] exI [of _ c']) (use ih step c1 in \<open>cases rs; auto\<close>)
    qed
  qed
qed

end

sublocale mc_source \<subseteq> tunnel: byte_reader "mc_conn_read rd" tunnel_ok tunnel_pending
  "\<lambda>c. fate (mc_br c)" tunnel_weight
proof unfold_locales
  fix c c' :: "'s mc_conn" and n d
  assume c: "tunnel_ok c" and r: "mc_conn_read rd n c = (Got d, c')"
  then show "tunnel_pending c = d @ tunnel_pending c'" "length d \<le> n" "fate (mc_br c') = fate (mc_br c)"
    using mc_read_spec [OF c, of n] by (auto simp: mc_conn_read_def)
next
  fix c c' :: "'s mc_conn" and n d
  assume c: "tunnel_ok c" and n: "0 < n" and r: "mc_conn_read rd n c = (Got d, c')"
  then show "tunnel_weight c' < tunnel_weight c"
    using mc_read_spec [OF c, of n] by (auto simp: mc_conn_read_def)
next
  fix c c' :: "'s mc_conn" and n e
  assume c: "tunnel_ok c" and r: "mc_conn_read rd n c = (Fail e, c')"
  then show "tunnel_pending c = [] \<and> tunnel_pending c' = [] \<and> e = fate (mc_br c) \<and>
      fate (mc_br c') = fate (mc_br c)"
    using mc_read_spec [OF c, of n] by (auto simp: mc_conn_read_def)
next
  fix c c' :: "'s mc_conn" and n r
  assume c: "tunnel_ok c" and r: "mc_conn_read rd n c = (r, c')"
  then show "tunnel_ok c'"
    using mc_read_spec [OF c, of n] by (auto simp: mc_conn_read_def)
qed

interpretation net_mc: mc_source conn_read "\<lambda>_. True" "\<lambda>c. concat (arriving c)" ending
  "\<lambda>c. length (arriving c) + length (concat (arriving c))"
  by unfold_locales

section \<open>The opening exchange\<close>

definition handshake_data :: "int \<Rightarrow> string \<Rightarrow> u16 \<Rightarrow> int \<Rightarrow> bytes" where
  "handshake_data protocolVersion host port nextState =
     mc_append_varint (mc_append_string (mc_append_varint [] protocolVersion) host @ be16 port) nextState"

definition mc_write_handshake ::
  "(bytes \<Rightarrow> 'w \<Rightarrow> io_error option \<times> 'w) \<Rightarrow> int \<Rightarrow> string \<Rightarrow> u16 \<Rightarrow> int \<Rightarrow> 'w \<Rightarrow> io_error option \<times> 'w" where
  "mc_write_handshake wr protocolVersion host port nextState w =
     mc_write_packet wr 0x00 (handshake_data protocolVersion host port nextState) w"

definition mc_write_login_start ::
  "(bytes \<Rightarrow> 'w \<Rightarrow> io_error option \<times> 'w) \<Rightarrow> string \<Rightarrow> 'w \<Rightarrow> io_error option \<times> 'w" where
  "mc_write_login_start wr username w = mc_write_packet wr 0x00 (mc_append_string [] username) w"

definition mc_write_login_success ::
  "(bytes \<Rightarrow> 'w \<Rightarrow> io_error option \<times> 'w) \<Rightarrow> bytes \<Rightarrow> string \<Rightarrow> 'w \<Rightarrow> io_error option \<times> 'w" where
  "mc_write_login_success wr uuid username w =
     mc_write_packet wr 0x02 (mc_append_varint (mc_append_string uuid username) 0) w"

text \<open>
  The alphabet is indexed by ten random bytes modulo its length.
\<close>

definition mc_random_username :: "bytes \<Rightarrow> string" where
  "mc_random_username rnd =
     (let alphabet = ''abcdefghijklmnopqrstuvwxyzABCDEFGHIJKLMNOPQRSTUVWXYZ0123456789_''
      in map (\<lambda>b. alphabet ! (unat b mod length alphabet)) rnd)"

datatype handshake_error = HandshakeVarint | HandshakeTooShort | HandshakeHostTruncated

text \<open>
  \<^verbatim>\<open>mc_parse_handshake\<close>. The length of the host comes off the wire as a signed 32-bit
  integer; the slice \<^verbatim>\<open>data[strLen+2:]\<close> with a negative bound is a run-time panic.
\<close>

definition mc_parse_handshake :: "bytes \<Rightarrow> (handshake_error, int) outcome" where
  "mc_parse_handshake data =
     (case mc_decode_varint data of
        None \<Rightarrow> Err HandshakeVarint
      | Some (_, n) \<Rightarrow>
          let data1 = drop n data in
          if length data1 < 1 then Err HandshakeTooShort
          else (case mc_decode_varint data1 of
            None \<Rightarrow> Err HandshakeVarint
          | Some (strLen, n') \<Rightarrow>
              let data2 = drop n' data1 in
              if int (length data2) < strLen + 2 then Err HandshakeHostTruncated
              else if strLen + 2 < 0 then Panic
              else (case mc_decode_varint (drop (nat (strLen + 2)) data2) of
                None \<Rightarrow> Err HandshakeVarint
              | Some (nextState, _) \<Rightarrow> Ok nextState)))"

record redstone_config =
  rc_enabled :: bool
  rc_motd :: string
  rc_version :: string
  rc_proto :: int

definition redstone_defaults :: "redstone_config \<Rightarrow> string \<times> string \<times> int" where
  "redstone_defaults cfg =
     (if rc_motd cfg = [] then mc_default_motd else rc_motd cfg,
      if rc_version cfg = [] then mc_default_ver else rc_version cfg,
      if rc_proto cfg = 0 then mc_default_proto else rc_proto cfg)"

text \<open>\<open>quote\<close> is Go's \<^verbatim>\<open>%q\<close>.\<close>

definition show_int :: "int \<Rightarrow> string" where
  "show_int i = (if i < 0 then CHR ''-'' # show_nat (nat (- i)) else show_nat (nat i))"

definition mc_status_json :: "(string \<Rightarrow> string) \<Rightarrow> string \<Rightarrow> string \<Rightarrow> int \<Rightarrow> string" where
  "mc_status_json quote motd version proto =
     ''{\"version\":{\"name\":'' @ quote version @ '',\"protocol\":'' @ show_int proto @
     ''},\"players\":{\"max\":20,\"online\":0,\"sample\":[]},\"description\":{\"text\":'' @
     quote motd @ ''}}''"

definition mc_handle_status ::
  "(nat \<Rightarrow> 's \<Rightarrow> io_read \<times> 's) \<Rightarrow> (bytes \<Rightarrow> 'w \<Rightarrow> io_error option \<times> 'w) \<Rightarrow> (string \<Rightarrow> string) \<Rightarrow>
   string \<Rightarrow> string \<Rightarrow> int \<Rightarrow> 's \<Rightarrow> 'w \<Rightarrow> ('s \<times> 'w) option" where
  "mc_handle_status rd wr quote motd version proto s w =
     (case mc_read_packet rd s of
        None \<Rightarrow> None
      | Some (Ok _, s1) \<Rightarrow>
          (case mc_write_packet wr 0x00
              (mc_append_string [] (mc_status_json quote motd version proto)) w of
             (Some _, w1) \<Rightarrow> Some (s1, w1)
           | (None, w1) \<Rightarrow>
               (case mc_read_packet rd s1 of
                  None \<Rightarrow> None
                | Some (Ok (pid, payload), s2) \<Rightarrow>
                    if pid = 0x01 then Some (s2, snd (mc_write_packet wr 0x01 payload w1)) else Some (s2, w1)
                | Some (_, s2) \<Rightarrow> Some (s2, w1)))
      | Some (_, s1) \<Rightarrow> Some (s1, w))"

text \<open>
  How \<^verbatim>\<open>redstone_serve\<close> ends: the connection closed, the process down, or \<^verbatim>\<open>on_tunnel\<close>
  called with the tunnel connection.
\<close>

datatype 's serve_end = ServeClosed | ServePanics | ServeTunnel "'s mc_conn"

definition redstone_serve ::
  "(nat \<Rightarrow> 's \<Rightarrow> io_read \<times> 's) \<Rightarrow> (bytes \<Rightarrow> 'w \<Rightarrow> io_error option \<times> 'w) \<Rightarrow> (string \<Rightarrow> string) \<Rightarrow>
   redstone_config \<Rightarrow> bytes \<Rightarrow> bytes \<Rightarrow> 's \<Rightarrow> 'w \<Rightarrow> ('s serve_end \<times> 'w) option" where
  "redstone_serve rd wr quote cfg rnd uuid s w =
     (case mc_read_packet rd s of
        None \<Rightarrow> None
      | Some (Ok (pid, data), s1) \<Rightarrow>
          if pid \<noteq> 0x00 then Some (ServeClosed, w)
          else (case mc_parse_handshake data of
            Err _ \<Rightarrow> Some (ServeClosed, w)
          | Panic \<Rightarrow> Some (ServePanics, w)
          | Ok nextState \<Rightarrow>
              (case redstone_defaults cfg of (motd, version, proto) \<Rightarrow>
                 if nextState = 1 then
                   map_option (\<lambda>(_, w'). (ServeClosed, w'))
                     (mc_handle_status rd wr quote motd version proto s1 w)
                 else if nextState = 2 then
                   (case mc_read_packet rd s1 of
                      None \<Rightarrow> None
                    | Some (Ok _, s2) \<Rightarrow>
                        (case mc_write_login_success wr uuid (mc_random_username rnd) w of
                           (Some _, w') \<Rightarrow> Some (ServeClosed, w')
                         | (None, w') \<Rightarrow> Some (ServeTunnel (new_mc_conn s2), w'))
                    | Some (_, s2) \<Rightarrow> Some (ServeClosed, w))
                 else Some (ServeClosed, w)))
      | Some (_, s1) \<Rightarrow> Some (ServeClosed, w))"

datatype dial_error =
    HandshakeWriteFailed io_error
  | LoginStartFailed io_error
  | LoginResponseFailed io_error
  | AuthGenerationFailed
  | AuthWriteFailed io_error
  | StatusReadFailed io_error
  | AuthenticationDenied
  | TargetConnectionFailed
  | BlockedByFirewall
  | ConnectError byte

definition dial_status :: "byte \<Rightarrow> (dial_error, unit) outcome" where
  "dial_status b =
     (if b = 0x00 then Ok ()
      else if b = 0x01 then Err AuthenticationDenied
      else if b = 0x02 then Err TargetConnectionFailed
      else if b = 0x03 then Err BlockedByFirewall
      else Err (ConnectError b))"

text \<open>
  \<^verbatim>\<open>redstone_dial\<close> once the TCP connection stands; \<open>hport\<close> is the port looked up from the
  server's address (25565 if that fails), \<open>rnd\<close> and \<open>nonce\<close> the random bytes of the user name
  and of the credentials.
\<close>

definition redstone_dial ::
  "(nat \<Rightarrow> 's \<Rightarrow> io_read \<times> 's) \<Rightarrow> (bytes \<Rightarrow> 'w \<Rightarrow> io_error option \<times> 'w) \<Rightarrow>
   string \<Rightarrow> u16 \<Rightarrow> string \<Rightarrow> time \<Rightarrow> bytes \<Rightarrow> bytes option \<Rightarrow> byte \<Rightarrow> string \<Rightarrow> u16 \<Rightarrow>
   's \<Rightarrow> 'w \<Rightarrow> ((dial_error, 's mc_conn) outcome \<times> 'w) option" where
  "redstone_dial rd wr host hport psk now rnd nonce addr_type addr port s w =
     (case mc_write_handshake wr mc_default_proto host hport 2 w of
        (Some e, w1) \<Rightarrow> Some (Err (HandshakeWriteFailed e), w1)
      | (None, w1) \<Rightarrow>
      (case mc_write_login_start wr (mc_random_username rnd) w1 of
        (Some e, w2) \<Rightarrow> Some (Err (LoginStartFailed e), w2)
      | (None, w2) \<Rightarrow>
      (case mc_read_packet rd s of
        None \<Rightarrow> None
      | Some (Panic, s1) \<Rightarrow> Some (Panic, w2)
      | Some (Err e, s1) \<Rightarrow> Some (Err (LoginResponseFailed e), w2)
      | Some (Ok _, s1) \<Rightarrow>
      (case GenerateAuthPayload psk now nonce of
        None \<Rightarrow> Some (Err AuthGenerationFailed, w2)
      | Some auth \<Rightarrow>
      (case mc_write wr mc_tunnel_id (auth @ EncodeAddress addr_type addr port) w2 of
        ((_, Some e), w3) \<Rightarrow> Some (Err (AuthWriteFailed e), w3)
      | ((_, None), w3) \<Rightarrow>
      (case read_full (mc_conn_read rd) 1 (new_mc_conn s1) of
        None \<Rightarrow> None
      | Some (Panic, c) \<Rightarrow> Some (Panic, w3)
      | Some (Err e, c) \<Rightarrow> Some (Err (StatusReadFailed e), w3)
      | Some (Ok status, c) \<Rightarrow>
          (case dial_status (hd status) of
             Ok _ \<Rightarrow> Some (Ok c, w3)
           | Err e \<Rightarrow> Some (Err e, w3)
           | Panic \<Rightarrow> Some (Panic, w3))))))))"

lemma append_varint: "mc_append_varint buf v = buf @ mc_append_varint [] v"
  by (simp add: mc_append_varint_def)

lemma parse_handshake_data:
  assumes "- (2 ^ 31) \<le> proto" "proto < 2 ^ 31" "int (length host) < 2 ^ 31"
    and "- (2 ^ 31) \<le> st" "st < 2 ^ 31"
  shows "mc_parse_handshake (handshake_data proto host port st) = Ok st"
proof -
  let ?p = "mc_append_varint [] proto" and ?l = "mc_append_varint [] (int (length host))"
    and ?s = "mc_append_varint [] st"
  have h: "handshake_data proto host port st = ?p @ ?l @ str_bytes host @ be16 port @ ?s"
    by (simp add: handshake_data_def mc_append_string_def mc_append_varint_def)
  have d1: "mc_decode_varint (?p @ ?l @ str_bytes host @ be16 port @ ?s) = Some (proto, length ?p)"
    using decode_append_varint [OF assms(1,2)] .
  have d2: "mc_decode_varint (?l @ str_bytes host @ be16 port @ ?s) = Some (int (length host), length ?l)"
    using decode_append_varint [of "int (length host)"] assms(3) by simp
  have d3: "mc_decode_varint ?s = Some (st, length ?s)"
    using decode_append_varint [OF assms(4,5), of "[]"] by simp
  have ne: "?l \<noteq> []" by (simp add: mc_append_varint_def)
  have dr: "drop (nat (int (length host) + 2)) (str_bytes host @ be16 port @ ?s) = ?s"
    by (simp add: nat_add_distrib)
  show ?thesis
    unfolding h mc_parse_handshake_def d1 using d2 d3 ne dr by (simp add: Let_def Suc_le_eq)
qed

lemma parse_handshake_panics:
  assumes "- (2 ^ 31) \<le> proto" "proto < 2 ^ 31" "- (2 ^ 31) \<le> n" "n < - 2"
  shows "mc_parse_handshake (mc_append_varint [] proto @ mc_append_varint [] n @ r) = Panic"
  using decode_append_varint [OF assms(1,2), of "mc_append_varint [] n @ r"]
    decode_append_varint [of n r] assms(3,4)
  by (simp add: mc_parse_handshake_def Let_def Suc_le_eq) (simp add: mc_append_varint_def)

text \<open>The three things an honest client sends before it hears back, and the tunnel's data.\<close>

definition hello_packets :: "string \<Rightarrow> u16 \<Rightarrow> bytes \<Rightarrow> (int \<times> bytes) list" where
  "hello_packets host hport rnd =
     [(0, handshake_data mc_default_proto host hport 2), (0, mc_append_string [] (mc_random_username rnd))]"

definition hello :: "string \<Rightarrow> u16 \<Rightarrow> bytes \<Rightarrow> bytes" where
  "hello host hport rnd = concat (map (\<lambda>(pid, d). mc_packet pid d) (hello_packets host hport rnd))"

lemma length_varint5: "length (mc_append_varint [] v) \<le> 5"
proof -
  have "unat (word_of_int v :: u32) < 2 ^ (35 - 7 * 0)"
    using unsigned_less [where ?'a = nat and w = "word_of_int v :: u32"] by simp
  then show ?thesis
    using decode_varint_bytes [of 0 "word_of_int v" 0 "[]"] by (simp add: mc_append_varint_def)
qed

lemma hello_fits:
  assumes "length host \<le> 65535" "length rnd = 10"
  shows "\<forall>x \<in> set (hello_packets host hport rnd). packet_fits x"
proof -
  have a: "length (mc_append_string b s) = length b + length (mc_append_varint [] (int (length s))) + length s"
    for b s by (simp add: mc_append_string_def mc_append_varint_def)
  have h: "length (handshake_data p h q st) = length (mc_append_varint [] p) +
      length (mc_append_varint [] (int (length h))) + length h + 2 + length (mc_append_varint [] st)"
    for p h q st by (simp add: handshake_data_def mc_append_string_def mc_append_varint_def)
  have z: "length (mc_append_varint [] 0 @ d) = length (mc_append_varint [] 0) + length d" for d by simp
  show ?thesis
    using assms length_varint5 [of mc_default_proto] length_varint5 [of "int (length host)"]
      length_varint5 [of 2] length_varint5 [of 0] length_varint5 [of 10]
    by (auto simp: hello_packets_def packet_fits_def mc_max_packet_def a h z mc_random_username_def Let_def
        simp del: length_append)
qed

section \<open>Properties\<close>

text \<open>Every 32-bit integer, negative ones included, survives its variable-length encoding: the
  decoder returns the value and the number of bytes it took, at most five, with anything
  following; and so does the decoder that reads from a connection.\<close>

theorem varint_roundtrip:
  assumes "- (2 ^ 31) \<le> v" "v < 2 ^ 31"
  shows "mc_decode_varint (mc_append_varint [] v @ r) = Some (v, length (mc_append_varint [] v)) \<and>
    length (mc_append_varint [] v) \<le> 5 \<and>
    (concat (arriving c) = mc_append_varint [] v @ r \<longrightarrow>
      (\<exists>c'. mc_read_varint conn_read c = Some (Ok v, c') \<and> concat (arriving c') = r))"
proof (intro conjI impI)
  show "mc_decode_varint (mc_append_varint [] v @ r) = Some (v, length (mc_append_varint [] v))"
    using decode_append_varint [OF assms] .
  have "unat (word_of_int v :: u32) < 2 ^ (35 - 7 * 0)"
    using unsigned_less [where ?'a = nat and w = "word_of_int v :: u32"] by simp
  then show "length (mc_append_varint [] v) \<le> 5"
    using decode_varint_bytes [of 0 "word_of_int v" 0 r] by (simp add: mc_append_varint_def)
  assume "concat (arriving c) = mc_append_varint [] v @ r"
  then show "\<exists>c'. mc_read_varint conn_read c = Some (Ok v, c') \<and> concat (arriving c') = r"
    using net_mc.read_varint_dec [of 5 0 0 c] dec_append_varint [OF assms, of "ending c" r]
    by (auto simp: mc_read_varint_def packet_result_def)
qed

theorem varint_roundtrip_witness:
  "mc_decode_varint (mc_append_varint [] (- 1) @ [9]) = Some (- 1, 5)"
proof -
  have "length (mc_append_varint [] (- 1)) = 5"
    by (simp add: mc_append_varint_def varint_bytes.simps Let_def mask_eq_exp_minus_1)
  then show ?thesis
    using varint_roundtrip [of "- 1" "[9]" "\<lparr>arriving = [], ending = EOF\<rparr>"] by simp
qed



text \<open>C35. One packet takes the server down. A handshake whose host length is any 32-bit integer below
  minus two makes the parser slice with a negative bound, a run-time panic in the goroutine that
  serves the connection, before any authentication; handshakes written by the client's own
  code never do.\<close>

theorem handshake_panics:
  assumes "- (2 ^ 31) \<le> proto" "proto < 2 ^ 31" "- (2 ^ 31) \<le> n" "n < - 2"
    and "int (length host) < 2 ^ 31" "- (2 ^ 31) \<le> st" "st < 2 ^ 31"
    and "packet_fits (0, mc_append_varint [] proto @ mc_append_varint [] n @ r)"
    and "concat (arriving c) = mc_packet 0 (mc_append_varint [] proto @ mc_append_varint [] n @ r)"
  shows "redstone_serve conn_read conn_write quote cfg rnd uuid c w = Some (ServePanics, w) \<and>
    mc_parse_handshake (handshake_data proto host port st) = Ok st"
proof
  show "mc_parse_handshake (handshake_data proto host port st) = Ok st"
    using parse_handshake_data assms by blast
  let ?data = "mc_append_varint [] proto @ mc_append_varint [] n @ r"
  have "dec_packet (ending c) (concat (arriving c)) = Ok ((0, ?data), [])"
    using mc_codec.dec_enc [OF assms(8), of "ending c" "[]"] assms(9) by simp
  then obtain c' where "mc_read_packet conn_read c = Some (Ok (0, ?data), c')"
    using net_mc.read_packet_dec [OF TrueI, of c] by (auto simp: packet_result_def)
  then show "redstone_serve conn_read conn_write quote cfg rnd uuid c w = Some (ServePanics, w)"
    using parse_handshake_panics [OF assms(1-4), of r] by (simp add: redstone_serve_def)
qed

theorem handshake_panics_witness:
  "redstone_serve conn_read conn_write (\<lambda>s. s) \<lparr>rc_enabled = True, rc_motd = [], rc_version = [], rc_proto = 0\<rparr>
     [] [] \<lparr>arriving = [[7, 0, 0, 0xfd, 0xff, 0xff, 0xff, 0x0f]], ending = EOF\<rparr> \<lparr>taken = [], lives = None\<rparr> =
     Some (ServePanics, \<lparr>taken = [], lives = None\<rparr>)"
proof -
  have v: "mc_append_varint [] 0 = [0]" "mc_append_varint [] (- 3) = [0xfd, 0xff, 0xff, 0xff, 0x0f]"
    "mc_append_varint [] 7 = [7]"
    by (simp_all add: mc_append_varint_def varint_bytes.simps Let_def)
  show ?thesis
    using handshake_panics [of 0 "- 3" "[]" 0 "[]" "\<lparr>arriving = [[7, 0, 0, 0xfd, 0xff, 0xff, 0xff, 0x0f]], ending = EOF\<rparr>"
        "\<lambda>s. s" "\<lparr>rc_enabled = True, rc_motd = [], rc_version = [], rc_proto = 0\<rparr>" "[]" "[]" "\<lparr>taken = [], lives = None\<rparr>"]
    by (simp add: packet_fits_def mc_max_packet_def mc_packet_def v)
qed

text \<open>C34. Client and server of the disguise understand each other. When a connection carries the
  client's handshake and login packets followed by what the client wrote to its tunnel, cut
  in any way, the server answers with the login packet alone and hands a tunnel connection to
  the tunnel handler from which exactly the client's bytes are read.\<close>

theorem redstone_handshake_completes:
  assumes "length host \<le> 65535" "length rnd = 10"
    and "concat (arriving c) = hello host hport rnd @ concat (map (mc_packet mc_tunnel_id) (mc_chunks p))"
  shows "\<exists>t. redstone_serve conn_read conn_write quote cfg rnd' uuid c \<lparr>taken = [], lives = None\<rparr> =
      Some (ServeTunnel t, \<lparr>taken = [mc_packet 2 (mc_append_varint
        (mc_append_string uuid (mc_random_username rnd')) 0)], lives = None\<rparr>) \<and>
    (\<exists>t'. read_full (mc_conn_read conn_read) k t = Some (fst (take_full k (ending c) p), t'))"
proof -
  let ?h = "handshake_data mc_default_proto host hport 2"
    and ?l = "mc_append_string [] (mc_random_username rnd)"
    and ?t = "concat (map (mc_packet mc_tunnel_id) (mc_chunks p))"
  have fit: "packet_fits (0, ?h)" "packet_fits (0, ?l)"
    using hello_fits [OF assms(1,2), of hport] by (auto simp: hello_packets_def)
  have p0: "concat (arriving c) = mc_packet 0 ?h @ mc_packet 0 ?l @ ?t"
    using assms(3) by (simp add: hello_def hello_packets_def)
  then have d1: "dec_packet (ending c) (concat (arriving c)) = Ok ((0, ?h), mc_packet 0 ?l @ ?t)"
    using mc_codec.dec_enc [OF fit(1)] by simp
  obtain c1 where c1: "mc_read_packet conn_read c = Some (Ok (0, ?h), c1)" "ending c1 = ending c"
    "concat (arriving c1) = mc_packet 0 ?l @ ?t"
    using net_mc.read_packet_dec [OF TrueI, of c] d1 by (auto simp: packet_result_def)
  have d2: "dec_packet (ending c1) (concat (arriving c1)) = Ok ((0, ?l), ?t)"
    using mc_codec.dec_enc [OF fit(2)] c1(3) by simp
  obtain c2 where c2: "mc_read_packet conn_read c1 = Some (Ok (0, ?l), c2)" "ending c2 = ending c"
    "concat (arriving c2) = ?t"
    using net_mc.read_packet_dec [OF TrueI, of c1] d2 c1(2) by (auto simp: packet_result_def)
  have hs: "mc_parse_handshake ?h = Ok 2"
    using parse_handshake_data [of mc_default_proto host 2 hport] assms(1) by (simp add: mc_default_proto_def)
  note fits = packets_written [of "mc_chunks p" mc_tunnel_id "ending c"]
  have ok: "net_mc.tunnel_ok (new_mc_conn c2)" "net_mc.tunnel_pending (new_mc_conn c2) = p"
    using fits chunk_fits c2 by (auto simp: net_mc.tunnel_ok_def net_mc.tunnel_pending_def new_mc_conn_def)
  have "\<exists>t'. read_full (mc_conn_read conn_read) k (new_mc_conn c2) = Some (fst (take_full k (ending c) p), t')"
    using net_mc.tunnel.read_full_take [OF ok(1), of k] ok(2) c2(2) by (metis new_mc_conn_def mc_conn.select_convs(1))
  then show ?thesis
    using c1(1) c2(1) hs
    by (simp add: redstone_serve_def mc_write_login_success_def mc_write_packet_def conn_write_def
        split: prod.splits)
qed

theorem redstone_handshake_completes_witness:
  "\<exists>t w t'. redstone_serve conn_read conn_write (\<lambda>s. s)
      \<lparr>rc_enabled = True, rc_motd = [], rc_version = [], rc_proto = 0\<rparr> (replicate 10 1) (replicate 16 2)
      \<lparr>arriving = [hello ''h'' 443 (replicate 10 0), [4, 23], [5, 6, 7]], ending = EOF\<rparr> \<lparr>taken = [], lives = None\<rparr> =
      Some (ServeTunnel t, w) \<and>
    read_full (mc_conn_read conn_read) 2 t = Some (Ok [5, 6], t')"
proof -
  have "mc_chunks [5, 6, 7] = [[5, 6, 7]]"
    by (simp add: mc_chunks.simps mc_chunk_size_def)
  then have "concat (map (mc_packet mc_tunnel_id) (mc_chunks [5, 6, 7])) = [4, 23, 5, 6, 7]"
    by (simp add: mc_packet_def mc_append_varint_def varint_bytes.simps mc_tunnel_id_def Let_def)
  then have "concat (arriving \<lparr>arriving = [hello ''h'' 443 (replicate 10 0), [4, 23], [5, 6, 7]], ending = EOF\<rparr>) =
      hello ''h'' 443 (replicate 10 0) @ concat (map (mc_packet mc_tunnel_id) (mc_chunks [5, 6, 7]))"
    by simp
  from redstone_handshake_completes [OF _ _ this, of "\<lambda>s. s"
      "\<lparr>rc_enabled = True, rc_motd = [], rc_version = [], rc_proto = 0\<rparr>" "replicate 10 1" "replicate 16 2" 2]
  show ?thesis by (auto simp: take_full_def)
qed

end
