(* ===== verification/GoStd.thy ===== *)
theory GoStd
  imports Prelude
begin

text \<open>
  What the program uses of Go's \<^verbatim>\<open>strings\<close> and \<^verbatim>\<open>encoding/base64\<close>. Strings are byte
  strings; case and white space are those of ASCII (Go's further Unicode cases are outside the
  model). The base64 decoders are Go's: line breaks are skipped, padding is required in the
  padded variant and refused in the raw one, and left-over bits are ignored.
\<close>

section \<open>Strings\<close>

definition to_lower_char :: "char \<Rightarrow> char" where
  "to_lower_char c = (let n = of_char c :: nat in if 65 \<le> n \<and> n \<le> 90 then char_of (n + 32) else c)"

definition to_lower :: "string \<Rightarrow> string" where
  "to_lower s = map to_lower_char s"

definition is_space :: "char \<Rightarrow> bool" where
  "is_space c = (let n = of_char c :: nat in n = 32 \<or> (9 \<le> n \<and> n \<le> 13))"

definition trim_space :: "string \<Rightarrow> string" where
  "trim_space s = rev (dropWhile is_space (rev (dropWhile is_space s)))"

definition has_prefix :: "'a list \<Rightarrow> 'a list \<Rightarrow> bool" where
  "has_prefix s p \<longleftrightarrow> take (length p) s = p"

definition has_suffix :: "'a list \<Rightarrow> 'a list \<Rightarrow> bool" where
  "has_suffix s p \<longleftrightarrow> length p \<le> length s \<and> drop (length s - length p) s = p"

definition trim_prefix :: "'a list \<Rightarrow> 'a list \<Rightarrow> 'a list" where
  "trim_prefix s p = (if has_prefix s p then drop (length p) s else s)"

fun contains_sub :: "'a list \<Rightarrow> 'a list \<Rightarrow> bool" where
  "contains_sub [] p = (p = [])"
| "contains_sub (c # s) p = (has_prefix (c # s) p \<or> contains_sub s p)"

text \<open>\<^verbatim>\<open>strings.Split(s, sep)\<close> for a non-empty separator; \<open>acc\<close> is the current piece, reversed.\<close>

function split_loop :: "'a list \<Rightarrow> 'a list \<Rightarrow> 'a list \<Rightarrow> 'a list list" where
  "split_loop sep acc s =
     (if s = [] \<or> sep = [] then [rev acc @ s]
      else if has_prefix s sep then rev acc # split_loop sep [] (drop (length sep) s)
      else split_loop sep (hd s # acc) (tl s))"
  by pat_completeness auto
termination by (relation "measure (\<lambda>(_, _, s). length s)") auto

declare split_loop.simps [simp del]

definition split_str :: "'a list \<Rightarrow> 'a list \<Rightarrow> 'a list list" where
  "split_str s sep = split_loop sep [] s"

text \<open>\<^verbatim>\<open>strings.Fields\<close>.\<close>

function str_fields :: "string \<Rightarrow> string list" where
  "str_fields s =
     (let t = dropWhile is_space s in
      if t = [] then []
      else takeWhile (\<lambda>c. \<not> is_space c) t # str_fields (dropWhile (\<lambda>c. \<not> is_space c) t))"
  by pat_completeness auto
termination
proof (relation "measure length")
  fix s t :: string
  assume t: "t = dropWhile is_space s" "t \<noteq> []"
  from t(2) obtain c r where c: "t = c # r" by (meson neq_Nil_conv)
  have "\<not> is_space c" using hd_dropWhile [of is_space s] t c by (metis list.sel(1))
  then have "dropWhile (\<lambda>c. \<not> is_space c) t = dropWhile (\<lambda>c. \<not> is_space c) r"
    by (simp add: c)
  moreover have "length (dropWhile (\<lambda>c. \<not> is_space c) r) \<le> length r" by (rule length_dropWhile_le)
  moreover have "length t \<le> length s" unfolding t(1) by (rule length_dropWhile_le)
  ultimately show "(dropWhile (\<lambda>c. \<not> is_space c) t, s) \<in> measure length"
    using c by simp
qed simp

declare str_fields.simps [simp del]

lemma has_prefix_append [simp]: "has_prefix (p @ s) p"
  by (simp add: has_prefix_def)

lemma trim_prefix_append [simp]: "trim_prefix (p @ s) p = s"
  by (simp add: trim_prefix_def)

section \<open>Base64\<close>

text \<open>The two alphabets differ in the last two characters.\<close>

definition b64_std :: string where
  "b64_std = ''ABCDEFGHIJKLMNOPQRSTUVWXYZabcdefghijklmnopqrstuvwxyz0123456789+/''"

definition b64_url :: string where
  "b64_url = ''ABCDEFGHIJKLMNOPQRSTUVWXYZabcdefghijklmnopqrstuvwxyz0123456789-_''"

fun b64_digits :: "nat list \<Rightarrow> nat list" where
  "b64_digits [] = []"
| "b64_digits [a] = [a div 4, a mod 4 * 16]"
| "b64_digits [a, b] = [a div 4, a mod 4 * 16 + b div 16, b mod 16 * 4]"
| "b64_digits (a # b # c # r) =
     [a div 4, a mod 4 * 16 + b div 16, b mod 16 * 4 + c div 64, c mod 64] @ b64_digits r"

fun b64_undigits :: "nat list \<Rightarrow> nat list option" where
  "b64_undigits [] = Some []"
| "b64_undigits [w] = None"
| "b64_undigits [w, x] = Some [w * 4 + x div 16]"
| "b64_undigits [w, x, y] = Some [w * 4 + x div 16, x mod 16 * 16 + y div 4]"
| "b64_undigits (w # x # y # z # r) =
     map_option ((@) [w * 4 + x div 16, x mod 16 * 16 + y div 4, y mod 4 * 64 + z]) (b64_undigits r)"

fun index_of :: "'a \<Rightarrow> 'a list \<Rightarrow> nat option" where
  "index_of c [] = None"
| "index_of c (x # xs) = (if c = x then Some 0 else map_option Suc (index_of c xs))"

fun all_some :: "'a option list \<Rightarrow> 'a list option" where
  "all_some [] = Some []"
| "all_some (None # xs) = None"
| "all_some (Some x # xs) = map_option (Cons x) (all_some xs)"

definition b64_raw_encode :: "string \<Rightarrow> bytes \<Rightarrow> string" where
  "b64_raw_encode alpha bs = map (\<lambda>d. alpha ! d) (b64_digits (map unat bs))"

definition b64_encode :: "string \<Rightarrow> bytes \<Rightarrow> string" where
  "b64_encode alpha bs = b64_raw_encode alpha bs @ replicate ((3 - length bs mod 3) mod 3) CHR ''=''"

definition b64_raw_decode :: "string \<Rightarrow> string \<Rightarrow> bytes option" where
  "b64_raw_decode alpha s =
     (case all_some (map (\<lambda>c. index_of c alpha) (filter (\<lambda>c. c \<notin> {CHR 0x0A, CHR 0x0D}) s)) of
        None \<Rightarrow> None
      | Some ds \<Rightarrow> map_option (map word_of_nat) (b64_undigits ds))"

definition b64_decode :: "string \<Rightarrow> string \<Rightarrow> bytes option" where
  "b64_decode alpha s =
     (let t = filter (\<lambda>c. c \<notin> {CHR 0x0A, CHR 0x0D}) s;
          n = length (takeWhile (\<lambda>c. c = CHR ''='') (rev t))
      in if length t mod 4 \<noteq> 0 \<or> 2 < n then None
         else b64_raw_decode alpha (take (length t - n) t))"

lemma b64_undigits_digits: "\<forall>x \<in> set xs. x < 256 \<Longrightarrow> b64_undigits (b64_digits xs) = Some xs"
proof (induction xs rule: b64_digits.induct)
  case (4 a b c r)
  have "a div 4 * 4 + (a mod 4 * 16 + b div 16) div 16 = a"
    "(a mod 4 * 16 + b div 16) mod 16 * 16 + (b mod 16 * 4 + c div 64) div 4 = b"
    "(b mod 16 * 4 + c div 64) mod 4 * 64 + c mod 64 = c"
    using 4(2) by auto
  then show ?case using 4 by simp
qed auto

lemma b64_digits_bound: "\<forall>x \<in> set xs. x < 256 \<Longrightarrow> \<forall>d \<in> set (b64_digits xs). d < 64"
  by (induction xs rule: b64_digits.induct) auto

lemma index_of_nth: "distinct xs \<Longrightarrow> i < length xs \<Longrightarrow> index_of (xs ! i) xs = Some i"
proof (induction xs arbitrary: i)
  case (Cons x xs)
  then show ?case by (cases i) auto
qed simp

lemma all_some_map: "\<forall>x \<in> set xs. f x = Some x \<Longrightarrow> all_some (map f xs) = Some xs"
  by (induction xs) auto

lemma b64_alphabets [simp]:
  "distinct b64_std" "length b64_std = 64" "CHR 0x0A \<notin> set b64_std" "CHR 0x0D \<notin> set b64_std"
  "distinct b64_url" "length b64_url = 64" "CHR 0x0A \<notin> set b64_url" "CHR 0x0D \<notin> set b64_url"
  "CHR ''='' \<notin> set b64_std"
  by (simp_all add: b64_std_def b64_url_def)

lemma b64_raw_roundtrip:
  assumes "distinct alpha" "length alpha = 64" "CHR 0x0A \<notin> set alpha" "CHR 0x0D \<notin> set alpha"
  shows "b64_raw_decode alpha (b64_raw_encode alpha bs) = Some bs"
proof -
  let ?ds = "b64_digits (map unat bs)"
  have lt: "\<forall>x \<in> set (map unat bs). x < 256" by auto
  have d: "\<forall>d \<in> set ?ds. d < 64" using b64_digits_bound [OF lt] .
  have "c \<in> set alpha" if "c \<in> set (b64_raw_encode alpha bs)" for c
    using that d assms(2) by (auto simp: b64_raw_encode_def)
  then have f: "filter (\<lambda>c. c \<notin> {CHR 0x0A, CHR 0x0D}) (b64_raw_encode alpha bs) = b64_raw_encode alpha bs"
    using assms(3,4) by (intro filter_True) auto
  have "all_some (map (\<lambda>c. index_of c alpha) (b64_raw_encode alpha bs)) = Some ?ds"
    using d assms(1,2) by (simp add: b64_raw_encode_def comp_def all_some_map index_of_nth)
  then show ?thesis
    unfolding b64_raw_decode_def f using b64_undigits_digits [OF lt] by (simp add: comp_def map_idI)
qed

lemma length_b64_digits:
  "length (b64_digits xs) + (3 - length xs mod 3) mod 3 = 4 * ((length xs + 2) div 3)"
proof (induction xs rule: b64_digits.induct)
  case (4 a b c r)
  have "(n + 3 + 2) div 3 = (n + 2) div 3 + (1 :: nat)" "(3 - (n + 3) mod 3) mod 3 = (3 - n mod 3) mod (3 :: nat)" for n
    by simp_all
  from this [of "length r"] 4 show ?case by (simp add: add.commute)
qed auto

lemma takeWhile_replicate: "c \<notin> set xs \<Longrightarrow> takeWhile (\<lambda>d. d = c) (replicate k c @ rev xs) = replicate k c"
proof (induction k)
  case 0
  then show ?case by (cases xs rule: rev_cases) auto
qed simp

lemma b64_padded_roundtrip:
  assumes "distinct alpha" "length alpha = 64" "CHR 0x0A \<notin> set alpha" "CHR 0x0D \<notin> set alpha"
    "CHR ''='' \<notin> set alpha"
  shows "b64_decode alpha (b64_encode alpha bs) = Some bs"
proof -
  let ?raw = "b64_raw_encode alpha bs" and ?k = "(3 - length bs mod 3) mod 3"
  have "c \<in> set alpha" if "c \<in> set ?raw" for c
  proof -
    have "\<forall>x \<in> set (map unat bs). x < 256" by auto
    from b64_digits_bound [OF this] show ?thesis using that assms(2) by (auto simp: b64_raw_encode_def)
  qed
  then have c: "CHR 0x0A \<notin> set ?raw" "CHR 0x0D \<notin> set ?raw" "CHR ''='' \<notin> set ?raw"
    using assms(3-5) by auto
  have f: "filter (\<lambda>c. c \<notin> {CHR 0x0A, CHR 0x0D}) (b64_encode alpha bs) = ?raw @ replicate ?k CHR ''=''"
    using c by (auto simp: b64_encode_def filter_id_conv)
  have l: "length ?raw + ?k = 4 * ((length bs + 2) div 3)"
    using length_b64_digits [of "map unat bs"] by (simp add: b64_raw_encode_def)
  have t: "takeWhile (\<lambda>c. c = CHR ''='') (rev (?raw @ replicate ?k CHR ''='')) = replicate ?k CHR ''=''"
    using takeWhile_replicate [OF c(3), of ?k] by simp
  have k: "?k \<le> 2" by simp
  have tk: "take (length (?raw @ replicate j x) - length (replicate j x)) (?raw @ replicate j x) = ?raw"
    for j and x :: char by simp
  have "length (?raw @ replicate ?k CHR ''='') mod 4 = 0" by (simp add: l)
  moreover have "\<not> 2 < length (replicate ?k CHR ''='')" using k by simp
  ultimately show ?thesis
    unfolding b64_decode_def f Let_def t tk using b64_raw_roundtrip [OF assms(1-4), of bs] by simp
qed

text \<open>The length of an encoding, and the characters it may hold.\<close>

lemma length_b64_encode: "length (b64_encode alpha bs) = 4 * ((length bs + 2) div 3)"
  using length_b64_digits [of "map unat bs"] by (simp add: b64_encode_def b64_raw_encode_def)

lemma b64_encode_chars: "length alpha = 64 \<Longrightarrow> set (b64_encode alpha bs) \<subseteq> insert CHR ''='' (set alpha)"
proof -
  assume a: "length alpha = 64"
  have "\<forall>x \<in> set (map unat bs). x < 256" by auto
  from b64_digits_bound [OF this] show ?thesis using a by (auto simp: b64_encode_def b64_raw_encode_def)
qed

end
