(* ===== verification/Subscription.thy ===== *)
theory Subscription
  imports GoStd Auth "HOL-Library.Product_Lexorder" "HOL-Library.Multiset"
begin

text \<open>
  \<^verbatim>\<open>core/transport/subscription.go\<close>: the list of servers a client may use, how it is
  normalised, the weighted choice of one server, the ranking of all of them by recorded
  health, and the subscription link. Durations and times are nanoseconds; a draw of
  the random number generator is an argument.
\<close>

section \<open>Data\<close>

record server_entry =
  se_address :: string
  se_psk :: string
  se_sni :: string
  se_weight :: int
  se_transport :: string
  se_secret_path :: string
  se_fingerprint :: string

record subscription_config =
  sc_version :: int
  sc_name :: string
  sc_servers :: "server_entry list"
  sc_update_url :: string
  sc_update_interval :: int

record health_stats =
  latencyEWMA :: int
  successCount :: int
  failureCount :: int
  consecutiveFailures :: int
  lastFailure :: "time option"
  lastSuccess :: "time option"
  cooldownUntil :: "time option"

record attempt_group =
  ag_base :: server_entry
  ag_variants :: "server_entry list"

record server_selector =
  ss_servers :: "server_entry list"
  ss_stats :: "string \<rightharpoonup> health_stats"

definition second_ns :: int where "second_ns = 1000000000"
definition milli_ns :: int where "milli_ns = 1000000"

section \<open>Normalisation\<close>

definition normalizeTransportPreference :: "string \<Rightarrow> string" where
  "normalizeTransportPreference transport =
     (let t = to_lower (trim_space transport) in
      if t = ''tls'' then ''tls''
      else if t = ''quic'' then ''quic''
      else if t = ''reality'' then ''reality''
      else if t = ''mirage'' then ''mirage''
      else if t = ''masque'' then ''masque''
      else if t = ''redstone'' then ''redstone''
      else if t = ''webrtc'' then ''webrtc''
      else if t = ''any'' \<or> t = ''auto'' then ''auto''
      else '''')"

definition normalizeStoredTransport :: "string \<Rightarrow> string" where
  "normalizeStoredTransport transport =
     (let t = normalizeTransportPreference transport in
      if t = ''tls'' then ''tls''
      else if t = ''quic'' then ''quic''
      else if t = ''auto'' then ''auto''
      else '''')"

definition normalizeServerEntry :: "server_entry \<Rightarrow> server_entry" where
  "normalizeServerEntry s =
     s\<lparr>se_weight := (if se_weight s \<le> 0 then 1 else se_weight s),
       se_transport := normalizeStoredTransport (se_transport s)\<rparr>"

definition normalizeServerEntries :: "server_entry list \<Rightarrow> server_entry list" where
  "normalizeServerEntries servers = map normalizeServerEntry servers"

definition NewServerSelector :: "server_entry list \<Rightarrow> server_selector" where
  "NewServerSelector servers =
     \<lparr>ss_servers = normalizeServerEntries servers, ss_stats = Map.empty\<rparr>"

definition UpdateServers :: "server_entry list \<Rightarrow> server_selector \<Rightarrow> server_selector" where
  "UpdateServers servers ss = ss\<lparr>ss_servers := normalizeServerEntries servers\<rparr>"

definition GetServers :: "server_selector \<Rightarrow> server_entry list" where
  "GetServers ss = ss_servers ss"

section \<open>Choosing one server\<close>

text \<open>\<open>draw n\<close> is \<^verbatim>\<open>rng.Intn(n)\<close>, which panics for \<open>n \<le> 0\<close>; \<open>Ok None\<close> is the nil result.\<close>

fun pick :: "int \<Rightarrow> int \<Rightarrow> server_entry list \<Rightarrow> server_entry option" where
  "pick r cumulative [] = None"
| "pick r cumulative (s # ss) =
     (if r < cumulative + se_weight s then Some s else pick r (cumulative + se_weight s) ss)"

definition SelectServer :: "(int \<Rightarrow> int) \<Rightarrow> server_selector \<Rightarrow> (unit, server_entry option) outcome" where
  "SelectServer draw ss =
     (if ss_servers ss = [] then Ok None
      else
        let totalWeight = sum_list (map se_weight (ss_servers ss)) in
        if totalWeight \<le> 0 then Panic
        else Ok (case pick (draw totalWeight) 0 (ss_servers ss) of
            Some s \<Rightarrow> Some s
          | None \<Rightarrow> Some (hd (ss_servers ss))))"

text \<open>
  \<^verbatim>\<open>SelectBestServer\<close>: every server is dialled concurrently; \<open>pings\<close> are the results in the
  order they arrive, an index with the latency, or no latency for a failed dial.
\<close>

definition better_ping :: "(nat \<times> int) option \<Rightarrow> nat \<times> int option \<Rightarrow> (nat \<times> int) option" where
  "better_ping best r =
     (case r of
        (i, None) \<Rightarrow> best
      | (i, Some l) \<Rightarrow>
          (case best of None \<Rightarrow> Some (i, l) | Some (j, m) \<Rightarrow> if l < m then Some (i, l) else best))"

definition SelectBestServer ::
  "(nat \<times> int option) list \<Rightarrow> (int \<Rightarrow> int) \<Rightarrow> server_selector \<Rightarrow> (unit, server_entry option) outcome" where
  "SelectBestServer pings draw ss =
     (if ss_servers ss = [] then Ok None
      else case foldl better_ping None pings of
        Some (i, _) \<Rightarrow> Ok (Some (ss_servers ss ! i))
      | None \<Rightarrow> SelectServer draw ss)"

section \<open>Health\<close>

definition serverStatsKey :: "server_entry \<Rightarrow> string" where
  "serverStatsKey s =
     (let t = normalizeTransportPreference (se_transport s)
      in se_address s @ ''|'' @ (if t \<noteq> ''quic'' then ''tls'' else t))"

text \<open>The loop of \<^verbatim>\<open>cooldownForFailures\<close>, with the rounds still to make.\<close>

fun cooldown_loop :: "nat \<Rightarrow> int \<Rightarrow> int" where
  "cooldown_loop 0 c = c"
| "cooldown_loop (Suc n) c = (if 60 * second_ns \<le> c * 2 then 60 * second_ns else cooldown_loop n (c * 2))"

definition cooldownForFailures :: "int \<Rightarrow> int" where
  "cooldownForFailures n = (if n \<le> 0 then 0 else cooldown_loop (nat (n - 1)) (2 * second_ns))"

definition no_stats :: health_stats where
  "no_stats = \<lparr>latencyEWMA = 0, successCount = 0, failureCount = 0, consecutiveFailures = 0,
     lastFailure = None, lastSuccess = None, cooldownUntil = None\<rparr>"

definition ReportDialResult ::
  "server_entry \<Rightarrow> int \<Rightarrow> bool \<Rightarrow> time \<Rightarrow> server_selector \<Rightarrow> server_selector" where
  "ReportDialResult server latency failed now ss =
     (let key = serverStatsKey server;
          st = (case ss_stats ss key of None \<Rightarrow> no_stats | Some st \<Rightarrow> st);
          st' =
            (if \<not> failed then
               let st1 = st\<lparr>successCount := successCount st + 1, consecutiveFailures := 0,
                     lastSuccess := Some now, cooldownUntil := None\<rparr>
               in if 0 < latency then
                    if latencyEWMA st1 = 0 then st1\<lparr>latencyEWMA := latency\<rparr>
                    else st1\<lparr>latencyEWMA := (latencyEWMA st1 * 3 + latency) sdiv 4\<rparr>
                  else st1
             else
               let st1 = st\<lparr>failureCount := failureCount st + 1,
                     consecutiveFailures := consecutiveFailures st + 1, lastFailure := Some now\<rparr>
               in st1\<lparr>cooldownUntil := Some (now + cooldownForFailures (consecutiveFailures st1))\<rparr>)
      in ss\<lparr>ss_stats := (ss_stats ss)(key \<mapsto> st')\<rparr>)"

text \<open>\<open>now2\<close> is the second reading of the clock, inside \<^verbatim>\<open>time.Until\<close>.\<close>

definition candidateScore :: "server_selector \<Rightarrow> server_entry \<Rightarrow> time \<Rightarrow> time \<Rightarrow> int" where
  "candidateScore ss server now now2 =
     (let weight = (if se_weight server \<le> 0 then 1 else se_weight server);
          score = 2000 sdiv weight in
      case ss_stats ss (serverStatsKey server) of
        None \<Rightarrow> score + 250
      | Some st \<Rightarrow>
          let s1 = (if 0 < latencyEWMA st then score + latencyEWMA st sdiv milli_ns else score + 150);
              s2 = s1 + failureCount st * 50 + consecutiveFailures st * 750;
              s3 = (case cooldownUntil st of
                      None \<Rightarrow> s2
                    | Some u \<Rightarrow> if now < u then s2 + 5000 + (u - now2) sdiv milli_ns else s2)
          in if failureCount st < successCount st
             then s3 - (successCount st - failureCount st) * 25 else s3)"

section \<open>Ranking\<close>

definition with_transport :: "string \<Rightarrow> server_entry \<Rightarrow> server_entry" where
  "with_transport t s =
     s\<lparr>se_transport := t, se_weight := (if se_weight s \<le> 0 then 1 else se_weight s)\<rparr>"

definition buildTransportVariants :: "server_entry \<Rightarrow> string \<Rightarrow> server_entry list" where
  "buildTransportVariants base preferred =
     (let p0 = normalizeTransportPreference (se_transport base);
          p1 = (if p0 = '''' \<or> p0 = ''auto'' then normalizeTransportPreference preferred else p0);
          primary = (if p1 = '''' then ''tls'' else p1) in
      if primary \<in> {''reality'', ''mirage'', ''masque'', ''redstone'', ''webrtc''}
      then [with_transport primary base]
      else map (\<lambda>t. with_transport t base)
             (remdups (if primary = ''quic'' then [''quic'', ''tls''] else [''tls'', ''quic''])))"

definition rank_variants :: "server_selector \<Rightarrow> time \<Rightarrow> time \<Rightarrow> server_entry list \<Rightarrow> server_entry list" where
  "rank_variants ss now now2 vs =
     map snd (sort_key (\<lambda>(i, v). (candidateScore ss v now now2, i)) (zip [0..<length vs] vs))"

definition rank_group :: "server_selector \<Rightarrow> string \<Rightarrow> time \<Rightarrow> time \<Rightarrow> server_entry \<Rightarrow> attempt_group" where
  "rank_group ss preferred now now2 base =
     \<lparr>ag_base = base, ag_variants = rank_variants ss now now2 (buildTransportVariants base preferred)\<rparr>"

definition group_score :: "server_selector \<Rightarrow> time \<Rightarrow> time \<Rightarrow> attempt_group \<Rightarrow> int" where
  "group_score ss now now2 g = candidateScore ss (hd (ag_variants g)) now now2"

definition RankServerGroups :: "string \<Rightarrow> time \<Rightarrow> time \<Rightarrow> server_selector \<Rightarrow> attempt_group list" where
  "RankServerGroups preferredTransport now now2 ss =
     (let preferred = normalizeTransportPreference preferredTransport;
          groups = filter (\<lambda>g. ag_variants g \<noteq> [])
            (map (rank_group ss preferred now now2) (ss_servers ss))
      in sort_key (\<lambda>g. (group_score ss now now2 g, - se_weight (ag_base g))) groups)"

section \<open>The subscription link\<close>

definition subscriptionScheme :: string where
  "subscriptionScheme = ''stealthlink://''"

datatype link_error = InvalidScheme | LinkDecodeFailed | UnmarshalFailed | MarshalFailed

text \<open>\<open>marshal\<close> and \<open>unmarshal\<close> stand for \<^verbatim>\<open>encoding/json\<close> at this type.\<close>

definition EncodeSubscriptionURL ::
  "(subscription_config \<Rightarrow> bytes option) \<Rightarrow> subscription_config \<Rightarrow> (link_error, string) outcome" where
  "EncodeSubscriptionURL marshal config =
     (case marshal config of
        None \<Rightarrow> Err MarshalFailed
      | Some data \<Rightarrow> Ok (subscriptionScheme @ b64_raw_encode b64_url data))"

definition DecodeSubscriptionURL ::
  "(bytes \<Rightarrow> subscription_config option) \<Rightarrow> string \<Rightarrow> (link_error, subscription_config) outcome" where
  "DecodeSubscriptionURL unmarshal url =
     (if \<not> has_prefix url subscriptionScheme then Err InvalidScheme
      else case b64_raw_decode b64_url (trim_prefix url subscriptionScheme) of
        None \<Rightarrow> Err LinkDecodeFailed
      | Some data \<Rightarrow>
          (case unmarshal data of
             None \<Rightarrow> Err UnmarshalFailed
           | Some c \<Rightarrow> Ok (if sc_version c = 0 then c\<lparr>sc_version := 1\<rparr> else c)))"

section \<open>Runs of a selector\<close>

datatype selector_op =
    OpUpdate "server_entry list"
  | OpReport server_entry int bool time

fun selector_step :: "selector_op \<Rightarrow> server_selector \<Rightarrow> server_selector" where
  "selector_step (OpUpdate servers) ss = UpdateServers servers ss"
| "selector_step (OpReport s latency failed now) ss = ReportDialResult s latency failed now ss"

definition selector_run :: "server_entry list \<Rightarrow> selector_op list \<Rightarrow> server_selector" where
  "selector_run servers ops = fold selector_step ops (NewServerSelector servers)"

definition entries_ok :: "server_selector \<Rightarrow> bool" where
  "entries_ok ss \<longleftrightarrow>
     list_all (\<lambda>s. 0 < se_weight s \<and> se_transport s \<in> {'''', ''tls'', ''quic'', ''auto''}) (ss_servers ss)"

lemma normalized_entries:
  "list_all (\<lambda>s. 0 < se_weight s \<and> se_transport s \<in> {'''', ''tls'', ''quic'', ''auto''})
     (normalizeServerEntries servers)"
  by (auto simp: normalizeServerEntries_def normalizeServerEntry_def list_all_iff
      normalizeStoredTransport_def Let_def)

lemma entries_ok_new: "entries_ok (NewServerSelector servers)"
  using normalized_entries by (simp add: entries_ok_def NewServerSelector_def)

lemma entries_ok_step: "entries_ok ss \<Longrightarrow> entries_ok (selector_step op ss)"
  using normalized_entries
  by (cases op) (simp_all add: entries_ok_def UpdateServers_def ReportDialResult_def Let_def)

lemma entries_ok_fold: "entries_ok ss \<Longrightarrow> entries_ok (fold selector_step ops ss)"
  by (induction ops arbitrary: ss) (simp_all add: entries_ok_step)

lemma entries_ok_run: "entries_ok (selector_run servers ops)"
  by (simp add: selector_run_def entries_ok_new entries_ok_fold)

lemma pick_interval:
  assumes "\<forall>s\<in>set ss. 0 < se_weight s" "i < length ss"
    "c + sum_list (map se_weight (take i ss)) \<le> r"
    "r < c + sum_list (map se_weight (take (Suc i) ss))"
  shows "pick r c ss = Some (ss ! i)"
  using assms
proof (induction ss arbitrary: c i)
  case (Cons s ss)
  show ?case
  proof (cases i)
    case 0
    with Cons.prems show ?thesis by simp
  next
    case (Suc j)
    have "0 \<le> sum_list (map se_weight (take j ss))"
      using Cons.prems(1) by (intro sum_list_nonneg) (auto dest!: in_set_takeD simp: less_imp_le)
    then have "\<not> r < c + se_weight s" using Cons.prems Suc by simp
    moreover have "pick r (c + se_weight s) ss = Some (ss ! j)"
      using Cons.prems Suc by (intro Cons.IH) (auto simp: add.assoc)
    ultimately show ?thesis using Suc by simp
  qed
qed simp

lemma sum_weights_pos:
  assumes "\<forall>s\<in>set ss. 0 < se_weight s" "ss \<noteq> []"
  shows "0 < sum_list (map se_weight ss)"
proof -
  obtain s r where ss: "ss = s # r" using assms(2) by (cases ss) auto
  have "0 \<le> sum_list (map se_weight r)"
    using assms(1) ss by (intro sum_list_nonneg) (auto simp: less_imp_le)
  moreover have "0 < se_weight s" using assms(1) ss by simp
  ultimately show ?thesis using ss by simp
qed

text \<open>Weighted choice. After any history of updates and dial reports, a selector with
  servers never panics in \<^verbatim>\<open>SelectServer\<close> and never answers nil: the draw lies below the total
  weight, every server is chosen exactly for the draws of its own interval, so with
  probability its weight over the total.\<close>

definition weight_before :: "nat \<Rightarrow> server_selector \<Rightarrow> int" where
  "weight_before i ss = sum_list (map se_weight (take i (GetServers ss)))"

lemma weight_interval_exists:
  assumes "0 \<le> d" "d < sum_list (map se_weight (ss :: server_entry list))"
  shows "\<exists>i<length ss. sum_list (map se_weight (take i ss)) \<le> d \<and>
    d < sum_list (map se_weight (take (Suc i) ss))"
  using assms
proof (induction ss arbitrary: d)
  case (Cons s ss)
  show ?case
  proof (cases "d < se_weight s")
    case True
    with Cons.prems show ?thesis by (intro exI [of _ 0]) simp
  next
    case False
    then obtain i where "i < length ss" "sum_list (map se_weight (take i ss)) \<le> d - se_weight s"
      "d - se_weight s < sum_list (map se_weight (take (Suc i) ss))"
      using Cons.IH [of "d - se_weight s"] Cons.prems by auto
    then show ?thesis by (intro exI [of _ "Suc i"]) simp
  qed
qed simp

lemma SelectServer_interval:
  assumes "entries_ok ss" "GetServers ss \<noteq> []" "i < length (GetServers ss)"
    "d = draw (weight_before (length (GetServers ss)) ss)"
    "weight_before i ss \<le> d" "d < weight_before (Suc i) ss"
  shows "SelectServer draw ss = Ok (Some (GetServers ss ! i))"
proof -
  have pos: "\<forall>s\<in>set (ss_servers ss). 0 < se_weight s"
    using assms(1) by (simp add: entries_ok_def list_all_iff)
  have "pick d 0 (ss_servers ss) = Some (ss_servers ss ! i)"
    using assms by (intro pick_interval [OF pos]) (simp_all add: weight_before_def GetServers_def)
  moreover have "0 < sum_list (map se_weight (ss_servers ss))"
    using sum_weights_pos [OF pos] assms(2) by (simp add: GetServers_def)
  ultimately show ?thesis
    using assms(2,4) by (simp add: SelectServer_def GetServers_def weight_before_def)
qed

theorem select_server_weighted:
  assumes "ss = selector_run servers ops" "GetServers ss \<noteq> []" "\<And>n. 0 < n \<Longrightarrow> 0 \<le> draw n \<and> draw n < n"
    "d = draw (weight_before (length (GetServers ss)) ss)"
  shows "(\<exists>i<length (GetServers ss).
        weight_before i ss \<le> d \<and> d < weight_before (Suc i) ss) \<and>
    (\<forall>i<length (GetServers ss).
      weight_before (Suc i) ss - weight_before i ss = se_weight (GetServers ss ! i) \<and>
      0 < se_weight (GetServers ss ! i) \<and>
      (weight_before i ss \<le> d \<longrightarrow> d < weight_before (Suc i) ss \<longrightarrow>
        SelectServer draw ss = Ok (Some (GetServers ss ! i))))"
proof -
  have ok: "entries_ok ss" unfolding assms(1) by (rule entries_ok_run)
  then have pos: "\<forall>s\<in>set (GetServers ss). 0 < se_weight s"
    by (simp add: entries_ok_def list_all_iff GetServers_def)
  from sum_weights_pos [OF pos assms(2)]
  have "0 < weight_before (length (GetServers ss)) ss" by (simp add: weight_before_def)
  from assms(3) [OF this] have "\<exists>i<length (GetServers ss). weight_before i ss \<le> d \<and> d < weight_before (Suc i) ss"
    unfolding weight_before_def assms(4) by (intro weight_interval_exists) simp_all
  moreover have "SelectServer draw ss = Ok (Some (GetServers ss ! i))"
    if "i < length (GetServers ss)" "weight_before i ss \<le> d" "d < weight_before (Suc i) ss" for i
    by (rule SelectServer_interval [of ss i d draw, OF ok assms(2) that(1) assms(4) that(2,3)])
  ultimately show ?thesis
    using pos by (simp add: weight_before_def take_Suc_conv_app_nth)
qed

definition sample_entry :: "string \<Rightarrow> int \<Rightarrow> server_entry" where
  "sample_entry a w = \<lparr>se_address = a, se_psk = [], se_sni = [], se_weight = w,
     se_transport = ''QUIC'', se_secret_path = [], se_fingerprint = []\<rparr>"

theorem select_server_weighted_witness:
  "\<exists>i<length (GetServers (selector_run [sample_entry ''a'' 3, sample_entry ''b'' 5] [])).
     weight_before i (selector_run [sample_entry ''a'' 3, sample_entry ''b'' 5] []) \<le> 7 \<and>
     7 < weight_before (Suc i) (selector_run [sample_entry ''a'' 3, sample_entry ''b'' 5] [])"
  by (rule select_server_weighted [where draw = "\<lambda>n. n - 1", OF refl, THEN conjunct1])
    (simp_all add: selector_run_def NewServerSelector_def GetServers_def normalizeServerEntries_def
      normalizeServerEntry_def sample_entry_def weight_before_def)

section \<open>Cooldown\<close>

lemma cooldown_loop_closed:
  "0 < c \<Longrightarrow> c < 60 * second_ns \<Longrightarrow> cooldown_loop n c = min (60 * second_ns) (2 ^ n * c)"
proof (induction n arbitrary: c)
  case (Suc n)
  show ?case
  proof (cases "60 * second_ns \<le> c * 2")
    case True
    moreover have "c * 2 \<le> 2 ^ Suc n * c" using Suc.prems(1) by (simp add: mult.commute)
    ultimately show ?thesis by simp
  next
    case False
    with Suc.IH [of "c * 2"] Suc.prems show ?thesis by (simp add: ac_simps)
  qed
qed simp

text \<open>The cooldown after \<open>n\<close> failures in a row is two to the \<open>n\<close> seconds, at most one minute: no
  overflow for any count, the loop leaving early at the limit.\<close>

theorem cooldown_closed_form:
  "cooldownForFailures n =
     (if n \<le> 0 then 0 else min (60 * second_ns) (2 ^ nat n * second_ns))"
proof (cases "n \<le> 0")
  case False
  then obtain k where n: "nat n = Suc k" by (metis not0_implies_Suc nat_0_iff)
  then have "nat (n - 1) = k" by simp
  with n False show ?thesis
    using cooldown_loop_closed [of "2 * second_ns" k]
    by (simp add: cooldownForFailures_def second_ns_def)
qed (simp add: cooldownForFailures_def)

section \<open>Ranking\<close>

lemma variants_not_Nil: "buildTransportVariants base p \<noteq> []"
  by (simp add: buildTransportVariants_def Let_def)

lemma rank_variants_mset: "mset (rank_variants ss now now2 vs) = mset vs"
proof -
  have "mset (rank_variants ss now now2 vs) = mset (map snd (zip [0..<length vs] vs))"
    by (simp only: rank_variants_def mset_map mset_sort)
  then show ?thesis by simp
qed

lemma ranked_not_Nil: "rank_variants ss now now2 (buildTransportVariants base p) \<noteq> []"
  using rank_variants_mset [of ss now now2 "buildTransportVariants base p"] variants_not_Nil
  by (metis mset.simps(1) mset_zero_iff)

lemma rank_variants_sorted:
  "sorted (map (\<lambda>v. candidateScore ss v now now2) (rank_variants ss now now2 vs))"
proof -
  let ?k = "\<lambda>(i, v). (candidateScore ss v now now2, i :: nat)"
  let ?xs = "sort_key ?k (zip [0..<length vs] vs)"
  have "sorted (map ?k ?xs)" by simp
  then have "sorted (map fst (map ?k ?xs))"
    by (auto simp: sorted_map less_eq_prod_def elim!: sorted_wrt_mono_rel [rotated])
  moreover have "map fst (map ?k ?xs) = map (\<lambda>v. candidateScore ss v now now2) (rank_variants ss now now2 vs)"
    by (auto simp: rank_variants_def)
  ultimately show ?thesis by simp
qed

text \<open>The ranking loses nothing and is sorted. Every server of the list has exactly one group,
  with every transport variant built for it exactly once and at least one variant; variants are in order of their score, the groups in
  order of the score of their best variant, heavier servers first among equals.\<close>

theorem ranking_complete_and_sorted:
  "(let groups = RankServerGroups pref now now2 ss;
        p = normalizeTransportPreference pref in
    mset (map ag_base groups) = mset (GetServers ss) \<and>
    list_all (\<lambda>g. ag_variants g \<noteq> [] \<and>
      mset (ag_variants g) = mset (buildTransportVariants (ag_base g) p) \<and>
      sorted (map (\<lambda>v. candidateScore ss v now now2) (ag_variants g))) groups \<and>
    sorted (map (\<lambda>g. (candidateScore ss (hd (ag_variants g)) now now2, - se_weight (ag_base g))) groups))"
proof -
  let ?p = "normalizeTransportPreference pref"
  have all: "filter (\<lambda>g. ag_variants g \<noteq> []) (map (rank_group ss ?p now now2) (ss_servers ss)) =
      map (rank_group ss ?p now now2) (ss_servers ss)"
    by (rule filter_True) (auto simp: rank_group_def ranked_not_Nil)
  have eq: "RankServerGroups pref now now2 ss =
      sort_key (\<lambda>g. (group_score ss now now2 g, - se_weight (ag_base g)))
        (map (rank_group ss ?p now now2) (ss_servers ss))"
    unfolding RankServerGroups_def Let_def all ..
  have base: "ag_base \<circ> rank_group ss ?p now now2 = id" by (rule ext) (simp add: rank_group_def)
  have "mset (map ag_base (RankServerGroups pref now now2 ss)) = mset (ss_servers ss)"
    unfolding eq by (simp only: mset_map mset_sort multiset.map_comp base multiset.map_id0 id_apply)
  moreover have "sorted (map (\<lambda>g. (candidateScore ss (hd (ag_variants g)) now now2, - se_weight (ag_base g)))
      (RankServerGroups pref now now2 ss))"
    unfolding eq group_score_def by simp
  ultimately show ?thesis
    by (auto simp: Let_def list_all_iff eq rank_group_def rank_variants_mset rank_variants_sorted
        ranked_not_Nil GetServers_def)
qed

definition exclusive_transports :: "string list" where
  "exclusive_transports = [''reality'', ''mirage'', ''masque'', ''redstone'', ''webrtc'']"

lemma auto_variants:
  "normalizeTransportPreference (se_transport s) \<in> {'''', ''auto''} \<Longrightarrow>
   normalizeTransportPreference pref \<in> {'''', ''auto'', ''tls''} \<Longrightarrow>
   map se_transport (buildTransportVariants s pref) = [''tls'', ''quic'']"
  by (auto simp: buildTransportVariants_def with_transport_def Let_def)

lemma normalizeTransport_small [simp]:
  "normalizeTransportPreference '''' = ''''"
  "normalizeTransportPreference ''auto'' = ''auto''"
  by (simp_all add: normalizeTransportPreference_def to_lower_def trim_space_def
      to_lower_char_def is_space_def)

text \<open>A stored transport is forgotten. For an entry whose transport is one of the five that exclude all
  others, \<^verbatim>\<open>buildTransportVariants\<close> gives that transport alone; but a selector drops the value
  when it stores the entry, so with no (or automatic) preference every server of such a list is
  tried with TLS and QUIC, and never with the transport it was configured for.\<close>

theorem stored_transport_forgotten:
  assumes "normalizeTransportPreference (se_transport s) \<in> set exclusive_transports"
    "normalizeTransportPreference pref \<in> {'''', ''auto''}"
  shows "map se_transport (buildTransportVariants s pref) =
      [normalizeTransportPreference (se_transport s)] \<and>
    (\<forall>g\<in>set (RankServerGroups pref now now2 (NewServerSelector [s])).
      set (map se_transport (ag_variants g)) = {''tls'', ''quic''})"
proof
  let ?s = "normalizeServerEntry s" and ?p = "normalizeTransportPreference pref"
  show "map se_transport (buildTransportVariants s pref) = [normalizeTransportPreference (se_transport s)]"
    using assms(1) by (auto simp: buildTransportVariants_def with_transport_def exclusive_transports_def Let_def)
  have tr: "se_transport ?s = ''''"
    using assms(1) by (auto simp: normalizeServerEntry_def normalizeStoredTransport_def exclusive_transports_def Let_def)
  have "map se_transport (buildTransportVariants ?s ?p) = [''tls'', ''quic'']"
    by (rule auto_variants) (use assms(2) tr in auto)
  then have "set (map se_transport (rank_variants (NewServerSelector [s]) now now2 (buildTransportVariants ?s ?p))) = {''tls'', ''quic''}"
    by (metis rank_variants_mset empty_set list.simps(15) mset_map set_mset_mset)
  then show "\<forall>g\<in>set (RankServerGroups pref now now2 (NewServerSelector [s])).
      set (map se_transport (ag_variants g)) = {''tls'', ''quic''}"
    by (simp add: RankServerGroups_def NewServerSelector_def normalizeServerEntries_def rank_group_def Let_def)
qed

theorem stored_transport_forgotten_witness:
  "map se_transport (buildTransportVariants ((sample_entry ''a'' 1)\<lparr>se_transport := ''Reality''\<rparr>) ''auto'') = [''reality'']"
proof -
  have "normalizeTransportPreference ''Reality'' = ''reality''" by code_simp
  then show ?thesis
    using stored_transport_forgotten [of "(sample_entry ''a'' 1)\<lparr>se_transport := ''Reality''\<rparr>" "''auto''"]
    by (simp add: sample_entry_def exclusive_transports_def)
qed

section \<open>Links\<close>

lemma b64_url_ok:
  "distinct b64_url" "length b64_url = 64" "CHR 0x0A \<notin> set b64_url" "CHR 0x0D \<notin> set b64_url"
  by (simp_all add: b64_url_def)

text \<open>A subscription link carries its configuration: what \<^verbatim>\<open>EncodeSubscriptionURL\<close> makes,
  \<^verbatim>\<open>DecodeSubscriptionURL\<close> reads back, a missing version becoming 1, whenever the JSON
  codec reads back what it wrote; any other scheme is refused.\<close>

theorem subscription_link_roundtrip:
  assumes "marshal c = Some data" "unmarshal data = Some c"
  shows "\<exists>url. EncodeSubscriptionURL marshal c = Ok url \<and> has_prefix url subscriptionScheme \<and>
      DecodeSubscriptionURL unmarshal url = Ok (c\<lparr>sc_version := (if sc_version c = 0 then 1 else sc_version c)\<rparr>) \<and>
      (\<forall>other. \<not> has_prefix other subscriptionScheme \<longrightarrow>
        DecodeSubscriptionURL unmarshal other = Err InvalidScheme)"
  using assms
  by (simp add: EncodeSubscriptionURL_def DecodeSubscriptionURL_def b64_raw_roundtrip b64_url_ok)

theorem subscription_link_roundtrip_witness:
  "\<exists>url. EncodeSubscriptionURL (\<lambda>c. Some [123, 125]) \<lparr>sc_version = 0, sc_name = [], sc_servers = [],
      sc_update_url = [], sc_update_interval = 0\<rparr> = Ok url \<and> has_prefix url subscriptionScheme"
  using subscription_link_roundtrip [of "\<lambda>c. Some [123, 125]"
      "\<lparr>sc_version = 0, sc_name = [], sc_servers = [], sc_update_url = [], sc_update_interval = 0\<rparr>"
      "[123, 125]" "\<lambda>d. Some \<lparr>sc_version = 0, sc_name = [], sc_servers = [], sc_update_url = [], sc_update_interval = 0\<rparr>"]
  by auto

end
