(* ===== verification/Stealth.thy ===== *)
theory Stealth
  imports FrameIO "HOL-Library.Signed_Division"
begin

text \<open>
  \<^verbatim>\<open>core/transport/padding.go\<close>, \<^verbatim>\<open>stealth.go\<close> and \<^verbatim>\<open>obfuscation.go\<close>: cover traffic. Two
  engines write padding frames through the frame writer of the session while its owner uses it; the goroutines are
  events that may come in any order. Every draw of the random source is an argument: \<open>draw n\<close> is
  \<^verbatim>\<open>rand.Int(rand.Reader, n)\<close>, and \<open>noise\<close> is the stream that \<^verbatim>\<open>rand.Read\<close> fills buffers from.
  Durations are nanoseconds.
\<close>

section \<open>Random sizes\<close>

definition randomInt :: "(int \<Rightarrow> int) \<Rightarrow> int \<Rightarrow> int \<Rightarrow> int" where
  "randomInt draw lo hi = (if hi \<le> lo then lo else lo + draw (hi - lo + 1))"

definition randomDuration :: "(int \<Rightarrow> int) \<Rightarrow> int \<Rightarrow> int \<Rightarrow> int" where
  "randomDuration draw lo hi = (if hi \<le> lo then lo else lo + draw (hi - lo))"

definition stealthRandInt :: "(int \<Rightarrow> int) \<Rightarrow> int \<Rightarrow> int \<Rightarrow> int" where
  "stealthRandInt draw lo hi = (if hi \<le> lo then lo else lo + draw (hi - lo + 1))"

definition stealthRandDuration :: "(int \<Rightarrow> int) \<Rightarrow> int \<Rightarrow> int \<Rightarrow> int" where
  "stealthRandDuration draw lo hi = (if hi \<le> lo then lo else lo + draw (hi - lo))"

definition fill_noise :: "(nat \<Rightarrow> byte) \<Rightarrow> nat \<Rightarrow> bytes" where
  "fill_noise noise n = map noise [0..<n]"

definition fair_draw :: "(int \<Rightarrow> int) \<Rightarrow> bool" where
  "fair_draw draw \<longleftrightarrow> (\<forall>n>0. 0 \<le> draw n \<and> draw n < n)"

lemma length_fill_noise [simp]: "length (fill_noise noise n) = n"
  by (simp add: fill_noise_def)

lemma randomInt_bounds: "fair_draw draw \<Longrightarrow> lo \<le> hi \<Longrightarrow> lo \<le> randomInt draw lo hi \<and> randomInt draw lo hi \<le> hi"
  unfolding fair_draw_def randomInt_def by (auto dest: spec [of _ "hi - lo + 1"])

lemma stealthRandInt_bounds:
  "fair_draw draw \<Longrightarrow> lo \<le> hi \<Longrightarrow> lo \<le> stealthRandInt draw lo hi \<and> stealthRandInt draw lo hi \<le> hi"
  unfolding fair_draw_def stealthRandInt_def by (auto dest: spec [of _ "hi - lo + 1"])

lemma stealthRandDuration_bounds:
  "fair_draw draw \<Longrightarrow> lo \<le> hi \<Longrightarrow> lo \<le> stealthRandDuration draw lo hi \<and> stealthRandDuration draw lo hi \<le> hi"
  unfolding fair_draw_def stealthRandDuration_def by (auto dest: spec [of _ "hi - lo"])

section \<open>The padding engine\<close>

record padding_config =
  pc_Enabled :: bool
  MinPaddingBytes :: int
  MaxPaddingBytes :: int
  DummyInterval :: int
  TimingJitter :: int
  NormalizeSize :: bool

definition DefaultPaddingConfig :: padding_config where
  "DefaultPaddingConfig =
     \<lparr>pc_Enabled = True, MinPaddingBytes = 16, MaxPaddingBytes = 256,
       DummyInterval = 2 * 1000000000, TimingJitter = 3 * 1000000, NormalizeSize = True\<rparr>"

text \<open>\<open>pe_loop\<close>: the goroutine of \<^verbatim>\<open>dummyTrafficLoop\<close> is running; \<open>pe_stopped\<close>: \<^verbatim>\<open>stopChan\<close> is closed.\<close>

record padding_engine =
  pe_config :: padding_config
  pe_stopped :: bool
  pe_loop :: bool

definition NewPaddingEngine :: "padding_config \<Rightarrow> padding_engine" where
  "NewPaddingEngine config =
     \<lparr>pe_config = config, pe_stopped = False,
       pe_loop = (pc_Enabled config \<and> \<not> DummyInterval config \<le> 0)\<rparr>"

definition dummy_interval :: "(int \<Rightarrow> int) \<Rightarrow> padding_engine \<Rightarrow> int" where
  "dummy_interval draw pe =
     DummyInterval (pe_config pe) + randomDuration draw 0 (DummyInterval (pe_config pe) sdiv 2)"

text \<open>The frame of \<^verbatim>\<open>sendDummyFrame\<close>; a negative sz makes \<^verbatim>\<open>make\<close> panic.\<close>

definition dummy_frame :: "(int \<Rightarrow> int) \<Rightarrow> (nat \<Rightarrow> byte) \<Rightarrow> padding_engine \<Rightarrow> (unit, frame) outcome" where
  "dummy_frame draw noise pe =
     (let sz = randomInt draw (MinPaddingBytes (pe_config pe)) (MaxPaddingBytes (pe_config pe)) in
      if sz < 0 then Panic
      else Ok \<lparr>frame_type = FramePadding, frame_payload = fill_noise noise (nat sz)\<rparr>)"

definition WrapFrame ::
  "(int \<Rightarrow> int) \<Rightarrow> (nat \<Rightarrow> byte) \<Rightarrow> padding_engine \<Rightarrow> frame \<Rightarrow> (unit, frame) outcome" where
  "WrapFrame draw noise pe f =
     (if \<not> pc_Enabled (pe_config pe) then Ok f
      else
        let paddingSize = randomInt draw (MinPaddingBytes (pe_config pe)) (MaxPaddingBytes (pe_config pe)) in
        if paddingSize < 0 then Panic
        else Ok \<lparr>frame_type = frame_type f,
          frame_payload = frame_type f # word_of_int paddingSize #
            frame_payload f @ fill_noise noise (nat paddingSize)\<rparr>)"

text \<open>\<^verbatim>\<open>AddTimingJitter\<close>: the time slept, \<open>0\<close> for none.\<close>

definition AddTimingJitter :: "(int \<Rightarrow> int) \<Rightarrow> padding_engine \<Rightarrow> int" where
  "AddTimingJitter draw pe =
     (if \<not> pc_Enabled (pe_config pe) \<or> TimingJitter (pe_config pe) \<le> 0 then 0
      else randomDuration draw 0 (TimingJitter (pe_config pe)))"

definition StopPadding :: "padding_engine \<Rightarrow> padding_engine" where
  "StopPadding pe = (if pe_stopped pe then pe else pe\<lparr>pe_stopped := True\<rparr>)"

definition commonSizes :: "nat list" where
  "commonSizes = [64, 128, 256, 512, 576, 1024, 1460, 4096, 8192, 16384]"

fun target_size :: "nat \<Rightarrow> nat list \<Rightarrow> nat \<Rightarrow> nat" where
  "target_size n [] d = d"
| "target_size n (s # ss) d = (if n \<le> s then s else target_size n ss d)"

definition NormalizePacketSize :: "(nat \<Rightarrow> byte) \<Rightarrow> bytes \<Rightarrow> bytes" where
  "NormalizePacketSize noise data =
     (let dataLen = length data;
          targetSize = target_size dataLen commonSizes (last commonSizes) in
      if targetSize \<le> dataLen then data
      else data @ fill_noise noise (targetSize - dataLen))"

section \<open>The stealth engine\<close>

record stealth_config =
  st_Enabled :: bool
  DecoyStreams :: bool
  ProtocolPolymorphism :: bool
  AdaptiveThrottling :: bool
  DecoyInterval :: int

definition DefaultStealthConfig :: stealth_config where
  "DefaultStealthConfig =
     \<lparr>st_Enabled = True, DecoyStreams = True, ProtocolPolymorphism = True,
       AdaptiveThrottling = True, DecoyInterval = 5 * 1000000000\<rparr>"

record session_params =
  FramePaddingMin :: int
  FramePaddingMax :: int
  FlushInterval :: int
  sp_BatchSize :: int
  DummyMinInterval :: int
  DummyMaxInterval :: int

text \<open>\<open>se_pattern\<close>: the sizes the decoy loop has still to send of its current pattern.\<close>

record stealth_engine =
  se_config :: stealth_config
  se_stopped :: bool
  se_loop :: bool
  se_pattern :: "nat list"
  sessionParams :: session_params
  latencyHistory :: "int list"
  throttled :: bool

text \<open>The six draws of \<^verbatim>\<open>generateSessionParams\<close>, in the order it makes them.\<close>

definition generateSessionParams :: "(nat \<Rightarrow> int \<Rightarrow> int) \<Rightarrow> session_params" where
  "generateSessionParams draws =
     \<lparr>FramePaddingMin = stealthRandInt (draws 0) 8 32,
      FramePaddingMax = stealthRandInt (draws 1) 64 512,
      FlushInterval = stealthRandInt (draws 2) 1 5 * 1000000,
      sp_BatchSize = stealthRandInt (draws 3) 32 128 * 1024,
      DummyMinInterval = stealthRandInt (draws 4) 1 4 * 1000000000,
      DummyMaxInterval = stealthRandInt (draws 5) 5 15 * 1000000000\<rparr>"

definition fixedSessionParams :: session_params where
  "fixedSessionParams =
     \<lparr>FramePaddingMin = 16, FramePaddingMax = 128, FlushInterval = 2 * 1000000,
      sp_BatchSize = 64 * 1024, DummyMinInterval = 2 * 1000000000, DummyMaxInterval = 8 * 1000000000\<rparr>"

definition NewStealthEngine :: "(nat \<Rightarrow> int \<Rightarrow> int) \<Rightarrow> stealth_config \<Rightarrow> stealth_engine" where
  "NewStealthEngine draws config =
     \<lparr>se_config = config, se_stopped = False, se_loop = DecoyStreams config, se_pattern = [],
      sessionParams = (if ProtocolPolymorphism config then generateSessionParams draws else fixedSessionParams),
      latencyHistory = [], throttled = False\<rparr>"

definition GetSessionParams :: "stealth_engine \<Rightarrow> session_params" where
  "GetSessionParams se = sessionParams se"

definition IsThrottled :: "stealth_engine \<Rightarrow> bool" where
  "IsThrottled se = throttled se"

definition StopStealth :: "stealth_engine \<Rightarrow> stealth_engine" where
  "StopStealth se = (if se_stopped se then se else se\<lparr>se_stopped := True\<rparr>)"

definition avgDuration :: "int list \<Rightarrow> int" where
  "avgDuration ds = (if ds = [] then 0 else sum_list ds sdiv int (length ds))"

definition push_latency :: "int \<Rightarrow> int list \<Rightarrow> int list" where
  "push_latency d h =
     (let h1 = h @ [d] in if 50 < length h1 then drop (length h1 - 50) h1 else h1)"

definition RecordLatency :: "(nat \<Rightarrow> int \<Rightarrow> int) \<Rightarrow> int \<Rightarrow> stealth_engine \<Rightarrow> stealth_engine" where
  "RecordLatency draws d se =
     (let h = push_latency d (latencyHistory se);
          se1 = se\<lparr>latencyHistory := h\<rparr> in
      if \<not> AdaptiveThrottling (se_config se1) \<or> length h < 10 then se1
      else
        let recentAvg = avgDuration (drop (length h - 5) h);
            olderAvg = avgDuration (take (length h - 5) h) in
        if olderAvg * 3 < recentAvg \<and> 500 * 1000000 < recentAvg then
          if \<not> throttled se1 then
            se1\<lparr>throttled := True,
              sessionParams := (sessionParams se1)
                \<lparr>DummyMinInterval := DummyMinInterval (sessionParams se1) * 3,
                 DummyMaxInterval := DummyMaxInterval (sessionParams se1) * 3\<rparr>\<rparr>
          else se1
        else if throttled se1 \<and> recentAvg < olderAvg * 2 then
          se1\<lparr>throttled := False, sessionParams := generateSessionParams draws\<rparr>
        else se1)"

definition decoyPatterns :: "nat list list" where
  "decoyPatterns =
     [[64, 128, 256], [512, 128, 64, 32], [1024, 256, 128],
      [128, 256, 512, 1024, 256], [32, 64, 128, 64, 32]]"

definition decoy_interval :: "(int \<Rightarrow> int) \<Rightarrow> stealth_engine \<Rightarrow> int" where
  "decoy_interval draw se =
     stealthRandDuration draw (DummyMinInterval (sessionParams se)) (DummyMaxInterval (sessionParams se))"

definition decoy_frame :: "(nat \<Rightarrow> byte) \<Rightarrow> nat \<Rightarrow> frame" where
  "decoy_frame noise sz = \<lparr>frame_type = FramePadding, frame_payload = fill_noise noise sz\<rparr>"

section \<open>Obfuscation settings\<close>

record obfuscation_config =
  oc_SNI :: string
  ALPNProtocols :: "string list"
  oc_Transport :: string

definition DefaultObfuscationConfig :: obfuscation_config where
  "DefaultObfuscationConfig = \<lparr>oc_SNI = '''', ALPNProtocols = [''http/1.1''], oc_Transport = ''tls''\<rparr>"

definition QUICObfuscationConfig :: obfuscation_config where
  "QUICObfuscationConfig = \<lparr>oc_SNI = '''', ALPNProtocols = [''h3''], oc_Transport = ''quic''\<rparr>"

definition GetALPN :: "obfuscation_config \<Rightarrow> string list" where
  "GetALPN c =
     (if ALPNProtocols c = [] then
        if oc_Transport c = ''quic'' then [''h3''] else [''http/1.1'']
      else ALPNProtocols c)"

definition GetSNI :: "obfuscation_config \<Rightarrow> string" where
  "GetSNI c = oc_SNI c"

section \<open>The engines and the owner on one writer\<close>

record 'w session_writer =
  sw_padding :: padding_engine
  sw_stealth :: stealth_engine
  sw_fw :: "'w frame_writer"

text \<open>
  One event: the owner uses the writer; the padding loop's timer expires, or its stop is seen;
  the decoy loop's timer expires (and picks a pattern), sends one frame of it, or sees its stop;
  a latency is recorded; an engine is stopped. An event that cannot happen leaves the state.
  A select with both branches ready may take either. \<open>None\<close> is a crash of the process: a panic
  in a goroutine.
\<close>

datatype cover_event =
    Owner fw_event
  | PadTick "int \<Rightarrow> int" "nat \<Rightarrow> byte"
  | PadSeesStop
  | PadStop
  | DecoyTick "int \<Rightarrow> int"
  | DecoySend "nat \<Rightarrow> byte"
  | DecoySeesStop
  | DecoyStop
  | Latency "nat \<Rightarrow> int \<Rightarrow> int" int

fun cover_step ::
  "(bytes \<Rightarrow> 'w \<Rightarrow> io_error option \<times> 'w) \<Rightarrow> cover_event \<Rightarrow> 'w session_writer \<Rightarrow>
   (io_error option \<times> 'w session_writer) option"
where
  "cover_step wr (Owner ev) sw =
     (case fw_step wr ev (sw_fw sw) of (e, fw) \<Rightarrow> Some (e, sw\<lparr>sw_fw := fw\<rparr>))"
| "cover_step wr (PadTick draw noise) sw =
     (if pe_loop (sw_padding sw) then
        case dummy_frame draw noise (sw_padding sw) of
          Ok f \<Rightarrow> (case WriteTypedFrame wr f (sw_fw sw) of (e, fw) \<Rightarrow> Some (e, sw\<lparr>sw_fw := fw\<rparr>))
        | _ \<Rightarrow> None
      else Some (None, sw))"
| "cover_step wr PadSeesStop sw =
     Some (None, if pe_stopped (sw_padding sw)
       then sw\<lparr>sw_padding := (sw_padding sw)\<lparr>pe_loop := False\<rparr>\<rparr> else sw)"
| "cover_step wr PadStop sw = Some (None, sw\<lparr>sw_padding := StopPadding (sw_padding sw)\<rparr>)"
| "cover_step wr (DecoyTick draw) sw =
     Some (None,
       if se_loop (sw_stealth sw) \<and> se_pattern (sw_stealth sw) = [] \<and> \<not> throttled (sw_stealth sw)
       then sw\<lparr>sw_stealth := (sw_stealth sw)\<lparr>se_pattern :=
           decoyPatterns ! nat (stealthRandInt draw 0 (int (length decoyPatterns) - 1))\<rparr>\<rparr>
       else sw)"
| "cover_step wr (DecoySend noise) sw =
     (case se_pattern (sw_stealth sw) of
        [] \<Rightarrow> Some (None, sw)
      | sz # rest \<Rightarrow>
          (case WriteTypedFrame wr (decoy_frame noise sz) (sw_fw sw) of
             (e, fw) \<Rightarrow> Some (e, sw\<lparr>sw_stealth := (sw_stealth sw)\<lparr>se_pattern := rest\<rparr>, sw_fw := fw\<rparr>)))"
| "cover_step wr DecoySeesStop sw =
     Some (None,
       if se_stopped (sw_stealth sw) \<and> se_pattern (sw_stealth sw) = []
       then sw\<lparr>sw_stealth := (sw_stealth sw)\<lparr>se_loop := False\<rparr>\<rparr> else sw)"
| "cover_step wr DecoyStop sw = Some (None, sw\<lparr>sw_stealth := StopStealth (sw_stealth sw)\<rparr>)"
| "cover_step wr (Latency draws d) sw =
     Some (None, sw\<lparr>sw_stealth := RecordLatency draws d (sw_stealth sw)\<rparr>)"

fun cover_run ::
  "(bytes \<Rightarrow> 'w \<Rightarrow> io_error option \<times> 'w) \<Rightarrow> cover_event list \<Rightarrow> 'w session_writer \<Rightarrow>
   (io_error option list \<times> 'w session_writer) option"
where
  "cover_run wr [] sw = Some ([], sw)"
| "cover_run wr (ev # evs) sw =
     (case cover_step wr ev sw of
        None \<Rightarrow> None
      | Some (e, sw1) \<Rightarrow> map_option (\<lambda>(es, sw2). (e # es, sw2)) (cover_run wr evs sw1))"

section \<open>Cover traffic and the frames of the owner\<close>

fun owner_events :: "cover_event list \<Rightarrow> fw_event list" where
  "owner_events [] = []"
| "owner_events (Owner ev # evs) = ev # owner_events evs"
| "owner_events (_ # evs) = owner_events evs"

definition data_frames :: "frame list \<Rightarrow> frame list" where
  "data_frames fs = filter (\<lambda>f. frame_type f \<noteq> FramePadding) fs"

text \<open>The writer event that a cover event amounts to.\<close>

fun writer_event :: "cover_event \<Rightarrow> 'w session_writer \<Rightarrow> fw_event list" where
  "writer_event (Owner ev) sw = [ev]"
| "writer_event (PadTick draw noise) sw =
     (if pe_loop (sw_padding sw) then
        case dummy_frame draw noise (sw_padding sw) of Ok f \<Rightarrow> [WriteTyped f] | _ \<Rightarrow> []
      else [])"
| "writer_event (DecoySend noise) sw =
     (case se_pattern (sw_stealth sw) of [] \<Rightarrow> [] | n # _ \<Rightarrow> [WriteTyped (decoy_frame noise n)])"
| "writer_event _ sw = []"

lemma dummy_frame_padding: "dummy_frame draw noise pe = Ok f \<Longrightarrow> frame_type f = FramePadding"
  by (auto simp: dummy_frame_def Let_def split: if_splits)

lemma cover_step_fw:
  assumes "cover_step wr ev sw = Some (e, sw')"
  shows "\<exists>es. fw_run wr (writer_event ev sw) (sw_fw sw) = (es, sw_fw sw') \<and> set es \<subseteq> {e}"
  using assms
proof (cases ev)
  case (DecoySend noise)
  with assms show ?thesis by (cases "se_pattern (sw_stealth sw)") (auto split: prod.splits)
next
  case (PadTick draw noise)
  show ?thesis
  proof (cases "pe_loop (sw_padding sw)")
    case True
    with assms PadTick obtain f where f: "dummy_frame draw noise (sw_padding sw) = Ok f"
      by (cases "dummy_frame draw noise (sw_padding sw)") simp_all
    with assms PadTick True show ?thesis by (auto split: prod.splits)
  next
    case False
    with assms PadTick show ?thesis by simp
  qed
qed (use assms in \<open>auto split: prod.splits if_splits\<close>)

lemma padding_frame_data: "frame_type f = FramePadding \<Longrightarrow> data_frames (sent_frames [WriteTyped f]) = []"
  by (simp add: data_frames_def sent_frames_def)

lemma decoy_frame_padding: "frame_type (decoy_frame noise n) = FramePadding"
  by (simp add: decoy_frame_def)

lemma no_frames [simp]: "data_frames (sent_frames []) = []"
  by (simp add: data_frames_def sent_frames_def)

lemma writer_event_data:
  "data_frames (sent_frames (writer_event ev sw)) = data_frames (sent_frames (owner_events [ev]))"
  by (cases ev)
    (auto simp: padding_frame_data decoy_frame_padding dummy_frame_padding split: outcome.splits list.splits)

lemma sent_one: "length (sent_frames [e]) \<le> 1"
  by (cases e) (auto simp: sent_frames_def)

lemma sent_none [simp]: "sent_frames [] = []"
  by (simp add: sent_frames_def)

lemma writer_event_count: "length (sent_frames (writer_event ev sw)) \<le> 1"
  using sent_one by (cases ev) (auto split: outcome.splits list.splits)

lemma fw_run_append:
  "fw_run wr (a @ b) x = (let (u, y) = fw_run wr a x; (v, z) = fw_run wr b y in (u @ v, z))"
  by (induction a arbitrary: x) (auto split: prod.splits)

lemma owner_events_Cons: "owner_events (ev # evs) = owner_events [ev] @ owner_events evs"
  by (cases ev) simp_all

lemma owner_events_append [simp]: "owner_events (a @ b) = owner_events a @ owner_events b"
  by (induction a rule: owner_events.induct) simp_all

lemma sent_frames_append [simp]: "sent_frames (a @ b) = sent_frames a @ sent_frames b"
  by (simp add: sent_frames_def)

lemma data_frames_append [simp]: "data_frames (a @ b) = data_frames a @ data_frames b"
  by (simp add: data_frames_def)

lemma cover_run_fw:
  "cover_run wr evs sw = Some (es, sw') \<Longrightarrow> set es \<subseteq> {None} \<Longrightarrow>
   \<exists>wevs wes. fw_run wr wevs (sw_fw sw) = (wes, sw_fw sw') \<and> set wes \<subseteq> {None} \<and>
     length (sent_frames wevs) \<le> length evs \<and>
     data_frames (sent_frames wevs) = data_frames (sent_frames (owner_events evs))"
proof (induction evs arbitrary: sw es)
  case Nil
  then show ?case by (intro exI [of _ "[]"] exI [of _ "[]"]) (simp add: sent_frames_def)
next
  case (Cons ev evs)
  from Cons.prems obtain e sw1 es1 where
    s: "cover_step wr ev sw = Some (e, sw1)" "cover_run wr evs sw1 = Some (es1, sw')"
      "es = e # es1" by (auto split: option.splits prod.splits)
  from Cons.IH [OF s(2)] s(3) Cons.prems(2) obtain wevs wes where
    w: "fw_run wr wevs (sw_fw sw1) = (wes, sw_fw sw')" "set wes \<subseteq> {None}"
      "length (sent_frames wevs) \<le> length evs"
      "data_frames (sent_frames wevs) = data_frames (sent_frames (owner_events evs))" by auto
  from cover_step_fw [OF s(1)] obtain es0 where
    f: "fw_run wr (writer_event ev sw) (sw_fw sw) = (es0, sw_fw sw1)" "set es0 \<subseteq> {e}" by auto
  have "fw_run wr (writer_event ev sw @ wevs) (sw_fw sw) = (es0 @ wes, sw_fw sw')"
    by (simp add: fw_run_append f(1) w(1))
  moreover have "set (es0 @ wes) \<subseteq> {None}" using f(2) w(2) s(3) Cons.prems(2) by auto
  moreover have "length (sent_frames (writer_event ev sw @ wevs)) \<le> length (ev # evs)"
    using writer_event_count [of ev sw] w(3) by simp
  moreover have "data_frames (sent_frames (writer_event ev sw @ wevs)) =
      data_frames (sent_frames (owner_events (ev # evs)))"
    using w(4) writer_event_data [of ev sw] by (simp add: owner_events_Cons [of ev evs])
  ultimately show ?case by blast
qed

lemma cover_run_append:
  "cover_run wr (a @ b) sw =
     (case cover_run wr a sw of
        None \<Rightarrow> None
      | Some (u, sw1) \<Rightarrow> map_option (\<lambda>(v, sw2). (u @ v, sw2)) (cover_run wr b sw1))"
  by (induction a arbitrary: sw) (auto split: option.splits prod.splits simp: map_option_case)

text \<open>Cover traffic does not disturb the data. Whatever the padding loop and the decoy loop
  write between, before or after the owner's frames, and whenever they are throttled or stopped, the peer that reads the flushed connection and
  drops padding frames gets exactly the owner's frames, in order, however the network
  cuts the stream.\<close>

theorem cover_traffic_invisible:
  assumes "cover_run conn_write (evs @ [Owner FlushCall])
      \<lparr>sw_padding = pe, sw_stealth = se, sw_fw = NewFrameWriter \<lparr>taken = [], lives = None\<rparr>\<rparr> = Some (es, sw)"
    "set es \<subseteq> {None}" "concat (arriving c) = concat (taken (fw_w (sw_fw sw)))"
    "length evs \<le> n" "pool_ok p"
  shows "\<exists>fs p' c'. read_frames conn_read n p c = Some (fs, p', c') \<and>
    data_frames fs = data_frames (sent_frames (owner_events evs))"
proof -
  let ?sw = "\<lparr>sw_padding = pe, sw_stealth = se, sw_fw = NewFrameWriter \<lparr>taken = [], lives = None\<rparr>\<rparr>"
  from assms(1) obtain u sw1 v where
    s: "cover_run conn_write evs ?sw = Some (u, sw1)"
      "fw_run conn_write [FlushCall] (sw_fw sw1) = (v, sw_fw sw)" "es = u @ v"
    by (auto simp: cover_run_append split: option.splits prod.splits)
  then obtain wevs wes where
    w: "fw_run conn_write wevs (NewFrameWriter \<lparr>taken = [], lives = None\<rparr>) = (wes, sw_fw sw1)"
      "set wes \<subseteq> {None}" "length (sent_frames wevs) \<le> length evs"
      "data_frames (sent_frames wevs) = data_frames (sent_frames (owner_events evs))"
    using cover_run_fw [OF s(1)] assms(2) by auto
  have "fw_run conn_write (wevs @ [FlushCall]) (NewFrameWriter \<lparr>taken = [], lives = None\<rparr>) =
      (wes @ v, sw_fw sw)"
    using s(2) by (simp add: fw_run_append w(1))
  from flushed_emitted [OF this] assms(2) s(3) w(2)
  have "concat (taken (fw_w (sw_fw sw))) = concat (map enc_frame (sent_frames wevs))" by auto
  then show ?thesis
    using read_encoded_frames [OF sent_frames_fit [of wevs] _ assms(5), of n c] w(3,4) assms(3,4) by auto
qed

definition cover_sample :: "cover_event list" where
  "cover_sample = [Owner (WriteTyped \<lparr>frame_type = 9, frame_payload = [1]\<rparr>), PadTick (\<lambda>_. 0) (\<lambda>_. 7)]"

theorem cover_traffic_invisible_witness:
  "let pe = NewPaddingEngine (DefaultPaddingConfig\<lparr>MinPaddingBytes := 2\<rparr>);
       c = \<lparr>arriving = [[0], [2, 9, 1, 0, 3, 6, 7], [7]], ending = EOF\<rparr> in
   \<exists>fs p' c'. read_frames conn_read 5 \<lparr>idle = [], fresh = 0\<rparr> c = Some (fs, p', c') \<and>
    data_frames fs = [\<lparr>frame_type = 9, frame_payload = [1]\<rparr>]"
proof -
  let ?pe = "NewPaddingEngine (DefaultPaddingConfig\<lparr>MinPaddingBytes := 2\<rparr>)"
  let ?se = "NewStealthEngine (\<lambda>_ _. 0) DefaultStealthConfig"
  let ?sw = "\<lparr>sw_padding = ?pe, sw_stealth = ?se, sw_fw = NewFrameWriter \<lparr>taken = [], lives = None\<rparr>\<rparr>"
  let ?c = "\<lparr>arriving = [[0], [2, 9, 1, 0, 3, 6, 7], [7]], ending = EOF\<rparr>"
  let ?r = "cover_run conn_write (cover_sample @ [Owner FlushCall]) ?sw"
  have f: "dummy_frame (\<lambda>_. 0) (\<lambda>_. 7) ?pe = Ok \<lparr>frame_type = FramePadding, frame_payload = [7, 7]\<rparr>"
    "pe_loop ?pe"
    by (simp_all add: dummy_frame_def NewPaddingEngine_def DefaultPaddingConfig_def randomInt_def
        fill_noise_def upt_rec Let_def numeral_2_eq_2)
  have e: "map_option fst ?r = Some [None, None, None]"
    by (simp add: cover_sample_def f fw_eval)
  then obtain es sw where r: "?r = Some (es, sw)" "es = [None, None, None]" by auto
  have "map_option (\<lambda>(_, sw). concat (taken (fw_w (sw_fw sw)))) ?r = Some [0, 2, 9, 1, 0, 3, 6, 7, 7]"
    by (simp add: cover_sample_def f fw_eval FramePadding_def)
  then have "concat (arriving ?c) = concat (taken (fw_w (sw_fw sw)))" using r by simp
  from cover_traffic_invisible [OF r(1) _ this, of 5 "\<lparr>idle = [], fresh = 0\<rparr>"] r(2)
  show ?thesis
    by (simp add: cover_sample_def pool_ok_def in_use_def data_frames_def sent_frames_def fits_def
        MaxFrameSize_def FramePadding_def Let_def)
qed

section \<open>Padded frames\<close>

text \<open>What a receiver can do with the count byte of \<^verbatim>\<open>WrapFrame\<close>: drop that many bytes of the tail.\<close>

definition unwrap_payload :: "frame \<Rightarrow> bytes" where
  "unwrap_payload f =
     (let body = drop 2 (frame_payload f) in
      take (length body - unat (frame_payload f ! 1)) body)"

lemma take_noise: "k \<le> n \<Longrightarrow> take k (fill_noise noise n) = fill_noise noise k"
  by (simp add: fill_noise_def take_map)

lemma unat_byte_of_int: "0 \<le> n \<Longrightarrow> unat (word_of_int n :: byte) = nat (n mod 256)"
  by (simp add: unsigned_of_int take_bit_eq_mod)

text \<open>A padded frame keeps its type and its size stays within the configured bounds; the count
  byte is the amount of padding modulo 256. So the payload can be recovered
  exactly when fewer than 256 bytes were drawn, and with the default maximum of 256 the count
  byte can be zero, in which case all of the padding is taken for payload.\<close>

theorem wrapped_frame_recovery:
  assumes "pc_Enabled (pe_config pe)" "fair_draw draw"
    "0 \<le> MinPaddingBytes (pe_config pe)" "MinPaddingBytes (pe_config pe) \<le> MaxPaddingBytes (pe_config pe)"
  shows "\<exists>w p. WrapFrame draw noise pe f = Ok w \<and> frame_type w = frame_type f \<and>
    MinPaddingBytes (pe_config pe) \<le> p \<and> p \<le> MaxPaddingBytes (pe_config pe) \<and>
    length (frame_payload w) = 2 + length (frame_payload f) + nat p \<and>
    unwrap_payload w = frame_payload f @ fill_noise noise (nat (p - p mod 256)) \<and>
    (unwrap_payload w = frame_payload f \<longleftrightarrow> p < 256)"
proof -
  define p where "p = randomInt draw (MinPaddingBytes (pe_config pe)) (MaxPaddingBytes (pe_config pe))"
  have b: "MinPaddingBytes (pe_config pe) \<le> p" "p \<le> MaxPaddingBytes (pe_config pe)"
    using randomInt_bounds [OF assms(2,4)] by (simp_all add: p_def)
  then have p0: "0 \<le> p" using assms(3) by simp
  let ?w = "\<lparr>frame_type = frame_type f, frame_payload = frame_type f # word_of_int p #
      frame_payload f @ fill_noise noise (nat p)\<rparr>"
  have w: "WrapFrame draw noise pe f = Ok ?w"
    using assms(1) p0 by (simp add: WrapFrame_def Let_def flip: p_def)
  have m: "p mod 256 \<le> p" "0 \<le> p mod 256" using p0 zmod_le_nonneg_dividend by auto
  have "length (frame_payload f) + nat p - nat (p mod 256) = length (frame_payload f) + nat (p - p mod 256)"
    using m by (simp add: nat_diff_distrib)
  then have u: "unwrap_payload ?w = frame_payload f @ fill_noise noise (nat (p - p mod 256))"
    using m p0 by (simp add: unwrap_payload_def unat_byte_of_int take_noise nat_diff_distrib)
  have "p - p mod 256 = 0 \<longleftrightarrow> p < 256" using p0 by presburger
  then have "unwrap_payload ?w = frame_payload f \<longleftrightarrow> p < 256"
    unfolding u using m by (auto simp: fill_noise_def)
  then show ?thesis using w b u by auto
qed

theorem wrapped_frame_recovery_witness:
  "\<exists>w p. WrapFrame (\<lambda>n. n - 1) (\<lambda>_. 9) (NewPaddingEngine DefaultPaddingConfig)
      \<lparr>frame_type = 0, frame_payload = [1]\<rparr> = Ok w \<and> (16 \<le> p \<and> p \<le> (256 :: int)) \<and>
    (unwrap_payload w = [1] \<longleftrightarrow> p < 256)"
  using wrapped_frame_recovery [of "NewPaddingEngine DefaultPaddingConfig" "\<lambda>n. n - 1" "\<lambda>_. 9"
      "\<lparr>frame_type = 0, frame_payload = [1]\<rparr>"]
  by (auto simp: NewPaddingEngine_def DefaultPaddingConfig_def fair_draw_def)

section \<open>Normal sizes\<close>

lemma target_size_le: "target_size n ss d = d \<or> (target_size n ss d \<in> set ss \<and> n \<le> target_size n ss d)"
  by (induction ss) auto

lemma target_size_least: "sorted ss \<Longrightarrow> s \<in> set ss \<Longrightarrow> n \<le> s \<Longrightarrow> n \<le> target_size n ss d \<and> target_size n ss d \<le> s"
  by (induction ss) auto

text \<open>\<^verbatim>\<open>NormalizePacketSize\<close> pads and never cuts: the packet is a prefix of the result, whose length
  is the least common size that holds the packet, or the packet's own length beyond 16384 bytes.\<close>

theorem normalized_size:
  "take (length data) (NormalizePacketSize noise data) = data \<and>
   (16384 < length data \<longrightarrow> NormalizePacketSize noise data = data) \<and>
   (length data \<le> 16384 \<longrightarrow>
      length (NormalizePacketSize noise data) \<in> set commonSizes \<and>
      (\<forall>s\<in>set commonSizes. length data \<le> s \<longrightarrow> length (NormalizePacketSize noise data) \<le> s))"
proof -
  let ?t = "target_size (length data) commonSizes 16384"
  have last: "last commonSizes = 16384" by (simp add: commonSizes_def)
  have s: "sorted commonSizes" "16384 \<in> set commonSizes" by (simp_all add: commonSizes_def)
  have big: "?t = 16384" if "16384 < length data"
    using that target_size_le [of "length data" commonSizes 16384] by (auto simp: commonSizes_def)
  have in_set: "?t \<in> set commonSizes"
    using target_size_le [of "length data" commonSizes 16384] s by auto
  have least: "length data \<le> ?t \<and> ?t \<le> r" if "r \<in> set commonSizes" "length data \<le> r" for r
    by (rule target_size_least [OF s(1) that])
  have len: "length (NormalizePacketSize noise data) = ?t" if "length data \<le> 16384"
    using least [OF s(2) that] by (simp add: NormalizePacketSize_def last Let_def)
  show ?thesis
    using big len in_set least by (auto simp: NormalizePacketSize_def last Let_def)
qed

theorem normalized_size_witness:
  "length (NormalizePacketSize (\<lambda>_. 0) [1, 2, 3]) \<le> 64"
  using normalized_size [of "[1, 2, 3]" "\<lambda>_. 0"] by (simp add: commonSizes_def)

section \<open>Throttling\<close>

definition second :: int where "second = 1000000000"

definition params_ok :: "stealth_engine \<Rightarrow> bool" where
  "params_ok se \<longleftrightarrow>
     (let p = sessionParams se; k = (if throttled se then 3 else 1) in
      8 \<le> FramePaddingMin p \<and> FramePaddingMin p \<le> 32 \<and>
      64 \<le> FramePaddingMax p \<and> FramePaddingMax p \<le> 512 \<and>
      1000000 \<le> FlushInterval p \<and> FlushInterval p \<le> 5000000 \<and>
      32 * 1024 \<le> sp_BatchSize p \<and> sp_BatchSize p \<le> 128 * 1024 \<and>
      k * second \<le> DummyMinInterval p \<and> DummyMinInterval p \<le> k * 4 * second \<and>
      k * 5 * second \<le> DummyMaxInterval p \<and> DummyMaxInterval p \<le> k * 15 * second)"

fun record_all :: "((nat \<Rightarrow> int \<Rightarrow> int) \<times> int) list \<Rightarrow> stealth_engine \<Rightarrow> stealth_engine" where
  "record_all [] se = se"
| "record_all ((draws, d) # ds) se = record_all ds (RecordLatency draws d se)"

lemma generated_ok:
  assumes "\<forall>i. fair_draw (draws i)"
  shows "params_ok (se\<lparr>throttled := False, sessionParams := generateSessionParams draws\<rparr>)"
  using stealthRandInt_bounds [of "draws 0" 8 32] stealthRandInt_bounds [of "draws 1" 64 512]
    stealthRandInt_bounds [of "draws 2" 1 5] stealthRandInt_bounds [of "draws 3" 32 128]
    stealthRandInt_bounds [of "draws 4" 1 4] stealthRandInt_bounds [of "draws 5" 5 15] assms
  by (simp add: params_ok_def generateSessionParams_def second_def)

lemma params_ok_cong:
  "sessionParams se = sessionParams se' \<Longrightarrow> throttled se = throttled se' \<Longrightarrow> params_ok se = params_ok se'"
  by (simp add: params_ok_def)

lemma RecordLatency_ok:
  assumes "params_ok se" "\<forall>i. fair_draw (draws i)"
  shows "params_ok (RecordLatency draws d se)"
proof -
  let ?h = "push_latency d (latencyHistory se)"
  have same: "params_ok (se\<lparr>latencyHistory := h\<rparr>)" for h
    using assms(1) params_ok_cong [of "se\<lparr>latencyHistory := h\<rparr>" se] by simp
  have up: "params_ok (se\<lparr>latencyHistory := h, throttled := True, sessionParams := (sessionParams se)
      \<lparr>DummyMinInterval := DummyMinInterval (sessionParams se) * 3,
       DummyMaxInterval := DummyMaxInterval (sessionParams se) * 3\<rparr>\<rparr>)" if "\<not> throttled se" for h
    using assms(1) that by (simp add: params_ok_def Let_def)
  show ?thesis
    using same up generated_ok [OF assms(2), of "se\<lparr>latencyHistory := ?h\<rparr>"]
    by (simp add: RecordLatency_def Let_def)
qed

lemma push_latency_length: "length (push_latency d h) = min 50 (Suc (length h))" if "length h \<le> 50"
  using that by (simp add: push_latency_def Let_def)

lemma latencyHistory_RecordLatency [simp]:
  "latencyHistory (RecordLatency draws d se) = push_latency d (latencyHistory se)"
  by (simp add: RecordLatency_def Let_def)

lemma NewStealthEngine_ok: "\<forall>i. fair_draw (draws i) \<Longrightarrow> params_ok (NewStealthEngine draws cfg)"
  using generated_ok [of draws "NewStealthEngine draws cfg"]
  by (simp add: params_ok_def NewStealthEngine_def fixedSessionParams_def second_def)

lemma record_all_ok:
  "params_ok se \<Longrightarrow> length (latencyHistory se) \<le> 50 \<Longrightarrow> \<forall>(draws, _) \<in> set ds. \<forall>i. fair_draw (draws i) \<Longrightarrow>
   params_ok (record_all ds se) \<and>
   length (latencyHistory (record_all ds se)) = min 50 (length (latencyHistory se) + length ds)"
  by (induction ds se rule: record_all.induct) (auto simp: RecordLatency_ok push_latency_length)

text \<open>Throttling never leaves its two regimes. After any history of latencies the session
  parameters are those of a fresh draw, with both decoy intervals tripled exactly while
  throttled (never twice), the history holds at most fifty latencies, and the decoy loop waits
  between one and fifteen seconds, or three and forty-five when throttled.\<close>

theorem throttle_invariant:
  assumes "\<forall>i. fair_draw (draws i)" "\<forall>(dr, _) \<in> set ds. \<forall>i. fair_draw (dr i)" "fair_draw draw"
    "se = record_all ds (NewStealthEngine draws cfg)"
    "k = (if IsThrottled se then 3 else 1)"
  shows "params_ok se \<and> length (latencyHistory se) = min 50 (length ds) \<and>
    k * second \<le> decoy_interval draw se \<and> decoy_interval draw se \<le> k * 15 * second"
proof -
  have r: "params_ok se" "length (latencyHistory se) = min 50 (length ds)"
    using record_all_ok [OF NewStealthEngine_ok [OF assms(1), of cfg] _ assms(2)] assms(4)
    by (simp_all add: NewStealthEngine_def)
  then have i: "k * second \<le> DummyMinInterval (sessionParams se)"
    "DummyMinInterval (sessionParams se) \<le> DummyMaxInterval (sessionParams se)"
    "DummyMaxInterval (sessionParams se) \<le> k * 15 * second"
    using assms(5) by (auto simp: params_ok_def IsThrottled_def second_def Let_def split: if_splits)
  then show ?thesis
    using r stealthRandDuration_bounds [OF assms(3) i(2)] by (auto simp: decoy_interval_def)
qed

theorem throttle_invariant_witness:
  "second \<le> decoy_interval (\<lambda>_. 0) (record_all [(\<lambda>_ _. 0, 5)] (NewStealthEngine (\<lambda>_ _. 0) DefaultStealthConfig))"
  using throttle_invariant [of "\<lambda>_ _. 0" "[(\<lambda>_ _. 0, 5)]" "\<lambda>_. 0" _ DefaultStealthConfig, OF _ _ _ refl refl]
  by (auto simp: fair_draw_def second_def split: if_splits)

end
