(* ===== verification/GoPath.thy ===== *)
theory GoPath
  imports GoStd
begin

text \<open>
  What the program uses of Go's \<^verbatim>\<open>path/filepath\<close> on Unix: \<^verbatim>\<open>Clean\<close>, \<^verbatim>\<open>Join\<close> and \<^verbatim>\<open>Ext\<close>. A path
  is split at its slashes; cleaning drops empty and \<^verbatim>\<open>.\<close> elements and lets every \<^verbatim>\<open>..\<close> remove
  the element before it, or vanish at the root of a rooted path.
\<close>

fun path_parts :: "string \<Rightarrow> string \<Rightarrow> string list" where
  "path_parts acc [] = [rev acc]"
| "path_parts acc (c # s) = (if c = CHR ''/'' then rev acc # path_parts [] s else path_parts (c # acc) s)"

fun join_parts :: "string list \<Rightarrow> string" where
  "join_parts [] = ''''"
| "join_parts [p] = p"
| "join_parts (p # ps) = p @ ''/'' @ join_parts ps"

text \<open>\<open>st\<close> holds the elements kept so far, last first.\<close>

fun clean_parts :: "bool \<Rightarrow> string list \<Rightarrow> string list \<Rightarrow> string list" where
  "clean_parts rooted st [] = rev st"
| "clean_parts rooted st (p # ps) =
     (if p = '''' \<or> p = ''.'' then clean_parts rooted st ps
      else if p = ''..'' then
        (case st of
           q # st' \<Rightarrow> if q = ''..'' then clean_parts rooted (p # st) ps else clean_parts rooted st' ps
         | [] \<Rightarrow> if rooted then clean_parts rooted [] ps else clean_parts rooted [p] ps)
      else clean_parts rooted (p # st) ps)"

definition path_rooted :: "string \<Rightarrow> bool" where
  "path_rooted s = has_prefix s ''/''"

definition path_elements :: "string \<Rightarrow> string list" where
  "path_elements s = clean_parts (path_rooted s) [] (path_parts [] s)"

definition path_clean :: "string \<Rightarrow> string" where
  "path_clean s =
     (if path_rooted s then ''/'' @ join_parts (path_elements s)
      else if path_elements s = [] then ''.'' else join_parts (path_elements s))"

definition path_join :: "string \<Rightarrow> string \<Rightarrow> string" where
  "path_join a b =
     (if a = '''' \<and> b = '''' then ''''
      else if a = '''' then path_clean b
      else if b = '''' then path_clean a
      else path_clean (a @ ''/'' @ b))"

definition path_ext :: "string \<Rightarrow> string" where
  "path_ext s =
     (let b = takeWhile (\<lambda>c. c \<noteq> CHR ''/'') (rev s);
          e = takeWhile (\<lambda>c. c \<noteq> CHR ''.'') b
      in if length e = length b then '''' else CHR ''.'' # rev e)"

section \<open>Lemmas\<close>

definition plain_part :: "string \<Rightarrow> bool" where
  "plain_part p \<longleftrightarrow> p \<noteq> '''' \<and> p \<noteq> ''.'' \<and> p \<noteq> ''..'' \<and> CHR ''/'' \<notin> set p"

lemma path_parts_append:
  "path_parts acc (s @ CHR ''/'' # t) = path_parts acc s @ path_parts [] t"
  by (induction acc s rule: path_parts.induct) auto

lemma path_parts_no_slash: "CHR ''/'' \<notin> set acc \<Longrightarrow> p \<in> set (path_parts acc s) \<Longrightarrow> CHR ''/'' \<notin> set p"
  by (induction acc s rule: path_parts.induct) (auto split: if_splits)

lemma path_parts_plain: "CHR ''/'' \<notin> set p \<Longrightarrow> path_parts acc p = [rev acc @ p]"
  by (induction acc p rule: path_parts.induct) auto

lemma path_parts_join:
  "\<forall>p\<in>set ps. CHR ''/'' \<notin> set p \<Longrightarrow> ps \<noteq> [] \<Longrightarrow> path_parts [] (join_parts ps) = ps"
  by (induction ps rule: join_parts.induct) (auto simp: path_parts_plain path_parts_append)

lemma clean_parts_rooted:
  "\<forall>p\<in>set ps. CHR ''/'' \<notin> set p \<Longrightarrow> list_all plain_part st \<Longrightarrow> list_all plain_part (clean_parts True st ps)"
proof (induction ps arbitrary: st)
  case (Cons p ps)
  have tl: "list_all plain_part st'" if "st = q # st'" for q st' using that Cons.prems(2) by simp
  have "plain_part p" if "p \<noteq> ''''" "p \<noteq> ''.''" "p \<noteq> ''..''"
    using that Cons.prems(1) by (simp add: plain_part_def)
  then show ?case
    using Cons tl by (cases st) (simp_all add: plain_part_def)
qed simp

lemma clean_parts_plain: "list_all plain_part ps \<Longrightarrow> clean_parts rooted st ps = rev st @ ps"
  by (induction ps arbitrary: st) (auto simp: plain_part_def)

lemma clean_parts_app: "clean_parts True st (ps @ qs) = clean_parts True (rev (clean_parts True st ps)) qs"
  by (induction ps arbitrary: st) (auto split: list.splits)

lemma path_elements_rooted: "path_rooted s \<Longrightarrow> list_all plain_part (path_elements s)"
  using path_parts_no_slash [of "[]"] by (simp add: path_elements_def clean_parts_rooted)

lemma path_clean_elements:
  assumes "path_rooted s"
  shows "path_rooted (path_clean s) \<and> path_elements (path_clean s) = path_elements s"
proof -
  let ?ps = "path_elements s"
  have pl: "list_all plain_part ?ps" by (rule path_elements_rooted [OF assms])
  have c: "path_clean s = ''/'' @ join_parts ?ps" using assms by (simp add: path_clean_def)
  have r: "path_rooted (path_clean s)" by (simp add: c path_rooted_def has_prefix_def)
  have "path_parts [] (path_clean s) = '''' # path_parts [] (join_parts ?ps)"
    using path_parts_append [of "[]" "[]" "join_parts ?ps"] by (simp add: c)
  moreover have "clean_parts True [] (path_parts [] (join_parts ?ps)) = ?ps"
  proof (cases "?ps = []")
    case False
    have "\<forall>p\<in>set ?ps. CHR ''/'' \<notin> set p" using pl by (simp add: list_all_iff plain_part_def)
    from path_parts_join [OF this False] show ?thesis by (simp add: clean_parts_plain [OF pl])
  qed simp
  ultimately show ?thesis using r by (simp add: path_elements_def)
qed

text \<open>Joining a rooted path onto a rooted one stays below the first.\<close>

lemma path_join_below:
  assumes "path_rooted a" "path_rooted b"
  shows "path_elements (path_join a (path_clean b)) = path_elements a @ path_elements b \<and>
    path_rooted (path_join a (path_clean b))"
proof -
  let ?b = "path_clean b" and ?s = "a @ ''/'' @ path_clean b"
  have b: "path_rooted ?b" "path_elements ?b = path_elements b" using path_clean_elements [OF assms(2)] by auto
  have ne: "a \<noteq> ''''" "?b \<noteq> ''''" using assms(1) b(1) by (auto simp: path_rooted_def has_prefix_def)
  have r: "path_rooted ?s" using assms(1) ne by (cases a) (auto simp: path_rooted_def has_prefix_def)
  have "path_parts [] ?s = path_parts [] a @ path_parts [] ?b"
    by (simp add: path_parts_append)
  then have "path_elements ?s = clean_parts True (rev (path_elements a)) (path_parts [] ?b)"
    using r assms(1) by (simp add: path_elements_def clean_parts_app)
  also have "\<dots> = path_elements a @ path_elements b"
  proof -
    let ?ps = "path_elements b"
    have pl: "list_all plain_part ?ps" by (rule path_elements_rooted [OF assms(2)])
    have "path_parts [] ?b = '''' # path_parts [] (join_parts ?ps)"
      using path_parts_append [of "[]" "[]" "join_parts ?ps"] assms(2) by (simp add: path_clean_def)
    moreover have "clean_parts True st (path_parts [] (join_parts ?ps)) = rev st @ ?ps" for st
    proof (cases "?ps = []")
      case False
      have "\<forall>p\<in>set ?ps. CHR ''/'' \<notin> set p" using pl by (simp add: list_all_iff plain_part_def)
      from path_parts_join [OF this False] show ?thesis by (simp add: clean_parts_plain [OF pl])
    qed simp
    ultimately show ?thesis by simp
  qed
  finally have "path_elements ?s = path_elements a @ path_elements b" .
  moreover have "path_join a ?b = path_clean ?s" using ne by (simp add: path_join_def)
  ultimately show ?thesis using path_clean_elements [OF r] by simp
qed

lemma join_parts_append:
  "ps \<noteq> [] \<Longrightarrow> qs \<noteq> [] \<Longrightarrow> join_parts (ps @ qs) = join_parts ps @ ''/'' @ join_parts qs"
proof (induction ps rule: join_parts.induct)
  case (2 p)
  then show ?case by (cases qs) auto
qed auto

end
