(* ===== verification/Camouflage.thy ===== *)
theory Camouflage
  imports Conns Replay Auth GoPath Subscription
begin

text \<open>
  \<^verbatim>\<open>core/transport/camouflage.go\<close>: the server that passes for a web site. The first read of a
  connection decides: an HTTP request is answered like a web server would, unless it names the
  secret path and carries credentials; credentials alone open a session; anything else gets
  an HTTP error. What a handler does to its connection is the list of its actions, in order.
\<close>

section \<open>Configuration\<close>

record camouflage_config =
  cf_Enabled :: bool
  WebRoot :: string
  CertFile :: string
  KeyFile :: string
  SecretPath :: string
  IndexFile :: string
  TargetURL :: string

definition DefaultCamouflageConfig :: camouflage_config where
  "DefaultCamouflageConfig =
     \<lparr>cf_Enabled = False, WebRoot = ''/var/www/html'', CertFile = '''', KeyFile = '''',
       SecretPath = ''/api/v2/sync'', IndexFile = ''index.html'', TargetURL = ''''\<rparr>"

text \<open>The parts of a parsed URL that are used; \<open>Host\<close> carries the port, \<open>Hostname\<close> does not.\<close>

record target_url =
  tu_scheme :: string
  tu_host :: string
  tu_hostname :: string

datatype camouflage_error = InvalidTarget | CertLoadFailed | CertMakeFailed

record 'cert camouflage =
  cm_config :: camouflage_config
  cm_auth :: auth_manager
  cm_replay :: "bloom replay_filter option"
  cm_tls :: "'cert option"
  cm_target :: "target_url option"
  cm_handler :: bool

text \<open>URL parsing and the making of certificates are parameters. The file handler that the
  constructor also builds is never used.\<close>

definition NewCamouflageServer ::
  "(string \<Rightarrow> target_url option) \<Rightarrow> (string \<Rightarrow> string \<Rightarrow> 'cert option) \<Rightarrow>
   (string \<Rightarrow> string \<Rightarrow> 'cert option) \<Rightarrow> (string \<Rightarrow> 'cert option) \<Rightarrow>
   camouflage_config \<Rightarrow> auth_manager \<Rightarrow> bloom replay_filter option \<Rightarrow>
   (camouflage_error, 'cert camouflage) outcome"
where
  "NewCamouflageServer parse_url load_pair clone_cert make_cert config auth rf =
     (let target =
        (if TargetURL config \<noteq> '''' then
           (case parse_url (TargetURL config) of
              None \<Rightarrow> None
            | Some u \<Rightarrow> Some (Some (if tu_scheme u = '''' then u\<lparr>tu_scheme := ''https''\<rparr> else u)))
         else Some None) in
      case target of
        None \<Rightarrow> Err InvalidTarget
      | Some tg \<Rightarrow>
          let server = (\<lambda>c. Ok \<lparr>cm_config = config, cm_auth = auth, cm_replay = rf, cm_tls = Some c,
                cm_target = tg, cm_handler = False\<rparr>) in
          if CertFile config \<noteq> '''' \<and> KeyFile config \<noteq> '''' then
            (case load_pair (CertFile config) (KeyFile config) of
               None \<Rightarrow> Err CertLoadFailed | Some c \<Rightarrow> server c)
          else
            (case (case tg of
                Some u \<Rightarrow> clone_cert (tu_host u) (tu_hostname u)
              | None \<Rightarrow> make_cert ''localhost'') of
               None \<Rightarrow> Err CertMakeFailed | Some c \<Rightarrow> server c))"

definition SetVPNHandler :: "'cert camouflage \<Rightarrow> 'cert camouflage" where
  "SetVPNHandler cm = cm\<lparr>cm_handler := True\<rparr>"

section \<open>Recognising HTTP\<close>

definition http_methods :: "string list" where
  "http_methods = [''GET '', ''POST'', ''PUT '', ''HEAD'', ''DELE'', ''OPTI'', ''PATC'']"

definition isHTTPRequest :: "bytes \<Rightarrow> bool" where
  "isHTTPRequest data \<longleftrightarrow> \<not> length data < 4 \<and> bytes_str (take 4 data) \<in> set http_methods"

section \<open>Actions on a connection\<close>

text \<open>The connection a session is handed: the one that was read, or that one behind a prefix.\<close>

datatype 'c handed = Bare 'c | Prefixed "'c prefix_conn"

datatype 'c action =
    SetDeadline
  | ClearDeadline
  | Sent bytes
  | Handler "'c handed" auth_session
  | CloseConn

definition crlf :: string where "crlf = [CHR 0x0D, CHR 0x0A]"

definition lf :: string where "lf = [CHR 0x0A]"

definition error_page :: "string \<Rightarrow> string" where
  "error_page title =
     ''<!DOCTYPE html>'' @ lf @ ''<html>'' @ lf @ ''<head><title>'' @ title @ ''</title></head>'' @ lf @
     ''<body>'' @ lf @ ''<center><h1>'' @ title @ ''</h1></center>'' @ lf @
     ''<hr><center>nginx/1.24.0</center>'' @ lf @ ''</body>'' @ lf @ ''</html>''"

definition error_response :: "string \<Rightarrow> string \<Rightarrow> bytes" where
  "error_response title date =
     str_bytes (''HTTP/1.1 '' @ title @ crlf @ ''Content-Type: text/html'' @ crlf @
       ''Content-Length: '' @ show_nat (length (error_page title)) @ crlf @
       ''Server: nginx/1.24.0'' @ crlf @ ''Date: '' @ date @ crlf @
       ''Connection: close'' @ crlf @ crlf @ error_page title)"

definition send404 :: "string \<Rightarrow> 'c action list" where
  "send404 date = [Sent (error_response ''404 Not Found'' date)]"

section \<open>The proxied site\<close>

text \<open>\<open>hr_body\<close> is what the peer sends, \<open>None\<close> when reading it fails. \<open>fetch k\<close> answers the \<open>k\<close>-th
  request made for one connection.\<close>

record http_response =
  hr_code :: nat
  hr_status :: string
  hr_header :: "(string \<times> string list) list"
  hr_body :: "bytes option"

definition body_limit :: nat where "body_limit = 10 * 1024 * 1024"

definition skipHeaders :: "string list" where
  "skipHeaders = [''Transfer-Encoding'', ''Content-Length'', ''Connection'', ''Alt-Svc'']"

definition header_lines :: "(string \<times> string list) list \<Rightarrow> string" where
  "header_lines hs =
     concat (map (\<lambda>(key, vals). if key \<in> set skipHeaders then ''''
       else concat (map (\<lambda>v. key @ '': '' @ v @ crlf) vals)) hs)"

definition proxied_head :: "http_response \<Rightarrow> bytes \<Rightarrow> string" where
  "proxied_head resp body =
     ''HTTP/1.1 '' @ show_nat (hr_code resp) @ '' '' @ hr_status resp @ crlf @
     header_lines (hr_header resp) @
     ''Content-Length: '' @ show_nat (length body) @ crlf @ ''Connection: close'' @ crlf @ crlf"

text \<open>Every failure calls \<^verbatim>\<open>sendFakeResponse\<close>, which calls this function again: \<open>None\<close> is a call
  that never returns.\<close>

partial_function (option) proxyToTarget ::
  "(nat \<Rightarrow> string \<Rightarrow> string \<Rightarrow> http_response option) \<Rightarrow> nat \<Rightarrow> string \<Rightarrow> string \<Rightarrow> 'c action list option"
where
  "proxyToTarget fetch k method path =
     (case fetch k method path of
        None \<Rightarrow> Option.bind (proxyToTarget fetch (Suc k) ''GET'' ''/'') (\<lambda>as. Some (as @ [CloseConn]))
      | Some resp \<Rightarrow>
          (case hr_body resp of
             None \<Rightarrow> Option.bind (proxyToTarget fetch (Suc k) ''GET'' ''/'') (\<lambda>as. Some (as @ [CloseConn]))
           | Some full \<Rightarrow>
               let body = take body_limit full
               in Some [Sent (str_bytes (proxied_head resp body)), Sent body, CloseConn]))"

text \<open>The world around one connection: the order in which the users are tried, the clocks, the
  address of the peer, the date text, the proxied site and the file system.\<close>

record request_env =
  en_order :: "string list"
  en_rate :: time
  en_now :: time
  en_addr :: net_addr
  en_date :: string
  en_fetch :: "nat \<Rightarrow> string \<Rightarrow> string \<Rightarrow> http_response option"
  en_file :: "string \<Rightarrow> bytes option"

definition sendFakeResponse :: "request_env \<Rightarrow> 'cert camouflage \<Rightarrow> 'c action list option" where
  "sendFakeResponse env cm =
     (if cm_target cm \<noteq> None then proxyToTarget (en_fetch env) 0 ''GET'' ''/''
      else Some [Sent (error_response ''400 Bad Request'' (en_date env))])"

section \<open>Files\<close>

definition content_type :: "string \<Rightarrow> string" where
  "content_type ext =
     (if ext = ''.css'' then ''text/css''
      else if ext = ''.js'' then ''application/javascript''
      else if ext = ''.json'' then ''application/json''
      else if ext = ''.png'' then ''image/png''
      else if ext = ''.jpg'' \<or> ext = ''.jpeg'' then ''image/jpeg''
      else if ext = ''.svg'' then ''image/svg+xml''
      else if ext = ''.ico'' then ''image/x-icon''
      else if ext = ''.woff2'' then ''font/woff2''
      else if ext = ''.woff'' then ''font/woff''
      else ''text/html; charset=utf-8'')"

definition file_response :: "string \<Rightarrow> string \<Rightarrow> bytes \<Rightarrow> bytes" where
  "file_response filePath date data =
     str_bytes (''HTTP/1.1 200 OK'' @ crlf @ ''Content-Type: '' @ content_type (path_ext filePath) @ crlf @
       ''Content-Length: '' @ show_nat (length data) @ crlf @ ''Server: nginx/1.24.0'' @ crlf @
       ''Date: '' @ date @ crlf @ ''Connection: keep-alive'' @ crlf @ crlf)"

text \<open>The file a request path selects, \<open>None\<close> when the guard refuses it.\<close>

definition web_file :: "camouflage_config \<Rightarrow> string \<Rightarrow> string option" where
  "web_file config path =
     (let path = (if path = ''/'' \<or> path = '''' then ''/'' @ IndexFile config else path);
          filePath = path_join (WebRoot config) (path_clean path)
      in if \<not> has_prefix filePath (WebRoot config) then None else Some filePath)"

definition serveWebContent ::
  "request_env \<Rightarrow> 'cert camouflage \<Rightarrow> string \<Rightarrow> 'c action list option" where
  "serveWebContent env cm path =
     (if cm_target cm \<noteq> None then proxyToTarget (en_fetch env) 0 ''GET'' path
      else case web_file (cm_config cm) path of
        None \<Rightarrow> Some (send404 (en_date env) @ [CloseConn])
      | Some filePath \<Rightarrow>
          (case en_file env filePath of
             None \<Rightarrow> Some (send404 (en_date env) @ [CloseConn])
           | Some data \<Rightarrow> Some [Sent (file_response filePath (en_date env) data), Sent data, CloseConn]))"

section \<open>Connections\<close>

definition switch_response :: bytes where
  "switch_response =
     str_bytes (''HTTP/1.1 200 OK'' @ crlf @ ''Content-Type: application/octet-stream'' @ crlf @
       ''Transfer-Encoding: chunked'' @ crlf @ ''Connection: keep-alive'' @ crlf @
       ''Cache-Control: no-store'' @ crlf @ crlf)"

definition auth_header :: "string list \<Rightarrow> string" where
  "auth_header lines =
     (case find (\<lambda>l. has_prefix (to_lower l) ''authorization:'') lines of
        None \<Rightarrow> '''' | Some l \<Rightarrow> trim_space (drop (length ''authorization:'') l))"

definition auth_token_bytes :: "string \<Rightarrow> bytes" where
  "auth_token_bytes authHeader =
     (let authToken = trim_prefix authHeader ''Bearer '' in
      case b64_decode b64_std authToken of None \<Rightarrow> str_bytes authToken | Some d \<Rightarrow> d)"

definition rejected :: "'c action list \<Rightarrow> request_env \<Rightarrow> 'cert camouflage \<Rightarrow> ('c action list \<times> 'cert camouflage) option" where
  "rejected before env cm = map_option (\<lambda>as. (before @ as @ [CloseConn], cm)) (sendFakeResponse env cm)"

definition handleHTTPRequest ::
  "request_env \<Rightarrow> 'c \<Rightarrow> bytes \<Rightarrow> 'cert camouflage \<Rightarrow> ('c action list \<times> 'cert camouflage) option" where
  "handleHTTPRequest env conn initialData cm =
     (let request = bytes_str initialData;
          lines = split_str request crlf in
      if length lines = 0 then rejected [] env cm
      else let parts = str_fields (hd lines) in
      if length parts < 2 then rejected [] env cm
      else
        let path = parts ! 1;
            authHeader = auth_header (tl lines);
            content = (\<lambda>before cm'. map_option (\<lambda>as. (before @ as, cm')) (serveWebContent env cm' path)) in
        if path = SecretPath (cm_config cm) \<and> authHeader \<noteq> '''' then
          let authData = auth_token_bytes authHeader in
          if 56 \<le> length authData then
            (case ValidateAuth (en_order env) (en_rate env) (en_now env) (take 56 authData) (en_addr env) (cm_auth cm) of
               (Ok session, am) \<Rightarrow>
                 if cm_handler cm
                 then Some ([Sent switch_response, ClearDeadline, Handler (Bare conn) session], cm\<lparr>cm_auth := am\<rparr>)
                 else content [Sent switch_response, ClearDeadline] (cm\<lparr>cm_auth := am\<rparr>)
             | (_, am) \<Rightarrow> content [] (cm\<lparr>cm_auth := am\<rparr>))
          else content [] cm
        else content [] cm)"

definition handleConnection ::
  "(nat \<Rightarrow> 'c \<Rightarrow> io_read \<times> 'c) \<Rightarrow> request_env \<Rightarrow> 'c \<Rightarrow> 'cert camouflage \<Rightarrow>
   ('c action list \<times> 'cert camouflage) option" where
  "handleConnection rd env conn cm =
     (case rd 4096 conn of
        (Fail e, _) \<Rightarrow> Some ([SetDeadline, CloseConn], cm)
      | (Got data, conn) \<Rightarrow>
          if isHTTPRequest data then
            map_option (\<lambda>(as, cm'). (SetDeadline # as, cm')) (handleHTTPRequest env conn data cm)
          else if 56 \<le> length data then
            (case ValidateAuth (en_order env) (en_rate env) (en_now env) (take 56 data) (en_addr env) (cm_auth cm) of
               (Ok session, am) \<Rightarrow>
                 if cm_handler cm then
                   let remainder = drop 56 data;
                       conn' = (if 0 < length remainder
                         then Prefixed \<lparr>px_conn = conn, px_prefix = remainder, px_read = False\<rparr> else Bare conn)
                   in Some ([SetDeadline, ClearDeadline, Handler conn' session], cm\<lparr>cm_auth := am\<rparr>)
                 else rejected [SetDeadline, ClearDeadline] env (cm\<lparr>cm_auth := am\<rparr>)
             | (_, am) \<Rightarrow> rejected [SetDeadline] env (cm\<lparr>cm_auth := am\<rparr>))
          else rejected [SetDeadline] env cm)"

text \<open>The raw connection, the same with its first bytes peeked, and the TLS connection over it:
  \<open>tls_server\<close> and \<open>tls_read\<close> stand for \<^verbatim>\<open>crypto/tls\<close>.\<close>

datatype ('s, 't) server_conn = Raw 's | Peeked "'s peeking_conn" | Secure 't

fun server_read ::
  "(nat \<Rightarrow> 's \<Rightarrow> io_read \<times> 's) \<Rightarrow> (nat \<Rightarrow> 't \<Rightarrow> io_read \<times> 't) \<Rightarrow> nat \<Rightarrow>
   ('s, 't) server_conn \<Rightarrow> io_read \<times> ('s, 't) server_conn"
where
  "server_read rd tls_read n (Raw s) = map_prod id Raw (rd n s)"
| "server_read rd tls_read n (Peeked p) = map_prod id Peeked (PeekingRead rd n p)"
| "server_read rd tls_read n (Secure t) = map_prod id Secure (tls_read n t)"

definition handleConnectionWrapped ::
  "(nat \<Rightarrow> 's \<Rightarrow> io_read \<times> 's) \<Rightarrow> ('cert \<Rightarrow> ('s, 't) server_conn \<Rightarrow> 't) \<Rightarrow> (nat \<Rightarrow> 't \<Rightarrow> io_read \<times> 't) \<Rightarrow>
   request_env \<Rightarrow> 's \<Rightarrow> 'cert camouflage \<Rightarrow>
   (unit, ('s, 't) server_conn action list \<times> 'cert camouflage) outcome option"
where
  "handleConnectionWrapped rd tls_server tls_read env conn cm =
     (let go = (\<lambda>c cm. map_option Ok (handleConnection (server_read rd tls_read) env
            (case cm_tls cm of None \<Rightarrow> c | Some cert \<Rightarrow> Secure (tls_server cert c)) cm)) in
      case cm_replay cm of
        None \<Rightarrow> go (Raw conn) cm
      | Some rf \<Rightarrow>
          (case NewPeekingConn rd conn 64 of
             Ok pConn \<Rightarrow>
               let peekData = Peek pConn in
               if 11 + 32 < length peekData \<and> peekData ! 0 = 0x16 then
                 (case CheckAndAdd (take 32 (drop 11 peekData)) rf of
                    None \<Rightarrow> Some Panic
                  | Some (True, rf') \<Rightarrow> Some (Ok ([CloseConn], cm\<lparr>cm_replay := Some rf'\<rparr>))
                  | Some (False, rf') \<Rightarrow> go (Peeked pConn) (cm\<lparr>cm_replay := Some rf'\<rparr>))
               else go (Peeked pConn) cm
           | _ \<Rightarrow> Some (Ok ([CloseConn], cm))))"

section \<open>The configuration endpoint\<close>

record config_endpoint =
  ce_configs :: "string \<rightharpoonup> subscription_config"

definition NewConfigEndpoint :: config_endpoint where
  "NewConfigEndpoint = \<lparr>ce_configs = Map.empty\<rparr>"

definition SetConfig :: "string \<Rightarrow> subscription_config \<Rightarrow> config_endpoint \<Rightarrow> config_endpoint" where
  "SetConfig userID config ce = ce\<lparr>ce_configs := (ce_configs ce)(userID \<mapsto> config)\<rparr>"

definition HandleRequest ::
  "(subscription_config \<Rightarrow> bytes option) \<Rightarrow> auth_session \<Rightarrow> config_endpoint \<Rightarrow> 'c action list" where
  "HandleRequest marshal session ce =
     (case ce_configs ce (u_id (as_user session)) of
        None \<Rightarrow>
          [Sent (str_bytes (''HTTP/1.1 404 Not Found'' @ crlf @ ''Content-Length: 0'' @ crlf @ crlf)), CloseConn]
      | Some config \<Rightarrow>
          (case EncodeSubscriptionURL marshal config of
             Ok url \<Rightarrow>
               [Sent (str_bytes (''HTTP/1.1 200 OK'' @ crlf @ ''Content-Type: text/plain'' @ crlf @
                  ''Content-Length: '' @ show_nat (length url) @ crlf @
                  ''Server: nginx/1.24.0'' @ crlf @ crlf @ url)), CloseConn]
           | _ \<Rightarrow>
               [Sent (str_bytes (''HTTP/1.1 500 Internal Server Error'' @ crlf @
                  ''Content-Length: 0'' @ crlf @ crlf)), CloseConn]))"

section \<open>Who is handed a session\<close>

definition handed_sessions :: "'c action list \<Rightarrow> auth_session list" where
  "handed_sessions as = concat (map (\<lambda>a. case a of Handler _ s \<Rightarrow> [s] | _ \<Rightarrow> []) as)"

lemma handed_sessions_simps [simp]:
  "handed_sessions [] = []"
  "handed_sessions (SetDeadline # as) = handed_sessions as"
  "handed_sessions (ClearDeadline # as) = handed_sessions as"
  "handed_sessions (Sent d # as) = handed_sessions as"
  "handed_sessions (CloseConn # as) = handed_sessions as"
  "handed_sessions (Handler h s # as) = s # handed_sessions as"
  "handed_sessions (as @ bs) = handed_sessions as @ handed_sessions bs"
  by (simp_all add: handed_sessions_def)

lemma proxy_no_session:
  assumes "proxyToTarget fetch k m p = Some as"
  shows "handed_sessions as = []"
  by (rule proxyToTarget.raw_induct [OF _ assms, where P = "\<lambda>_ _ _ _ as. handed_sessions as = []"])
    (fastforce split: option.splits Option.bind_splits simp: Let_def)

lemma fake_no_session: "sendFakeResponse env cm = Some as \<Longrightarrow> handed_sessions as = []"
  by (auto simp: sendFakeResponse_def dest: proxy_no_session split: if_splits)

lemma rejected_no_session:
  "rejected before env cm = Some (as, cm') \<Longrightarrow> handed_sessions as = handed_sessions before"
  by (auto simp: rejected_def dest: fake_no_session)

lemma content_no_session: "serveWebContent env cm path = Some as \<Longrightarrow> handed_sessions as = []"
  by (auto simp: serveWebContent_def send404_def dest: proxy_no_session split: if_splits option.splits)

text \<open>The credentials that a first read presents, and whom they admit.\<close>

definition presented :: "camouflage_config \<Rightarrow> bytes \<Rightarrow> bytes option" where
  "presented config data =
     (if \<not> isHTTPRequest data then Some data
      else let lines = split_str (bytes_str data) crlf; parts = str_fields (hd lines) in
        if 2 \<le> length parts \<and> parts ! 1 = SecretPath config \<and> auth_header (tl lines) \<noteq> ''''
        then Some (auth_token_bytes (auth_header (tl lines))) else None)"

definition admitted :: "request_env \<Rightarrow> 'cert camouflage \<Rightarrow> bytes \<Rightarrow> auth_session list" where
  "admitted env cm data =
     (case presented (cm_config cm) data of
        Some creds \<Rightarrow>
          if 56 \<le> length creds \<and> cm_handler cm then
            (case ValidateAuth (en_order env) (en_rate env) (en_now env) (take 56 creds) (en_addr env) (cm_auth cm) of
               (Ok session, _) \<Rightarrow> [session] | _ \<Rightarrow> [])
          else []
      | None \<Rightarrow> [])"

lemma split_loop_not_Nil [simp]: "split_loop sep acc s \<noteq> []"
  by (induction sep acc s rule: split_loop.induct) (subst split_loop.simps, simp)

lemma split_str_not_Nil [simp]: "split_str s sep \<noteq> []"
  by (simp add: split_str_def)

lemma handleHTTPRequest_admitted:
  assumes "handleHTTPRequest env conn data cm = Some (as, cm')" "isHTTPRequest data"
  shows "handed_sessions as = admitted env cm data"
  using assms
  by (auto simp: handleHTTPRequest_def admitted_def presented_def Let_def not_less not_le
      dest: rejected_no_session content_no_session split: if_splits prod.splits outcome.splits)

lemma handleConnection_admitted:
  assumes "handleConnection rd env conn cm = Some (as, cm')" "rd 4096 conn = (Got data, conn')"
  shows "handed_sessions as = admitted env cm data"
proof (cases "isHTTPRequest data")
  case True
  then show ?thesis
    using assms handleHTTPRequest_admitted [of env conn' data cm]
    by (auto simp: handleConnection_def)
next
  case False
  then show ?thesis
    using assms
    by (auto simp: handleConnection_def admitted_def presented_def Let_def not_le
        dest: rejected_no_session split: if_splits prod.splits outcome.splits)
qed

lemma ValidateAuth_Ok:
  assumes "ValidateAuth order t now d addr am = (Ok s, am')"
  shows "\<exists>i u. users am i = Some u \<and> as_user s = u \<and> \<not> expired now u \<and> mac_matches now d u"
proof -
  obtain b am1 where r: "checkRateLimit (remote_ip addr) t am = (b, am1)" by fastforce
  then have u: "users am1 = users am" using checkRateLimit_users [of "remote_ip addr" t am] by simp
  have "find_user now d (users am1) order = Some (as_user s)"
    using assms r by (auto simp: ValidateAuth_def Let_def split: bool.splits if_splits option.splits)
  from find_user_Some [OF this] show ?thesis using u by auto
qed

text \<open>C5. The camouflage only opens for credentials. Whatever arrives, a connection is handed to the
  VPN at most once, and exactly for the session that \<^verbatim>\<open>ValidateAuth\<close> gives to the first 56 bytes of
  what the first read presents: the bytes themselves, or the bearer token of a
  request for the secret path. So a handed session is always that of a registered, unexpired user whose
  authentication code the peer showed.\<close>

theorem camouflage_opens_for_credentials:
  assumes "handleConnection rd env conn cm = Some (as, cm')" "rd 4096 conn = (Got data, conn')"
  shows "handed_sessions as = admitted env cm data \<and> length (handed_sessions as) \<le> 1 \<and>
    (\<forall>s\<in>set (handed_sessions as). \<exists>creds i u. presented (cm_config cm) data = Some creds \<and>
       56 \<le> length creds \<and> users (cm_auth cm) i = Some u \<and> as_user s = u \<and>
       \<not> expired (en_now env) u \<and> mac_matches (en_now env) (take 56 creds) u)"
proof -
  have a: "handed_sessions as = admitted env cm data" by (rule handleConnection_admitted [OF assms])
  have "\<exists>creds i u. presented (cm_config cm) data = Some creds \<and>
       56 \<le> length creds \<and> users (cm_auth cm) i = Some u \<and> as_user s = u \<and>
       \<not> expired (en_now env) u \<and> mac_matches (en_now env) (take 56 creds) u"
    if s: "s \<in> set (admitted env cm data)" for s
  proof -
    from s obtain creds where c: "presented (cm_config cm) data = Some creds"
      by (cases "presented (cm_config cm) data") (simp_all only: admitted_def option.case list.set empty_iff)
    obtain r am where v: "ValidateAuth (en_order env) (en_rate env) (en_now env) (take 56 creds)
        (en_addr env) (cm_auth cm) = (r, am)" by fastforce
    have a: "admitted env cm data = (if 56 \<le> length creds \<and> cm_handler cm then
        (case r of Ok session \<Rightarrow> [session] | _ \<Rightarrow> []) else [])"
      by (cases r) (simp_all add: admitted_def c v)
    have "56 \<le> length creds \<and> r = Ok s"
    proof (cases "56 \<le> length creds \<and> cm_handler cm")
      case True
      with a s show ?thesis by (cases r) simp_all
    next
      case False
      then have "admitted env cm data = []" unfolding a by (rule if_not_P)
      with s show ?thesis by simp
    qed
    with c v show ?thesis using ValidateAuth_Ok by blast
  qed
  moreover have "length (admitted env cm data) \<le> 1"
    by (simp add: admitted_def split: option.split prod.split outcome.split)
  ultimately show ?thesis unfolding a by blast
qed

definition sample_env :: request_env where
  "sample_env = \<lparr>en_order = [], en_rate = 0, en_now = 0, en_addr = OtherAddr ''pipe'', en_date = [],
     en_fetch = (\<lambda>_ _ _. None), en_file = (\<lambda>_. None)\<rparr>"

definition sample_camouflage :: "unit camouflage" where
  "sample_camouflage = \<lparr>cm_config = DefaultCamouflageConfig, cm_auth = NewAuthManager (\<lambda>_. None) [],
     cm_replay = None, cm_tls = None, cm_target = None, cm_handler = True\<rparr>"

theorem camouflage_opens_for_credentials_witness:
  "\<exists>as cm'. handleConnection conn_read sample_env \<lparr>arriving = [[1, 2]], ending = EOF\<rparr> sample_camouflage = Some (as, cm') \<and>
     handed_sessions as = []"
proof -
  let ?c = "\<lparr>arriving = [[1, 2]], ending = EOF\<rparr>"
  have r: "conn_read 4096 ?c = (Got [1, 2], \<lparr>arriving = [], ending = EOF\<rparr>)"
    by (simp add: conn_read_def)
  obtain as cm' where h: "handleConnection conn_read sample_env ?c sample_camouflage = Some (as, cm')"
    by (simp add: handleConnection_def r isHTTPRequest_def rejected_def sendFakeResponse_def sample_camouflage_def)
  from camouflage_opens_for_credentials [OF h r]
  have "handed_sessions as = admitted sample_env sample_camouflage [1, 2]" by simp
  then show ?thesis using h by (simp add: admitted_def presented_def isHTTPRequest_def)
qed

section \<open>Nothing of the stream is lost after bare credentials\<close>

fun handed_read :: "(nat \<Rightarrow> 'c \<Rightarrow> io_read \<times> 'c) \<Rightarrow> nat \<Rightarrow> 'c handed \<Rightarrow> io_read \<times> 'c handed" where
  "handed_read rd n (Bare c) = map_prod id Bare (rd n c)"
| "handed_read rd n (Prefixed p) = map_prod id Prefixed (PrefixRead rd n p)"

fun handed_view :: "('c \<Rightarrow> 'a) \<Rightarrow> ('c prefix_conn \<Rightarrow> 'a) \<Rightarrow> 'c handed \<Rightarrow> 'a" where
  "handed_view f g (Bare c) = f c"
| "handed_view f g (Prefixed p) = g p"

lemma handed_view_same [simp]: "handed_view (\<lambda>_. k) (\<lambda>_. k) h = k"
  by (cases h) simp_all

sublocale wrappable \<subseteq> handed: byte_reader "handed_read rd"
  "handed_view valid (\<lambda>p. valid (px_conn p))"
  "handed_view pending (\<lambda>p. unprefixed p @ pending (px_conn p))"
  "handed_view fate (\<lambda>p. fate (px_conn p))"
  "handed_view weight (\<lambda>p. length (unprefixed p) + weight (px_conn p))"
proof unfold_locales
  fix s s' :: "'s handed" and n d
  assume v: "handed_view valid (\<lambda>p. valid (px_conn p)) s" and r: "handed_read rd n s = (Got d, s')"
  show "handed_view pending (\<lambda>p. unprefixed p @ pending (px_conn p)) s =
      d @ handed_view pending (\<lambda>p. unprefixed p @ pending (px_conn p)) s'"
    "length d \<le> n"
    "handed_view fate (\<lambda>p. fate (px_conn p)) s' = handed_view fate (\<lambda>p. fate (px_conn p)) s"
    using v r got_pending [of _ n d] got_length [of _ n d] got_fate [of _ n d]
      prefixed.got_pending [of _ n d] prefixed.got_length [of _ n d] prefixed.got_fate [of _ n d]
    by (cases s; auto simp: map_prod_def split: prod.splits)+
next
  fix s s' :: "'s handed" and n d
  assume v: "handed_view valid (\<lambda>p. valid (px_conn p)) s" and n: "0 < n" and r: "handed_read rd n s = (Got d, s')"
  show "handed_view weight (\<lambda>p. length (unprefixed p) + weight (px_conn p)) s' <
      handed_view weight (\<lambda>p. length (unprefixed p) + weight (px_conn p)) s"
    using v r got_progress [OF _ n, of _ d] prefixed.got_progress [OF _ n, of _ d]
    by (cases s) (auto simp: map_prod_def split: prod.splits)
next
  fix s s' :: "'s handed" and n e
  assume v: "handed_view valid (\<lambda>p. valid (px_conn p)) s" and n: "0 < n" and r: "handed_read rd n s = (Fail e, s')"
  show "handed_view pending (\<lambda>p. unprefixed p @ pending (px_conn p)) s = [] \<and>
      handed_view pending (\<lambda>p. unprefixed p @ pending (px_conn p)) s' = [] \<and>
      e = handed_view fate (\<lambda>p. fate (px_conn p)) s \<and>
      handed_view fate (\<lambda>p. fate (px_conn p)) s' = handed_view fate (\<lambda>p. fate (px_conn p)) s"
    using v r fail_end [OF _ n, of _ e] prefixed.fail_end [OF _ n, of _ e]
    by (cases s) (auto simp: map_prod_def split: prod.splits)
next
  fix s s' :: "'s handed" and n r
  assume "handed_view valid (\<lambda>p. valid (px_conn p)) s" "handed_read rd n s = (r, s')"
  then show "handed_view valid (\<lambda>p. valid (px_conn p)) s'"
    using valid_step [of _ n] prefixed.valid_step [of _ n]
    by (cases s) (auto simp: map_prod_def split: prod.splits)
qed

text \<open>What precedes the hand-over, and how much of the stream has been used up by then: the
  credentials, or the whole first read when it was an HTTP request.\<close>

definition greeting :: "bytes \<Rightarrow> 'c action list" where
  "greeting data =
     (if isHTTPRequest data then [SetDeadline, Sent switch_response, ClearDeadline] else [SetDeadline, ClearDeadline])"

definition used_up :: "bytes \<Rightarrow> nat" where
  "used_up data = (if isHTTPRequest data then length data else 56)"

lemma http_handover:
  assumes "handleHTTPRequest env c' data cm = Some (as, cm')" "handed_sessions as = [s]"
  shows "as = [Sent switch_response, ClearDeadline, Handler (Bare c') s]"
  using assms
  by (auto simp: handleHTTPRequest_def Let_def
      dest: rejected_no_session content_no_session split: if_splits prod.splits outcome.splits)

lemma bare_handover:
  assumes "handleConnection rd env c cm = Some (as, cm')" "rd 4096 c = (Got data, c')"
    "\<not> isHTTPRequest data" "handed_sessions as = [s]"
  shows "56 \<le> length data \<and> as = [SetDeadline, ClearDeadline,
    Handler (if 0 < length (drop 56 data)
      then Prefixed \<lparr>px_conn = c', px_prefix = drop 56 data, px_read = False\<rparr> else Bare c') s]"
proof -
  obtain r am where v: "ValidateAuth (en_order env) (en_rate env) (en_now env) (take 56 data)
      (en_addr env) (cm_auth cm) = (r, am)" by fastforce
  have l: "56 \<le> length data"
    using assms by (cases "56 \<le> length data") (auto simp: handleConnection_def dest: rejected_no_session)
  show ?thesis
  proof (cases r)
    case (Ok s')
    then show ?thesis
      using assms v l by (auto simp: handleConnection_def Let_def dest: rejected_no_session split: if_splits)
  qed (use assms v l in \<open>auto simp: handleConnection_def dest: rejected_no_session\<close>)
qed

lemma session_rest:
  assumes "handleConnection conn_read env c cm = Some (as, cm')" "conn_read 4096 c = (Got data, c')"
    "handed_sessions as = [s]"
  shows "\<exists>h. as = greeting data @ [Handler h s] \<and>
    (\<exists>h'. read_full (handed_read conn_read) n h =
       Some (fst (take_full n (ending c) (drop (used_up data) (concat (arriving c)))), h'))"
proof -
  have p: "concat (arriving c) = data @ concat (arriving c')" "ending c' = ending c"
    using net_in.got_pending [OF _ assms(2)] net_in.got_fate [OF _ assms(2)] by simp_all
  have "\<exists>h. as = greeting data @ [Handler h s] \<and>
    handed_view (\<lambda>c. concat (arriving c)) (\<lambda>p. unprefixed p @ concat (arriving (px_conn p))) h =
      drop (used_up data) (concat (arriving c)) \<and>
    handed_view ending (\<lambda>p. ending (px_conn p)) h = ending c"
  proof (cases "isHTTPRequest data")
    case True
    from assms True obtain as1 where h: "handleHTTPRequest env c' data cm = Some (as1, cm')" "as = SetDeadline # as1"
      by (auto simp: handleConnection_def)
    from http_handover [OF h(1), of s] h(2) assms(3) show ?thesis
      using True p by (intro exI [of _ "Bare c'"]) (simp add: greeting_def used_up_def)
  next
    case False
    from bare_handover [OF assms(1,2) False assms(3)] show ?thesis
      using p False by (auto simp: greeting_def used_up_def unprefixed_def)
  qed
  then obtain h where h: "as = greeting data @ [Handler h s]"
    "handed_view (\<lambda>c. concat (arriving c)) (\<lambda>p. unprefixed p @ concat (arriving (px_conn p))) h =
      drop (used_up data) (concat (arriving c))"
    "handed_view ending (\<lambda>p. ending (px_conn p)) h = ending c" by blast
  obtain h' where "read_full (handed_read conn_read) n h =
      Some (fst (take_full n (ending c) (drop (used_up data) (concat (arriving c)))), h')"
    by (rule net_wrap.handed.read_full_take [of h n, unfolded h(2,3)]) simp_all
  then show ?thesis using h(1) by blast
qed

section \<open>The files that can be reached\<close>

text \<open>C29. A request cannot leave the web root by \<^verbatim>\<open>..\<close> when its path is rooted: the file read lies
  at or below the (cleaned, rooted) web root, whose elements are followed by
  plain names only. The guard is not what ensures it: it compares strings, so a request whose path is
  not rooted reaches a sibling directory whose name starts like the web root's.\<close>

theorem web_root_confinement:
  "(path_rooted (WebRoot cfg) \<longrightarrow> path_rooted path \<longrightarrow> web_file cfg path = Some file \<longrightarrow>
     (\<exists>below. path_elements file = path_elements (WebRoot cfg) @ below \<and> list_all plain_part below)) \<and>
   (WebRoot cfg = ''/var/www/html'' \<longrightarrow>
     web_file cfg ''../html-private/key'' = Some ''/var/www/html-private/key'')"
proof (intro conjI impI)
  assume r: "path_rooted (WebRoot cfg)" "path_rooted path" and f: "web_file cfg path = Some file"
  let ?p = "if path = ''/'' \<or> path = '''' then ''/'' @ IndexFile cfg else path"
  have p: "path_rooted ?p" using r(2) by (simp add: path_rooted_def has_prefix_def)
  have "file = path_join (WebRoot cfg) (path_clean ?p)"
    using f by (simp only: web_file_def Let_def if_distrib [of path_clean] split: if_splits) auto
  then show "\<exists>below. path_elements file = path_elements (WebRoot cfg) @ below \<and> list_all plain_part below"
    using path_join_below [OF r(1) p] path_elements_rooted [OF p] by auto
next
  assume w: "WebRoot cfg = ''/var/www/html''"
  have "path_join ''/var/www/html'' (path_clean ''../html-private/key'') = ''/var/www/html-private/key''"
    by code_simp
  then show "web_file cfg ''../html-private/key'' = Some ''/var/www/html-private/key''"
    by (simp add: web_file_def w Let_def has_prefix_def)
qed

theorem web_root_confinement_witness:
  "\<exists>below. path_elements ''/var/www/html/etc/passwd'' = path_elements ''/var/www/html'' @ below \<and> list_all plain_part below"
proof -
  have f: "web_file DefaultCamouflageConfig ''/../../etc/passwd'' = Some ''/var/www/html/etc/passwd''"
    by code_simp
  have "path_rooted (WebRoot DefaultCamouflageConfig)" "path_rooted ''/../../etc/passwd''"
    "WebRoot DefaultCamouflageConfig = ''/var/www/html''"
    by (simp_all add: path_rooted_def has_prefix_def DefaultCamouflageConfig_def)
  then show ?thesis
    using web_root_confinement [of DefaultCamouflageConfig "''/../../etc/passwd''" "''/var/www/html/etc/passwd''"] f
    by simp
qed

section \<open>A target that does not answer\<close>

definition answers :: "(nat \<Rightarrow> string \<Rightarrow> string \<Rightarrow> http_response option) \<Rightarrow> nat \<Rightarrow> string \<Rightarrow> bool" where
  "answers fetch k path \<longleftrightarrow> (\<exists>r b. fetch k ''GET'' path = Some r \<and> hr_body r = Some b)"

lemma proxy_step:
  "\<not> answers fetch k path \<Longrightarrow>
   proxyToTarget fetch k ''GET'' path =
     Option.bind (proxyToTarget fetch (Suc k) ''GET'' ''/'') (\<lambda>as. Some (as @ [CloseConn]))"
  by (subst proxyToTarget.simps) (auto simp: answers_def split: option.splits)

lemma proxy_answered:
  "answers fetch k path \<Longrightarrow> proxyToTarget fetch k ''GET'' path \<noteq> None"
  by (subst proxyToTarget.simps) (auto simp: answers_def Let_def)

lemma proxy_returns_later:
  "answers fetch (k + n) ''/'' \<Longrightarrow> proxyToTarget fetch k ''GET'' ''/'' \<noteq> (None :: 'c action list option)"
proof (induction n arbitrary: k)
  case (Suc n)
  show ?case
  proof (cases "answers fetch k ''/''")
    case False
    from Suc.IH [of "Suc k"] Suc.prems
    obtain as :: "'c action list" where "proxyToTarget fetch (Suc k) ''GET'' ''/'' = Some as" by auto
    then show ?thesis by (simp add: proxy_step [OF False])
  qed (rule proxy_answered)
qed (simp add: proxy_answered)

lemma proxy_answer_needed:
  assumes "proxyToTarget fetch k m path = Some as"
  shows "m = ''GET'' \<longrightarrow> answers fetch k path \<or> (\<exists>j>k. answers fetch j ''/'')"
proof (rule proxyToTarget.raw_induct [OF _ assms, where
      P = "\<lambda>fetch k m path as. m = ''GET'' \<longrightarrow> answers fetch k path \<or> (\<exists>j>k. answers fetch j ''/'')"])
  fix proxy :: "(nat \<Rightarrow> string \<Rightarrow> string \<Rightarrow> http_response option) \<Rightarrow> nat \<Rightarrow> string \<Rightarrow> string \<Rightarrow> 'b action list option"
    and fetch k meth path as
  assume ih: "\<And>fetch k m path as. proxy fetch k m path = Some as \<Longrightarrow>
      m = ''GET'' \<longrightarrow> answers fetch k path \<or> (\<exists>j>k. answers fetch j ''/'')"
    and eq: "(case fetch k meth path of
        None \<Rightarrow> Option.bind (proxy fetch (Suc k) ''GET'' ''/'') (\<lambda>as. Some (as @ [CloseConn]))
      | Some resp \<Rightarrow>
          (case hr_body resp of
             None \<Rightarrow> Option.bind (proxy fetch (Suc k) ''GET'' ''/'') (\<lambda>as. Some (as @ [CloseConn]))
           | Some full \<Rightarrow>
               let body = take body_limit full
               in Some [Sent (str_bytes (proxied_head resp body)), Sent body, CloseConn])) = Some as"
  show "meth = ''GET'' \<longrightarrow> answers fetch k path \<or> (\<exists>j>k. answers fetch j ''/'')"
  proof
    assume g: "meth = ''GET''"
    show "answers fetch k path \<or> (\<exists>j>k. answers fetch j ''/'')"
    proof (cases "answers fetch k path")
      case False
      then have "Option.bind (proxy fetch (Suc k) ''GET'' ''/'') (\<lambda>as. Some (as @ [CloseConn])) = Some as"
        using eq g by (auto simp: answers_def split: option.splits)
      then obtain as' where "proxy fetch (Suc k) ''GET'' ''/'' = Some as'"
        by (cases "proxy fetch (Suc k) ''GET'' ''/''") auto
      from ih [OF this] show ?thesis by (metis Suc_lessD less_Suc_eq lessI)
    qed simp
  qed
qed

text \<open>C28. A camouflage that proxies a web site answers if and only if the site does. When the target answers none of the
  requests, the handler of the error calls itself through \<^verbatim>\<open>sendFakeResponse\<close> without bound
  and the connection's goroutine never returns; it returns exactly when the request, or one of the retries of
  the target's front page, is answered.\<close>

theorem proxy_returns_iff_answered:
  "proxyToTarget fetch 0 ''GET'' path \<noteq> (None :: 'c action list option) \<longleftrightarrow>
     answers fetch 0 path \<or> (\<exists>j>0. answers fetch j ''/'')"
proof
  assume "proxyToTarget fetch 0 ''GET'' path \<noteq> (None :: 'c action list option)"
  then obtain as :: "'c action list" where "proxyToTarget fetch 0 ''GET'' path = Some as" by auto
  from proxy_answer_needed [OF this] show "answers fetch 0 path \<or> (\<exists>j>0. answers fetch j ''/'')" by simp
next
  assume a: "answers fetch 0 path \<or> (\<exists>j>0. answers fetch j ''/'')"
  show "proxyToTarget fetch 0 ''GET'' path \<noteq> (None :: 'c action list option)"
  proof (cases "answers fetch 0 path")
    case False
    then obtain j where "0 < j" "answers fetch j ''/''" using a by auto
    then have "answers fetch (1 + (j - 1)) ''/''" by simp
    from proxy_returns_later [OF this]
    obtain as :: "'c action list" where "proxyToTarget fetch (Suc 0) ''GET'' ''/'' = Some as" by auto
    then show ?thesis by (simp add: proxy_step [OF False])
  qed (rule proxy_answered)
qed

section \<open>Replayed handshakes\<close>

definition hello_random :: "bytes \<Rightarrow> bytes" where
  "hello_random data = take 32 (drop 11 data)"

text \<open>A TLS hello is served once. A connection whose first read brings at least 44 bytes of a TLS
  record is dropped with nothing sent when the 32 bytes at offset 11 were seen before, and
  serving it makes the same bytes seen for the next connection; with a shorter first read no check is made and
  the filter stays as it was.\<close>

theorem replayed_hello_dropped:
  assumes "cm_replay cm = Some rf" "bloom_ok (current rf)" "\<forall>p. previous rf = Some p \<longrightarrow> bloom_ok p"
    "conn_read 64 c = (Got data, c')"
  shows "(43 < length data \<and> data ! 0 = 0x16 \<longrightarrow>
      (\<exists>rf'. seen Contains (hello_random data) rf' = Some True \<and>
        (case seen Contains (hello_random data) rf of
           Some True \<Rightarrow> handleConnectionWrapped conn_read srv rd env c cm =
              Some (Ok ([CloseConn], cm\<lparr>cm_replay := Some rf'\<rparr>))
         | _ \<Rightarrow> handleConnectionWrapped conn_read srv rd env c cm =
              map_option Ok (handleConnection (server_read conn_read rd) env
                (case cm_tls cm of
                   None \<Rightarrow> Peeked \<lparr>pk_conn = c', peekBuf = data, readIdx = 0\<rparr>
                 | Some cert \<Rightarrow> Secure (srv cert (Peeked \<lparr>pk_conn = c', peekBuf = data, readIdx = 0\<rparr>)))
                (cm\<lparr>cm_replay := Some rf'\<rparr>))))) \<and>
    (length data \<le> 43 \<longrightarrow> handleConnectionWrapped conn_read srv rd env c cm =
       map_option Ok (handleConnection (server_read conn_read rd) env
         (case cm_tls cm of
            None \<Rightarrow> Peeked \<lparr>pk_conn = c', peekBuf = data, readIdx = 0\<rparr>
          | Some cert \<Rightarrow> Secure (srv cert (Peeked \<lparr>pk_conn = c', peekBuf = data, readIdx = 0\<rparr>))) cm))"
proof -
  have ok: "bloom_filter.filter_ok rf" using assms(2,3) by (simp add: bloom_filter.filter_ok_def)
  obtain b rf' where c: "CheckAndAdd (hello_random data) rf = Some (b, rf')"
    "seen Contains (hello_random data) rf' = Some True" "seen Contains (hello_random data) rf = Some b"
    using bloom_filter.check_and_add_spec [OF ok, of "hello_random data"] by (auto simp: CheckAndAdd_def)
  have n: "NewPeekingConn conn_read c 64 = Ok \<lparr>pk_conn = c', peekBuf = data, readIdx = 0\<rparr>"
    using assms(4) by (simp add: NewPeekingConn_def)
  show ?thesis
    using c by (auto simp: handleConnectionWrapped_def assms(1) n Peek_def hello_random_def Let_def
        intro!: exI [of _ rf'] split: bool.split)
qed

theorem replayed_hello_dropped_witness:
  "handleConnectionWrapped conn_read (\<lambda>c s. ()) (\<lambda>_ _. (Fail EOF, ())) sample_env
     \<lparr>arriving = [[0x16, 3, 1]], ending = EOF\<rparr>
     (sample_camouflage\<lparr>cm_replay := Some (NewReplayFilter (NewBloomFilter 64 2))\<rparr>) =
   map_option Ok (handleConnection (server_read conn_read (\<lambda>_ _. (Fail EOF, ()))) sample_env
     (Peeked \<lparr>pk_conn = \<lparr>arriving = [], ending = EOF\<rparr>, peekBuf = [0x16, 3, 1], readIdx = 0\<rparr>)
     (sample_camouflage\<lparr>cm_replay := Some (NewReplayFilter (NewBloomFilter 64 2))\<rparr>))"
proof -
  have "conn_read 64 \<lparr>arriving = [[0x16, 3, 1]], ending = EOF\<rparr> = (Got [0x16, 3, 1], \<lparr>arriving = [], ending = EOF\<rparr>)"
    by (simp add: conn_read_def)
  from replayed_hello_dropped [OF _ _ _ this, of "sample_camouflage\<lparr>cm_replay := Some (NewReplayFilter (NewBloomFilter 64 2))\<rparr>"
      "NewReplayFilter (NewBloomFilter 64 2)" "\<lambda>c s. ()" "\<lambda>_ _. (Fail EOF, ())" sample_env]
  show ?thesis by (simp add: NewReplayFilter_def NewBloomFilter_ok sample_camouflage_def)
qed

end
