(* ===== verification/Dial.thy ===== *)
theory Dial
  imports Camouflage Relay Redstone
begin

text \<open>
  \<^verbatim>\<open>core/transport/upstream.go\<close>: how a client (or a server with an upstream) opens one
  connection through a VPN server: the credentials in an HTTP request for the secret path or
  bare, the address header, and the status byte. The TLS connection itself, with or without a
  browser's fingerprint, is a parameter.
\<close>

section \<open>Host and port\<close>

text \<open>\<^verbatim>\<open>net.SplitHostPort\<close>; every error gives empty strings.\<close>

fun last_index :: "'a \<Rightarrow> 'a list \<Rightarrow> nat option" where
  "last_index c [] = None"
| "last_index c (x # xs) =
     (case last_index c xs of Some i \<Rightarrow> Some (Suc i) | None \<Rightarrow> if x = c then Some 0 else None)"

definition split_host_port :: "string \<Rightarrow> (string \<times> string) option" where
  "split_host_port s =
     (case last_index CHR '':'' s of
        None \<Rightarrow> None
      | Some i \<Rightarrow>
          let finish = (\<lambda>host j k.
            if CHR ''['' \<in> set (drop j s) \<or> CHR '']'' \<in> set (drop k s) then None
            else Some (host, drop (i + 1) s)) in
          if hd s = CHR ''['' then
            (case index_of (CHR '']'') s of
               None \<Rightarrow> None
             | Some e \<Rightarrow> if e + 1 = i then finish (take (e - 1) (tl s)) 1 (e + 1) else None)
          else if CHR '':'' \<in> set (take i s) then None
          else finish (take i s) 0 0)"

definition host_of :: "string \<Rightarrow> string" where
  "host_of hostport = (case split_host_port hostport of None \<Rightarrow> '''' | Some (h, _) \<Rightarrow> h)"

section \<open>Fingerprints\<close>

datatype hello_id =
    HelloChrome | HelloFirefox | HelloEdge | HelloSafari | HelloIOS | HelloAndroid
  | Hello360 | HelloQQ | HelloRandomized

definition hello_of :: "string \<Rightarrow> hello_id" where
  "hello_of fingerprint =
     (let f = to_lower fingerprint in
      if f = ''chrome'' then HelloChrome
      else if f = ''firefox'' then HelloFirefox
      else if f = ''edge'' then HelloEdge
      else if f = ''safari'' then HelloSafari
      else if f = ''ios'' then HelloIOS
      else if f = ''android'' then HelloAndroid
      else if f = ''360'' then Hello360
      else if f = ''qq'' then HelloQQ
      else if f = ''random'' then HelloRandomized
      else HelloChrome)"

text \<open>\<open>dial_tls\<close> and \<open>dial_utls\<close> stand for \<^verbatim>\<open>crypto/tls\<close> and the uTLS package, each of which gives a connection
  or fails.\<close>

record tls_dialers =
  dial_tls :: "string \<Rightarrow> string \<Rightarrow> endpoint option"
  dial_utls :: "hello_id \<Rightarrow> string \<Rightarrow> string \<Rightarrow> endpoint option"

definition dialUTLS :: "tls_dialers \<Rightarrow> string \<Rightarrow> string \<Rightarrow> string \<Rightarrow> endpoint option" where
  "dialUTLS d serverAddr sni fingerprint = dial_utls d (hello_of fingerprint) serverAddr sni"

definition DialTransport :: "tls_dialers \<Rightarrow> string \<Rightarrow> string \<Rightarrow> string \<Rightarrow> endpoint option" where
  "DialTransport d serverAddr sni fingerprint =
     (if fingerprint = '''' then dial_tls d serverAddr sni else dialUTLS d serverAddr sni fingerprint)"

section \<open>Reading and writing an endpoint\<close>

definition ep_read_full :: "nat \<Rightarrow> endpoint \<Rightarrow> ((io_error, bytes) outcome \<times> endpoint) option" where
  "ep_read_full n ep =
     map_option (\<lambda>(r, s). (r, ep\<lparr>ep_in := s\<rparr>)) (read_full conn_read n (ep_in ep))"

definition ep_read :: "nat \<Rightarrow> endpoint \<Rightarrow> io_read \<times> endpoint" where
  "ep_read n ep = map_prod id (\<lambda>s. ep\<lparr>ep_in := s\<rparr>) (conn_read n (ep_in ep))"

definition ep_write :: "bytes \<Rightarrow> endpoint \<Rightarrow> io_error option \<times> endpoint" where
  "ep_write bs ep = map_prod id (\<lambda>w. ep\<lparr>ep_out := w\<rparr>) (conn_write bs (ep_out ep))"

definition ep_send :: "bytes \<Rightarrow> endpoint \<Rightarrow> endpoint" where
  "ep_send bs ep = snd (ep_write bs ep)"

lemma ep_send_up [simp]:
  assumes "lives (ep_out c) = None"
  shows "lives (ep_out (ep_send bs c)) = None" "concat (taken (ep_out (ep_send bs c))) = concat (taken (ep_out c)) @ bs"
    "ep_in (ep_send bs c) = ep_in c"
  using assms by (simp_all add: ep_send_def ep_write_def conn_write_def)

text \<open>A TCP connection that delivers the given chunks and takes everything.\<close>

definition sample_conn :: "bytes list \<Rightarrow> endpoint" where
  "sample_conn bs = \<lparr>ep_in = \<lparr>arriving = bs, ending = EOF\<rparr>, ep_out = \<lparr>taken = [], lives = None\<rparr>,
     ep_kind = TCPConn, ep_write_closed = False\<rparr>"

section \<open>The opening exchange\<close>

text \<open>The request, the same in \<^verbatim>\<open>upstream.go\<close> and \<^verbatim>\<open>client.go\<close>.\<close>

definition http_auth_lines :: "string \<Rightarrow> string \<Rightarrow> bytes \<Rightarrow> string list" where
  "http_auth_lines secretPath sni authPayload =
     [''POST '' @ secretPath @ '' HTTP/1.1'',
      ''Host: '' @ sni,
      ''Authorization: Bearer '' @ b64_encode b64_std authPayload,
      ''Content-Type: application/octet-stream'',
      ''Connection: keep-alive'']"

definition http_auth_request :: "string \<Rightarrow> string \<Rightarrow> bytes \<Rightarrow> bytes" where
  "http_auth_request secretPath sni authPayload =
     str_bytes (concat (map (\<lambda>l. l @ crlf) (http_auth_lines secretPath sni authPayload)) @ crlf)"

definition response_ok :: "bytes \<Rightarrow> bool" where
  "response_ok resp \<longleftrightarrow> \<not> (length resp < 12 \<or> bytes_str (take 3 (drop 9 resp)) \<noteq> ''200'')"

datatype vpn_error =
    VpnDialFailed
  | VpnAuthGeneration
  | VpnRequestWrite io_error
  | VpnResponseRead io_error
  | VpnAuthFailed bytes
  | VpnAddressWrite io_error
  | VpnStatusRead io_error
  | VpnStatus dial_error

text \<open>\<open>None\<close> as the outer result is a connection that never delivers.\<close>

definition read_status :: "endpoint \<Rightarrow> (vpn_error, endpoint) outcome option" where
  "read_status ep =
     (case ep_read_full 1 ep of
        None \<Rightarrow> None
      | Some (Err e, _) \<Rightarrow> Some (Err (VpnStatusRead e))
      | Some (Panic, _) \<Rightarrow> Some Panic
      | Some (Ok status, ep') \<Rightarrow>
          Some (case dial_status (hd status) of
             Ok _ \<Rightarrow> Ok ep' | Err e \<Rightarrow> Err (VpnStatus e) | Panic \<Rightarrow> Panic))"

text \<open>After the dial; \<open>nonce\<close> are the random bytes of the credentials.\<close>

definition vpn_exchange ::
  "string \<Rightarrow> string \<Rightarrow> time \<Rightarrow> bytes option \<Rightarrow> string \<Rightarrow> bytes \<Rightarrow> endpoint \<Rightarrow>
   (vpn_error, endpoint) outcome option" where
  "vpn_exchange sni psk now nonce secretPath addrHeader ep =
     (case GenerateAuthPayload psk now nonce of
        None \<Rightarrow> Some (Err VpnAuthGeneration)
      | Some authPayload \<Rightarrow>
          if secretPath \<noteq> '''' then
            (case ep_write (http_auth_request secretPath sni authPayload) ep of
               (Some e, _) \<Rightarrow> Some (Err (VpnRequestWrite e))
             | (None, ep1) \<Rightarrow>
                 (case ep_read 4096 ep1 of
                    (Fail e, _) \<Rightarrow> Some (Err (VpnResponseRead e))
                  | (Got resp, ep2) \<Rightarrow>
                      if \<not> response_ok resp then Some (Err (VpnAuthFailed (take 50 resp)))
                      else (case ep_write addrHeader ep2 of
                         (Some e, _) \<Rightarrow> Some (Err (VpnAddressWrite e))
                       | (None, ep3) \<Rightarrow> read_status ep3)))
          else
            (case ep_write (authPayload @ addrHeader) ep of
               (Some e, _) \<Rightarrow> Some (Err (VpnAddressWrite e))
             | (None, ep1) \<Rightarrow> read_status ep1))"

definition DialVPNServer ::
  "tls_dialers \<Rightarrow> time \<Rightarrow> bytes option \<Rightarrow> string \<Rightarrow> string \<Rightarrow> string \<Rightarrow> string \<Rightarrow> string \<Rightarrow>
   byte \<Rightarrow> string \<Rightarrow> u16 \<Rightarrow> (vpn_error, endpoint) outcome option" where
  "DialVPNServer d now nonce serverAddr sni psk secretPath fingerprint addrType addr port =
     (let sni = (if sni = '''' then host_of serverAddr else sni) in
      case DialTransport d serverAddr sni fingerprint of
        None \<Rightarrow> Some (Err VpnDialFailed)
      | Some ep \<Rightarrow> vpn_exchange sni psk now nonce secretPath (EncodeAddress addrType addr port) ep)"

definition DialUpstream ::
  "tls_dialers \<Rightarrow> time \<Rightarrow> bytes option \<Rightarrow> upstream_config \<Rightarrow> byte \<Rightarrow> string \<Rightarrow> u16 \<Rightarrow>
   (vpn_error, endpoint) outcome option" where
  "DialUpstream d now nonce config addrType addr port =
     (let secretPath = (if us_secret_path config = '''' then ''/api/v2/sync'' else us_secret_path config)
      in DialVPNServer d now nonce (us_address config) (us_sni config) (us_psk config) secretPath
           (us_fingerprint config) addrType addr port)"

section \<open>The request at the server\<close>

definition clean_text :: "string \<Rightarrow> bool" where
  "clean_text s \<longleftrightarrow> CHR 0x0D \<notin> set s"

definition word_text :: "string \<Rightarrow> bool" where
  "word_text s \<longleftrightarrow> s \<noteq> '''' \<and> (\<forall>c\<in>set s. \<not> is_space c)"

lemma split_loop_clean:
  "CHR 0x0D \<notin> set l \<Longrightarrow> split_loop crlf acc (l @ crlf @ r) = (rev acc @ l) # split_loop crlf [] r"
proof (induction l arbitrary: acc)
  case Nil
  show ?case
    by (subst split_loop.simps) (simp add: crlf_def has_prefix_def)
next
  case (Cons c l)
  then have "\<not> has_prefix ((c # l) @ crlf @ r) crlf" by (auto simp: crlf_def has_prefix_def)
  then have "split_loop crlf acc ((c # l) @ crlf @ r) = split_loop crlf (c # acc) (l @ crlf @ r)"
    by (subst split_loop.simps) (simp add: crlf_def)
  with Cons show ?case by simp
qed

lemma split_loop_lines:
  "\<forall>l\<in>set ls. CHR 0x0D \<notin> set l \<Longrightarrow>
   split_loop crlf [] (concat (map (\<lambda>l. l @ crlf) ls) @ r) = ls @ split_loop crlf [] r"
  by (induction ls) (simp_all add: split_loop_clean)

lemma takeWhile_word: "\<forall>c\<in>set s. \<not> is_space c \<Longrightarrow> is_space d \<Longrightarrow>
   takeWhile (\<lambda>c. \<not> is_space c) (s @ d # r) = s \<and> dropWhile (\<lambda>c. \<not> is_space c) (s @ d # r) = d # r"
  by (induction s) auto

lemma str_fields_word:
  "word_text w \<Longrightarrow> is_space d \<Longrightarrow> str_fields (w @ d # r) = w # str_fields (d # r)"
proof -
  assume w: "word_text w" and d: "is_space d"
  then obtain c w' where c: "w = c # w'" "\<not> is_space c" by (cases w) (auto simp: word_text_def)
  then have "dropWhile is_space (w @ d # r) = w @ d # r" by simp
  then show ?thesis
    using w c takeWhile_word [of w d r] d
    by (subst str_fields.simps) (auto simp: word_text_def Let_def)
qed

lemma str_fields_space: "is_space d \<Longrightarrow> str_fields (d # r) = str_fields r"
  by (simp add: str_fields.simps [of "d # r"] str_fields.simps [of r] Let_def)

lemma is_space_blank [simp]: "is_space CHR '' ''" by (simp add: is_space_def)

lemma not_space_char:
  assumes "c \<in> set (b64_encode b64_std d)"
  shows "\<not> is_space c \<and> c \<noteq> CHR 0x0D"
proof -
  have "\<forall>c\<in>insert CHR ''='' (set b64_std). \<not> is_space c \<and> c \<noteq> CHR 0x0D"
    by (simp add: b64_std_def is_space_def)
  then show ?thesis using b64_encode_chars [of b64_std d] assms by auto
qed

lemma request_line_fields:
  assumes "word_text p"
  shows "str_fields (''POST '' @ p @ '' HTTP/1.1'') = [''POST'', p, ''HTTP/1.1'']"
proof -
  have w: "word_text ''POST''" "word_text ''HTTP/1.1''" by (simp_all add: word_text_def is_space_def)
  have e: "str_fields w = [w]" if "word_text w" for w
  proof -
    have d: "dropWhile is_space w = w" using \<open>word_text w\<close> by (cases w) (auto simp: word_text_def)
    have t: "takeWhile (\<lambda>c. \<not> is_space c) w = w" "dropWhile (\<lambda>c. \<not> is_space c) w = []" "w \<noteq> []"
      using \<open>word_text w\<close> by (simp_all add: word_text_def)
    have n: "str_fields [] = []" by (simp add: str_fields.simps [of "[]"])
    show ?thesis
      by (subst str_fields.simps) (simp only: d t n Let_def if_False)
  qed
  show ?thesis
    using str_fields_word [OF w(1) is_space_blank, of "p @ '' HTTP/1.1''"]
      str_fields_word [OF assms is_space_blank, of "''HTTP/1.1''"] e [OF w(2)]
    by (simp add: str_fields_space)
qed

lemma auth_header_found:
  assumes "d \<noteq> []"
  shows "auth_header (tl (http_auth_lines p sni d) @ r) = ''Bearer '' @ b64_encode b64_std d"
proof -
  let ?t = "b64_encode b64_std d"
  have h: "\<not> has_prefix (to_lower (''Host: '' @ sni)) ''authorization:''"
    by (simp add: to_lower_def to_lower_char_def has_prefix_def)
  have a: "has_prefix (to_lower (''Authorization: Bearer '' @ ?t)) ''authorization:''"
  proof -
    have "map to_lower_char ''Authorization:'' = ''authorization:''" by code_simp
    then show ?thesis by (simp add: to_lower_def has_prefix_def)
  qed
  have "dropWhile is_space (rev ?t @ rev ''Bearer '') = rev ?t @ rev ''Bearer ''" if ne: "?t \<noteq> []"
  proof -
    obtain ys y where y: "?t = ys @ [y]" using ne by (cases "b64_encode b64_std d" rule: rev_cases) auto
    have "\<not> is_space y" using not_space_char [of y d] y by simp
    then show ?thesis by (simp add: y)
  qed
  moreover have "dropWhile is_space (rev (''Bearer'')) = rev ''Bearer''" by (simp add: is_space_def)
  ultimately have t: "trim_space ('' Bearer '' @ ?t) = ''Bearer '' @ ?t" if "?t \<noteq> []"
    using that by (simp add: trim_space_def is_space_def)
  have "length ?t = 4 * ((length d + 2) div 3)" by (rule length_b64_encode)
  then have "?t \<noteq> []" using assms by (cases d) auto
  from t [OF this] show ?thesis
    using h a by (simp add: auth_header_def http_auth_lines_def)
qed

lemma request_lines:
  assumes "clean_text p" "clean_text sni"
  shows "split_str (bytes_str (http_auth_request p sni d)) crlf = http_auth_lines p sni d @ ['''', '''']"
proof -
  have "\<forall>l\<in>set (http_auth_lines p sni d). CHR 0x0D \<notin> set l"
    using assms not_space_char [of _ d] by (auto simp: http_auth_lines_def clean_text_def)
  moreover have "split_loop crlf [] crlf = ['''', '''']"
    using split_loop_clean [of "''''" "''''" "''''"] by (simp add: split_loop.simps [of _ _ "''''"])
  ultimately show ?thesis
    using split_loop_lines [of "http_auth_lines p sni d" crlf] by (simp add: split_str_def http_auth_request_def)
qed

lemma request_is_http: "isHTTPRequest (http_auth_request p sni d)"
proof -
  obtain r where "http_auth_request p sni d = str_bytes (''POST'' @ r)"
    by (simp add: http_auth_request_def http_auth_lines_def)
  moreover have "take 4 (str_bytes (''POST'' @ r)) = str_bytes ''POST''" by (simp add: str_bytes_def)
  ultimately show ?thesis by (simp add: isHTTPRequest_def http_methods_def)
qed

text \<open>The server reads from the client's request exactly the client's credentials.\<close>

lemma request_presents:
  assumes "word_text p" "clean_text p" "clean_text sni" "SecretPath cfg = p" "d \<noteq> []"
  shows "presented cfg (http_auth_request p sni d) = Some d"
proof -
  have "hd (http_auth_lines p sni d) = ''POST '' @ p @ '' HTTP/1.1''" by (simp add: http_auth_lines_def)
  moreover have "http_auth_lines p sni d \<noteq> []" by (simp add: http_auth_lines_def)
  moreover have "trim_prefix (''Bearer '' @ b64_encode b64_std d) ''Bearer '' = b64_encode b64_std d"
    by (rule trim_prefix_append)
  ultimately show ?thesis
    using assms request_lines [OF assms(2,3), of d] request_is_http [of p sni d]
      auth_header_found [OF assms(5), of p sni "['''', '''']"] request_line_fields [OF assms(1)]
    by (simp add: presented_def Let_def auth_token_bytes_def b64_padded_roundtrip)
qed

lemma switch_accepted: "response_ok switch_response" "length switch_response \<le> 4096"
  by code_simp+

section \<open>The answer to an address\<close>

lemma status_read:
  assumes "concat (arriving (ep_in ep)) = b # bs"
  shows "\<exists>c. ep_read_full 1 ep = Some (Ok [b], ep\<lparr>ep_in := c\<rparr>) \<and> concat (arriving c) = bs"
  using TrueI
proof (cases rule: net_header.read_full_cases [where s = "ep_in ep" and n = 1])
  case (got s')
  then show ?thesis using assms by (auto simp: ep_read_full_def)
next
  case (short s' e)
  then show ?thesis using assms by simp
qed

text \<open>The address header goes out, and the status byte decides; what follows it is left for the connection's user.\<close>

lemma header_answered:
  assumes "lives (ep_out ep) = None" "concat (arriving (ep_in ep)) = b # bs"
  shows "\<exists>ep1 ep'. ep_write hdr ep = (None, ep1) \<and>
    read_status ep1 = Some (case dial_status b of Ok _ \<Rightarrow> Ok ep' | Err e \<Rightarrow> Err (VpnStatus e) | Panic \<Rightarrow> Panic) \<and>
    taken (ep_out ep') = taken (ep_out ep) @ [hdr] \<and> lives (ep_out ep') = None \<and> concat (arriving (ep_in ep')) = bs"
proof -
  let ?ep1 = "ep\<lparr>ep_out := (ep_out ep)\<lparr>taken := taken (ep_out ep) @ [hdr]\<rparr>\<rparr>"
  have w: "ep_write hdr ep = (None, ?ep1)" using assms(1) by (simp add: ep_write_def conn_write_def)
  obtain c where "ep_read_full 1 ?ep1 = Some (Ok [b], ?ep1\<lparr>ep_in := c\<rparr>)" "concat (arriving c) = bs"
    using status_read [of ?ep1] assms(2) by auto
  then show ?thesis using w assms(1)
    by (intro exI [of _ ?ep1] exI [of _ "?ep1\<lparr>ep_in := c\<rparr>"]) (simp add: read_status_def)
qed

section \<open>Credentials in order\<close>

text \<open>The client's key belongs to a registered user that has not expired, its clock is in the server's minute or the one
  before, and its address is within its rate.\<close>

definition credentials_current :: "string \<Rightarrow> time \<Rightarrow> bytes \<Rightarrow> request_env \<Rightarrow> auth_manager \<Rightarrow> bool" where
  "credentials_current psk t0 nonce env am \<longleftrightarrow>
     length nonce = 24 \<and> users_ok am \<and>
     (\<exists>i u. users am i = Some u \<and> u_psk u = psk \<and> \<not> expired (en_now env) u) \<and>
     unix_minute (en_now env) - 1 \<le> unix_minute t0 \<and> unix_minute t0 \<le> unix_minute (en_now env) \<and>
     fst (checkRateLimit (remote_ip (en_addr env)) (en_rate env) am) \<and> set (en_order env) = dom (users am)"

lemma credentials_accepted:
  assumes "credentials_current psk t0 nonce env am" "GenerateAuthPayload psk t0 (Some nonce) = Some d"
  shows "length d = 56"
    "\<exists>s am'. ValidateAuth (en_order env) (en_rate env) (en_now env) d (en_addr env) am = (Ok s, am')"
proof -
  obtain i u where u: "users am i = Some u" "u_psk u = psk" "\<not> expired (en_now env) u" "users_ok am" "length nonce = 24"
    and t: "unix_minute (en_now env) - 1 \<le> unix_minute t0" "unix_minute t0 \<le> unix_minute (en_now env)"
    and r: "fst (checkRateLimit (remote_ip (en_addr env)) (en_rate env) am)" "set (en_order env) = dom (users am)"
    using assms(1) by (auto simp: credentials_current_def)
  have "u_pskBytes u = sha256 (str_bytes psk)" using u by (auto simp: users_ok_def)
  from generated_matches(1) [OF assms(2) u(5) this t] show "length d = 56" .
  from generated_accepted [OF assms(2) u(5,1,2,4,3) t r, of "[]"]
  show "\<exists>s am'. ValidateAuth (en_order env) (en_rate env) (en_now env) d (en_addr env) am = (Ok s, am')"
    by (metis append_Nil2 fst_conv surj_pair)
qed

text \<open>A user with the key \<open>k\<close>, and a client one second and one minute before.\<close>

definition sample_user :: user_record where
  "sample_user = \<lparr>u_id = ''alice'', u_psk = '''', u_max_bandwidth = 0, u_ports = [], u_expires = '''',
     u_upstream = None, u_pskBytes = [], u_expiresAt = None\<rparr>"

definition sample_manager :: auth_manager where
  "sample_manager = NewAuthManager (\<lambda>_. None) [sample_user\<lparr>u_psk := ''k''\<rparr>]"

definition sample_request :: request_env where
  "sample_request = sample_env\<lparr>en_order := [''alice''], en_now := 60000000000\<rparr>"

lemma sample_current: "credentials_current ''k'' 59000000000 (replicate 24 7) (sample_request\<lparr>en_addr := addr\<rparr>) sample_manager"
proof -
  let ?u = "sample_user\<lparr>u_psk := ''k''\<rparr>"
  have u: "users sample_manager ''alice'' = Some (prepare_user (\<lambda>_. None) ?u)" "dom (users sample_manager) = {''alice''}"
    by (auto simp: sample_manager_def NewAuthManager_def AddUser_def Let_def sample_user_def)
  have "\<not> expired 60000000000 (prepare_user (\<lambda>_. None) ?u)" by (simp add: expired_def prepare_user_def sample_user_def)
  moreover have "authRates sample_manager = Map.empty"
    by (simp add: sample_manager_def NewAuthManager_def AddUser_def Let_def)
  moreover have "users_ok sample_manager" unfolding sample_manager_def by (rule NewAuthManager_ok)
  moreover have "u_psk (prepare_user (\<lambda>_. None) u) = u_psk u" for u by (simp add: prepare_user_def Let_def)
  then have "u_psk (prepare_user (\<lambda>_. None) ?u) = ''k''" by simp
  ultimately show ?thesis
    using u by (simp add: credentials_current_def unix_minute_def sample_request_def sample_env_def checkRateLimit_entry
        exI [of _ "''alice''"])
qed

end
