(* ===== verification/Server.thy ===== *)
theory Server
  imports Dial Firewall FrameIO Stealth
begin

text \<open>
  \<^verbatim>\<open>core/transport/server.go\<close>: the server behind the transports. Its state is the
  authentication manager, the firewall, the replay filter and the table of active sessions. A
  connection is an \<open>endpoint\<close>: the byte streams the layer below it delivers and takes. The handlers that run as goroutines of a
  TUN session are described by the events they cause on the session's frame writer.
\<close>

section \<open>Configuration\<close>

text \<open>The sections for the REALITY, MIRAGE, MASQUE and WebRTC transports are kept apart, in the theory \<open>Transports\<close>.\<close>

record server_config =
  svc_BindAddress :: string
  svc_SNI :: string
  svc_Transport :: string
  svc_Camouflage :: camouflage_config
  svc_Redstone :: redstone_config
  svc_Users :: "user_record list"
  svc_Firewall :: firewall_config
  svc_Padding :: padding_config
  svc_Stealth :: stealth_config

record server =
  sv_config :: server_config
  sv_auth :: auth_manager
  sv_firewall :: firewall
  sv_replay :: "bloom replay_filter option"
  sv_sessions :: "string \<rightharpoonup> int"

text \<open>\<open>blank\<close> is the filter \<^verbatim>\<open>NewBloomFilter\<close> makes for the size 100000.\<close>

definition NewServer :: "(string \<Rightarrow> time option) \<Rightarrow> bloom \<Rightarrow> server_config \<Rightarrow> server" where
  "NewServer parse_time blank config =
     \<lparr>sv_config = config, sv_auth = NewAuthManager parse_time (svc_Users config),
      sv_firewall = NewFirewall (svc_Firewall config), sv_replay = Some (NewReplayFilter blank),
      sv_sessions = Map.empty\<rparr>"

datatype listener =
    ListenReality | ListenMirage | ListenMasque | ListenRedstone | ListenWebRTC
  | ListenTLS | ListenQUIC | ListenTLSFallback

text \<open>\<^verbatim>\<open>Start\<close>: the server with its default transport filled in, and the listeners it starts, the last of
  which runs in the calling goroutine.\<close>

definition StartServer :: "server \<Rightarrow> listener list \<times> server" where
  "StartServer s =
     (let s' = (if svc_Transport (sv_config s) = ''''
                then s\<lparr>sv_config := (sv_config s)\<lparr>svc_Transport := ''tls''\<rparr>\<rparr> else s);
          t = svc_Transport (sv_config s') in
      (if t = ''reality'' then [ListenReality]
       else if t = ''mirage'' then [ListenMirage]
       else if t = ''masque'' then [ListenMasque]
       else if t = ''redstone'' then [ListenRedstone]
       else if t = ''webrtc'' then [ListenWebRTC]
       else if t = ''tls'' then [ListenTLS]
       else if t = ''quic'' then [ListenQUIC]
       else if t = ''any'' then [ListenTLSFallback, ListenQUIC]
       else [ListenTLS], s'))"

definition generateTLSConfigForTransport ::
  "(string \<Rightarrow> target_url option) \<Rightarrow> (string \<Rightarrow> string \<Rightarrow> 'cert option) \<Rightarrow>
   (string \<Rightarrow> string \<Rightarrow> 'cert option) \<Rightarrow> (string \<Rightarrow> 'cert option) \<Rightarrow>
   server_config \<Rightarrow> string \<Rightarrow> ('cert \<times> string list) option"
where
  "generateTLSConfigForTransport parse_url load_pair clone_cert make_cert config transport =
     (let cam = svc_Camouflage config in
      if CertFile cam \<noteq> '''' \<and> KeyFile cam \<noteq> '''' then
        map_option (\<lambda>c. (c, if transport = ''quic'' then [''h3''] else [''http/1.1'', ''h2'']))
          (load_pair (CertFile cam) (KeyFile cam))
      else
        let sni = (if svc_SNI config = '''' then ''localhost'' else svc_SNI config);
            cert = (if TargetURL cam \<noteq> '''' then
                (case parse_url (TargetURL cam) of
                   Some u \<Rightarrow> if tu_host u \<noteq> '''' then clone_cert (tu_host u) sni else make_cert sni
                 | None \<Rightarrow> make_cert sni)
              else make_cert sni)
        in map_option (\<lambda>c. (c, if transport = ''quic'' then [''h3''] else [''http/1.1''])) cert)"

definition GetAuth :: "server \<Rightarrow> auth_manager" where
  "GetAuth s = sv_auth s"

definition ActiveSessions :: "server \<Rightarrow> nat" where
  "ActiveSessions s = card (dom (sv_sessions s))"

section \<open>One proxied connection\<close>

text \<open>What the handlers call outside: \<^verbatim>\<open>DialTarget\<close>, and the dialers, clock and random bytes of \<^verbatim>\<open>DialUpstream\<close>.\<close>

record outside =
  os_dial :: "string \<Rightarrow> u16 \<Rightarrow> endpoint option"
  os_tls :: tls_dialers
  os_now :: time
  os_nonce :: "bytes option"

datatype target_error = TargetRead io_error | TargetType

text \<open>The address header, read by the handler itself once the first byte is known.\<close>

definition read_target ::
  "(nat \<Rightarrow> 's \<Rightarrow> io_read \<times> 's) \<Rightarrow> byte \<Rightarrow> 's \<Rightarrow>
   ((target_error, string \<times> u16) outcome \<times> 's) option" where
  "read_target rd addrType s =
     (let with = (\<lambda>n s k.
        (case read_full rd n s of
           None \<Rightarrow> None
         | Some (Ok buf, s') \<Rightarrow> k buf s'
         | Some (Err e, s') \<Rightarrow> Some (Err (TargetRead e), s')
         | Some (Panic, s') \<Rightarrow> Some (Panic, s'))) in
      if addrType = AddrIPv4 then
        with 6 s (\<lambda>buf s'. Some (Ok (ip_string (take 4 buf), of_be16 (drop 4 buf)), s'))
      else if addrType = AddrIPv6 then
        with 18 s (\<lambda>buf s'. Some (Ok (ip_string (take 16 buf), of_be16 (drop 16 buf)), s'))
      else if addrType = AddrDomain then
        with 1 s (\<lambda>lenBuf s'.
          with (unat (hd lenBuf) + 2) s' (\<lambda>domainBuf s''.
            Some (Ok (bytes_str (take (unat (hd lenBuf)) domainBuf),
                      of_be16 (drop (unat (hd lenBuf)) domainBuf)), s'')))
      else Some (Err TargetType, s))"

text \<open>The counters of a session, and what the two deferred functions undo at its end.\<close>

definition session_begin :: "string \<Rightarrow> server \<Rightarrow> server" where
  "session_begin uid sv =
     sv\<lparr>sv_firewall := OnConnect uid (sv_firewall sv),
        sv_sessions := (sv_sessions sv)(uid \<mapsto>
          (case sv_sessions sv uid of None \<Rightarrow> 0 | Some n \<Rightarrow> n) + 1)\<rparr>"

definition session_end :: "string \<Rightarrow> server \<Rightarrow> server" where
  "session_end uid sv =
     (let n = (case sv_sessions sv uid of None \<Rightarrow> 0 | Some n \<Rightarrow> n) - 1 in
      sv\<lparr>sv_sessions := (sv_sessions sv)(uid := if n \<le> 0 then None else Some n),
         sv_firewall := OnDisconnect uid (sv_firewall sv)\<rparr>)"

text \<open>The target of a session: the user's upstream when there is one. \<open>None\<close> is a dial that hangs.\<close>

definition dial_for ::
  "outside \<Rightarrow> user_record \<Rightarrow> byte \<Rightarrow> string \<Rightarrow> u16 \<Rightarrow> endpoint option option" where
  "dial_for os user addrType addr port =
     (case u_upstream user of
        Some up \<Rightarrow>
          map_option (\<lambda>r. case r of Ok ep \<Rightarrow> Some ep | _ \<Rightarrow> None)
            (DialUpstream (os_tls os) (os_now os) (os_nonce os) up addrType addr port)
      | None \<Rightarrow> Some (os_dial os addr port))"

text \<open>The whole handler, alone on the server: the connection, the target if one was dialled, and the
  server afterwards.\<close>

definition handleDirectConnectionWithType ::
  "outside \<Rightarrow> endpoint \<Rightarrow> auth_session \<Rightarrow> byte \<Rightarrow> server \<Rightarrow> (endpoint \<times> endpoint option \<times> server) option" where
  "handleDirectConnectionWithType os conn session addrType sv =
     (case read_target conn_read addrType (ep_in conn) of
        None \<Rightarrow> None
      | Some (Err TargetType, s) \<Rightarrow> Some (ep_send [0x01] (conn\<lparr>ep_in := s\<rparr>), None, sv)
      | Some (Err (TargetRead e), s) \<Rightarrow> Some (conn\<lparr>ep_in := s\<rparr>, None, sv)
      | Some (Panic, s) \<Rightarrow> Some (conn\<lparr>ep_in := s\<rparr>, None, sv)
      | Some (Ok (addr, port), s) \<Rightarrow>
          let conn = conn\<lparr>ep_in := s\<rparr>; user = as_user session; uid = u_id user in
          (case CheckConnection uid addr port (Some user) (sv_firewall sv) of
             (False, fw) \<Rightarrow> Some (ep_send [0x03] conn, None, sv\<lparr>sv_firewall := fw\<rparr>)
           | (True, fw) \<Rightarrow>
               let sv = session_begin uid (sv\<lparr>sv_firewall := fw\<rparr>) in
               (case dial_for os user addrType addr port of
                  None \<Rightarrow> None
                | Some None \<Rightarrow> Some (ep_send [0x02] conn, None, session_end uid sv)
                | Some (Some target) \<Rightarrow>
                    (case BidirectionalRelay (ep_send [0x00] conn) target of
                       None \<Rightarrow> None
                     | Some (conn', target') \<Rightarrow> Some (conn', Some target', session_end uid sv)))))"

text \<open>How \<^verbatim>\<open>handleSmartConnection\<close> goes on: closed, a TUN session on the connection, or a proxied
  connection that has run to its end.\<close>

datatype smart_end = SmartClosed endpoint | SmartTUN endpoint | SmartDirect endpoint "endpoint option"

definition handleSmartConnection ::
  "outside \<Rightarrow> endpoint \<Rightarrow> auth_session \<Rightarrow> server \<Rightarrow> (smart_end \<times> server) option" where
  "handleSmartConnection os conn session sv =
     (case ep_read_full 1 conn of
        None \<Rightarrow> None
      | Some (Ok modeBuf, conn1) \<Rightarrow>
          let mode = hd modeBuf in
          if mode = 0x00 then Some (SmartTUN (ep_send [AuthStatusOK] conn1), sv)
          else if mode = AddrIPv4 \<or> mode = AddrDomain \<or> mode = AddrIPv6 then
            map_option (\<lambda>(c, t, sv'). (SmartDirect c t, sv'))
              (handleDirectConnectionWithType os conn1 session mode sv)
          else Some (SmartClosed (ep_send [0x01] conn1), sv)
      | Some (_, conn1) \<Rightarrow> Some (SmartClosed conn1, sv))"

definition handleDirectConnection ::
  "outside \<Rightarrow> endpoint \<Rightarrow> auth_session \<Rightarrow> server \<Rightarrow> (smart_end \<times> server) option" where
  "handleDirectConnection os conn session sv = handleSmartConnection os conn session sv"

text \<open>\<open>order\<close>, the two clock readings and the peer's address are those of \<open>ValidateAuth\<close>.\<close>

definition handleTLSConnection ::
  "outside \<Rightarrow> string list \<Rightarrow> time \<Rightarrow> time \<Rightarrow> net_addr \<Rightarrow> endpoint \<Rightarrow> server \<Rightarrow> (smart_end \<times> server) option" where
  "handleTLSConnection os order t_rate now addr conn sv =
     (case ep_read_full 56 conn of
        None \<Rightarrow> None
      | Some (Ok authBuf, conn1) \<Rightarrow>
          (case ValidateAuth order t_rate now authBuf addr (sv_auth sv) of
             (Ok session, am) \<Rightarrow> handleSmartConnection os conn1 session (sv\<lparr>sv_auth := am\<rparr>)
           | (_, am) \<Rightarrow> Some (SmartClosed (ep_send [0x01] conn1), sv\<lparr>sv_auth := am\<rparr>))
      | Some (_, conn1) \<Rightarrow> Some (SmartClosed conn1, sv))"

text \<open>The listener's wrapper: the connection on which TLS is served, unless the opening bytes are a handshake whose
  random has been seen.\<close>

definition handleTLSConnectionWrapped ::
  "(nat \<Rightarrow> 's \<Rightarrow> io_read \<times> 's) \<Rightarrow> 's \<Rightarrow> server \<Rightarrow> (unit, ('s, unit) server_conn option \<times> server) outcome" where
  "handleTLSConnectionWrapped rd conn sv =
     (case sv_replay sv of
        None \<Rightarrow> Ok (Some (Raw conn), sv)
      | Some rf \<Rightarrow>
          (case NewPeekingConn rd conn 64 of
             Ok pConn \<Rightarrow>
               let peekData = Peek pConn in
               if 43 < length peekData \<and> peekData ! 0 = 0x16 then
                 (case CheckAndAdd (take 32 (drop 11 peekData)) rf of
                    None \<Rightarrow> Panic
                  | Some (True, rf') \<Rightarrow> Ok (None, sv\<lparr>sv_replay := Some rf'\<rparr>)
                  | Some (False, rf') \<Rightarrow> Ok (Some (Peeked pConn), sv\<lparr>sv_replay := Some rf'\<rparr>))
               else Ok (Some (Peeked pConn), sv)
           | _ \<Rightarrow> Ok (None, sv)))"

section \<open>TUN sessions\<close>

text \<open>The goroutines a frame starts, and the three clock readings of \<open>TrackBandwidth\<close>.\<close>

datatype tun_job = JobConnect frame | JobUDP frame | JobUDPClose u16

definition tun_dispatch ::
  "time \<times> time \<times> time \<Rightarrow> string \<Rightarrow> frame \<Rightarrow> server \<Rightarrow> tun_job list \<times> server" where
  "tun_dispatch clock uid f sv =
     (if frame_type f = FrameIP then
        (case clock of (t1, t2, t3) \<Rightarrow>
           ([], sv\<lparr>sv_firewall :=
              snd (TrackBandwidth t1 t2 t3 uid (int (length (frame_payload f))) (sv_firewall sv))\<rparr>))
      else if frame_type f = FrameConnect then ([JobConnect f], sv)
      else if frame_type f = FrameUDP then ([JobUDP f], sv)
      else if frame_type f = FrameUDPClose then
        (case DecodeUDPCloseFrame (frame_payload f) of
           Ok assocID \<Rightarrow> ([JobUDPClose assocID], sv) | _ \<Rightarrow> ([], sv))
      else ([], sv))"

fun tun_frames ::
  "(nat \<Rightarrow> time \<times> time \<times> time) \<Rightarrow> nat \<Rightarrow> string \<Rightarrow> frame list \<Rightarrow> server \<Rightarrow> tun_job list \<times> server" where
  "tun_frames clock k uid [] sv = ([], sv)"
| "tun_frames clock k uid (f # fs) sv =
     (case tun_dispatch (clock k) uid f sv of (jobs, sv1) \<Rightarrow>
        case tun_frames clock (Suc k) uid fs sv1 of (jobs', sv2) \<Rightarrow> (jobs @ jobs', sv2))"

text \<open>
  The session: counted as a connection while it reads frames, up to the first error. \<open>n\<close> bounds the
  frames read; the stream cannot hold more frames than it has bytes. The frames are those of
  \<open>ReadTypedFrame\<close>; the pooled reader returns the same ones and its buffer after each.
\<close>

definition handleTUNSession ::
  "(nat \<Rightarrow> time \<times> time \<times> time) \<Rightarrow> nat \<Rightarrow> pool \<Rightarrow> endpoint \<Rightarrow> auth_session \<Rightarrow> server \<Rightarrow>
   (tun_job list \<times> endpoint \<times> pool \<times> server) option" where
  "handleTUNSession clock n p conn session sv =
     (let uid = u_id (as_user session);
          sv0 = sv\<lparr>sv_firewall := OnConnect uid (sv_firewall sv)\<rparr> in
      case read_frames conn_read n p (ep_in conn) of
        None \<Rightarrow> None
      | Some (fs, p', s) \<Rightarrow>
          (case tun_frames clock 0 uid fs sv0 of
             (jobs, sv1) \<Rightarrow>
               Some (jobs, conn\<lparr>ep_in := s\<rparr>, p', sv1\<lparr>sv_firewall := OnDisconnect uid (sv_firewall sv1)\<rparr>)))"

section \<open>Streams inside a TUN session\<close>

text \<open>The parser of the handler: stream, address type, address, port.\<close>

definition parse_frame_connect :: "bytes \<Rightarrow> (u16 \<times> byte \<times> string \<times> u16) option" where
  "parse_frame_connect payload =
     (if length payload < 4 then None
      else
        let streamID = of_be16 (take 2 payload); addrType = payload ! 2; remaining = drop 3 payload in
        if addrType = AddrIPv4 then
          if length remaining < 6 then None
          else Some (streamID, addrType, ip_string (take 4 remaining), of_be16 (take 2 (drop 4 remaining)))
        else if addrType = AddrDomain then
          if length remaining < 1 then None
          else let dLen = unat (remaining ! 0) in
            if length remaining < 1 + dLen + 2 then None
            else Some (streamID, addrType, bytes_str (take dLen (drop 1 remaining)),
                       of_be16 (take 2 (drop (1 + dLen) remaining)))
        else if addrType = AddrIPv6 then
          if length remaining < 18 then None
          else Some (streamID, addrType, ip_string (take 16 remaining), of_be16 (take 2 (drop 16 remaining)))
        else None)"

text \<open>The portions in which the goroutine gets the target's stream, with its buffer of \<open>n\<close> bytes.\<close>

function read_chunks :: "nat \<Rightarrow> conn_in \<Rightarrow> bytes list" where
  "read_chunks n c =
     (if n = 0 then []
      else case conn_read n c of
        (Got d, c') \<Rightarrow> d # read_chunks n c'
      | (Fail e, c') \<Rightarrow> [])"
  by pat_completeness auto
termination
proof (relation "measure (\<lambda>(n, c). length (arriving c) + length (concat (arriving c)))")
  fix n c a b d
  assume "n \<noteq> 0" and r: "(a, b) = conn_read n c" "a = Got d"
  then have "conn_read n c = (Got d, b)" "0 < n" by simp_all
  from net_in.got_progress [OF _ this(2,1)]
  show "((n, b), n, c) \<in> measure (\<lambda>(n, c). length (arriving c) + length (concat (arriving c)))" by simp
qed simp

declare read_chunks.simps [simp del]

definition stream_events :: "u16 \<Rightarrow> bytes list \<Rightarrow> fw_event list" where
  "stream_events streamID chunks =
     map (\<lambda>d. WriteTyped (EncodeDataFrame streamID d)) (filter (\<lambda>d. 0 < length d) chunks) @
     [WriteTyped (EncodeCloseFrame streamID), FlushCall]"

definition connect_ack :: "u16 \<Rightarrow> byte \<Rightarrow> fw_event list" where
  "connect_ack streamID status =
     [WriteTyped \<lparr>frame_type = FrameConnAck, frame_payload = be16 streamID @ [status]\<rparr>, FlushCall]"

text \<open>The events on the session's writer. A connection that never ends keeps writing data; here the
  target's stream is finite.\<close>

definition handleFrameConnect ::
  "outside \<Rightarrow> frame \<Rightarrow> auth_session \<Rightarrow> server \<Rightarrow> fw_event list \<times> server" where
  "handleFrameConnect os f session sv =
     (case parse_frame_connect (frame_payload f) of
        None \<Rightarrow> ([], sv)
      | Some (streamID, addrType, addr, port) \<Rightarrow>
          (case CheckConnection (u_id (as_user session)) addr port (Some (as_user session)) (sv_firewall sv) of
             (False, fw) \<Rightarrow> (connect_ack streamID 0x01, sv\<lparr>sv_firewall := fw\<rparr>)
           | (True, fw) \<Rightarrow>
               (case os_dial os addr port of
                  None \<Rightarrow> (connect_ack streamID 0x02, sv\<lparr>sv_firewall := fw\<rparr>)
                | Some target \<Rightarrow>
                    (connect_ack streamID 0x00 @ stream_events streamID (read_chunks 65535 (ep_in target)),
                     sv\<lparr>sv_firewall := fw\<rparr>))))"

section \<open>UDP inside a TUN session\<close>

text \<open>A datagram from a target, as the frame that goes back to the client.\<close>

definition MaxPacketSize :: nat where "MaxPacketSize = 65535"

definition udp_response :: "u16 \<Rightarrow> ip \<Rightarrow> u16 \<Rightarrow> bytes \<Rightarrow> frame" where
  "udp_response assocID ip port data =
     (case to4 ip of
        Some ipv4 \<Rightarrow> EncodeUDPFrame assocID AddrIPv4 (ip_string ipv4) port data
      | None \<Rightarrow> EncodeUDPFrame assocID AddrIPv6 (ip_string ip) port data)"

text \<open>The loop: datagrams (source, port, content cut to the buffer) until the socket is closed or a write
  fails.\<close>

fun relayUDPResponses ::
  "(bytes \<Rightarrow> 'w \<Rightarrow> io_error option \<times> 'w) \<Rightarrow> (nat \<Rightarrow> time \<times> time \<times> time) \<Rightarrow> nat \<Rightarrow> u16 \<Rightarrow> string \<Rightarrow>
   (ip \<times> u16 \<times> bytes) list \<Rightarrow> server \<Rightarrow> 'w frame_writer \<Rightarrow> server \<times> 'w frame_writer"
where
  "relayUDPResponses wr clock k assocID uid [] sv fw = (sv, fw)"
| "relayUDPResponses wr clock k assocID uid ((ip, port, full) # ds) sv fw =
     (let data = take MaxPacketSize full in
      if length data = 0 then relayUDPResponses wr clock (Suc k) assocID uid ds sv fw
      else case clock k of (t1, t2, t3) \<Rightarrow>
        let sv1 = sv\<lparr>sv_firewall :=
              snd (TrackBandwidth t1 t2 t3 uid (int (length data)) (sv_firewall sv))\<rparr> in
        (case WriteTypedFrame wr (udp_response assocID ip port data) fw of
           (Some e, fw1) \<Rightarrow> (sv1, fw1)
         | (None, fw1) \<Rightarrow>
             (case Flush wr fw1 of
                (Some e, fw2) \<Rightarrow> (sv1, fw2)
              | (None, fw2) \<Rightarrow> relayUDPResponses wr clock (Suc k) assocID uid ds sv1 fw2)))"

text \<open>A UDP frame: the datagram it sends, on which association's socket and where. \<open>resolve\<close> is
  \<^verbatim>\<open>net.ResolveUDPAddr\<close>, and \<open>socket\<close> tells whether \<open>getOrCreateUDPAssociation\<close> succeeds.\<close>

definition handleFrameUDP ::
  "(string \<Rightarrow> u16 \<Rightarrow> 'a option) \<Rightarrow> (u16 \<Rightarrow> bool) \<Rightarrow> time \<times> time \<times> time \<Rightarrow> frame \<Rightarrow> auth_session \<Rightarrow> server \<Rightarrow>
   (u16 \<times> 'a \<times> bytes) option \<times> server" where
  "handleFrameUDP resolve socket clock f session sv =
     (case DecodeUDPFrame (frame_payload f) of
        Ok payload \<Rightarrow>
          let uid = u_id (as_user session) in
          (case CheckConnection uid (up_addr payload) (up_port payload) (Some (as_user session)) (sv_firewall sv) of
             (False, fw) \<Rightarrow> (None, sv\<lparr>sv_firewall := fw\<rparr>)
           | (True, fw) \<Rightarrow>
               if \<not> socket (up_assoc payload) then (None, sv\<lparr>sv_firewall := fw\<rparr>)
               else (case resolve (up_addr payload) (up_port payload) of
                 None \<Rightarrow> (None, sv\<lparr>sv_firewall := fw\<rparr>)
               | Some target \<Rightarrow>
                   (case clock of (t1, t2, t3) \<Rightarrow>
                     (Some (up_assoc payload, target, up_data payload),
                      sv\<lparr>sv_firewall := snd (TrackBandwidth t1 t2 t3 uid (int (length (up_data payload))) fw)\<rparr>))))
      | _ \<Rightarrow> (None, sv))"

text \<open>
  The sockets of a session. A goroutine that handles a UDP frame has decoded it and passed the
  firewall (\<open>Lookup\<close>), found no socket (\<open>Listening\<close>), opened one (\<open>Inserting\<close>), or has the socket to
  send on (\<open>Sending\<close>); the map is shared under its mutex, so each of its accesses is one step.
\<close>

datatype udp_phase = Idle | Lookup u16 | Listening u16 | Inserting u16 nat | Sending u16 nat

record udp_sockets =
  ud_assocs :: "u16 \<rightharpoonup> nat"
  ud_open :: "nat set"
  ud_used :: "nat set"
  ud_jobs :: "nat \<Rightarrow> udp_phase"
  ud_ended :: bool

definition udp_start :: udp_sockets where
  "udp_start = \<lparr>ud_assocs = Map.empty, ud_open = {}, ud_used = {}, ud_jobs = (\<lambda>_. Idle), ud_ended = False\<rparr>"

inductive udp_step :: "udp_sockets \<Rightarrow> udp_sockets \<Rightarrow> bool" where
  frame: "\<not> ud_ended s \<Longrightarrow> ud_jobs s j = Idle \<Longrightarrow>
    udp_step s (s\<lparr>ud_jobs := (ud_jobs s)(j := Lookup a)\<rparr>)"
| found: "ud_jobs s j = Lookup a \<Longrightarrow> ud_assocs s a = Some k \<Longrightarrow>
    udp_step s (s\<lparr>ud_jobs := (ud_jobs s)(j := Sending a k)\<rparr>)"
| missing: "ud_jobs s j = Lookup a \<Longrightarrow> ud_assocs s a = None \<Longrightarrow>
    udp_step s (s\<lparr>ud_jobs := (ud_jobs s)(j := Listening a)\<rparr>)"
| listen_fails: "ud_jobs s j = Listening a \<Longrightarrow>
    udp_step s (s\<lparr>ud_jobs := (ud_jobs s)(j := Idle)\<rparr>)"
| listen: "ud_jobs s j = Listening a \<Longrightarrow> k \<notin> ud_used s \<Longrightarrow>
    udp_step s (s\<lparr>ud_jobs := (ud_jobs s)(j := Inserting a k),
      ud_open := insert k (ud_open s), ud_used := insert k (ud_used s)\<rparr>)"
| existing: "ud_jobs s j = Inserting a k \<Longrightarrow> ud_assocs s a = Some k' \<Longrightarrow>
    udp_step s (s\<lparr>ud_jobs := (ud_jobs s)(j := Sending a k'), ud_open := ud_open s - {k}\<rparr>)"
| insert: "ud_jobs s j = Inserting a k \<Longrightarrow> ud_assocs s a = None \<Longrightarrow>
    udp_step s (s\<lparr>ud_jobs := (ud_jobs s)(j := Sending a k), ud_assocs := (ud_assocs s)(a \<mapsto> k)\<rparr>)"
| send: "ud_jobs s j = Sending a k \<Longrightarrow>
    udp_step s (s\<lparr>ud_jobs := (ud_jobs s)(j := Idle)\<rparr>)"
| close: "\<not> ud_ended s \<Longrightarrow>
    udp_step s (s\<lparr>ud_assocs := (ud_assocs s)(a := None),
      ud_open := ud_open s - set_option (ud_assocs s a)\<rparr>)"
| session_ends: "\<not> ud_ended s \<Longrightarrow>
    udp_step s (s\<lparr>ud_assocs := Map.empty, ud_open := ud_open s - ran (ud_assocs s), ud_ended := True\<rparr>)"

inductive_cases udp_stepE: "udp_step s s'"

section \<open>QUIC streams\<close>

datatype quic_end = QuicClosed | QuicTUN | QuicDirect "endpoint option"

definition handleQUICStream ::
  "outside \<Rightarrow> endpoint \<Rightarrow> auth_session \<Rightarrow> server \<Rightarrow> (quic_end \<times> endpoint \<times> server) option" where
  "handleQUICStream os conn session sv =
     (case ep_read_full 1 conn of
        None \<Rightarrow> None
      | Some (Ok firstByte, conn1) \<Rightarrow>
          if hd firstByte = 0x00 then
            (case ep_write [AuthStatusOK] conn1 of
               (Some e, conn2) \<Rightarrow> Some (QuicClosed, conn2, sv)
             | (None, conn2) \<Rightarrow> Some (QuicTUN, conn2, sv))
          else
            (case ReadAddressHeaderWithFirstByte (hd firstByte) conn_read (ep_in conn1) of
               None \<Rightarrow> None
             | Some (Ok (_, addr, port), s) \<Rightarrow>
                 let conn2 = conn1\<lparr>ep_in := s\<rparr>; user = as_user session; uid = u_id user in
                 (case CheckConnection uid addr port (Some user) (sv_firewall sv) of
                    (False, fw) \<Rightarrow> Some (QuicClosed, ep_send [0x01] conn2, sv\<lparr>sv_firewall := fw\<rparr>)
                  | (True, fw) \<Rightarrow>
                      let fw1 = OnConnect uid fw in
                      (case os_dial os addr port of
                         None \<Rightarrow> Some (QuicClosed, ep_send [0x02] conn2,
                             sv\<lparr>sv_firewall := OnDisconnect uid fw1\<rparr>)
                       | Some target \<Rightarrow>
                           (case (copy_half (ep_send [0x00] conn2) target,
                                  copy_half target (ep_send [0x00] conn2)) of
                              (Some (ci, to), Some (ti, co)) \<Rightarrow>
                                Some (QuicDirect (Some (target\<lparr>ep_in := ti, ep_out := to\<rparr>)),
                                  conn2\<lparr>ep_in := ci, ep_out := co\<rparr>, sv\<lparr>sv_firewall := OnDisconnect uid fw1\<rparr>)
                            | _ \<Rightarrow> None)))
             | Some (_, s) \<Rightarrow> Some (QuicClosed, ep_send [0x01] (conn1\<lparr>ep_in := s\<rparr>), sv))
      | Some (_, conn1) \<Rightarrow> Some (QuicClosed, conn1, sv))"

text \<open>The authentication stream of a QUIC connection: the answer's frames, and the session whose
  further streams are served.\<close>

definition quic_authenticate ::
  "string list \<Rightarrow> time \<Rightarrow> time \<Rightarrow> net_addr \<Rightarrow> pool \<Rightarrow> conn_in \<Rightarrow> server \<Rightarrow>
   (frame list \<times> auth_session option \<times> server) option" where
  "quic_authenticate order t_rate now addr p s sv =
     (case ReadTypedFrame conn_read p s of
        None \<Rightarrow> None
      | Some (Ok f, p', s') \<Rightarrow>
          if frame_type f \<noteq> FrameAuth then Some ([], None, sv)
          else (case ValidateAuth order t_rate now (frame_payload f) addr (sv_auth sv) of
             (Ok session, am) \<Rightarrow>
               Some ([EncodeAuthResponse AuthStatusOK []], Some session, sv\<lparr>sv_auth := am\<rparr>)
           | (_, am) \<Rightarrow> Some ([EncodeAuthResponse AuthStatusDenied []], None, sv\<lparr>sv_auth := am\<rparr>))
      | Some (_, p', s') \<Rightarrow> Some ([], None, sv))"

section \<open>The parsers of the handlers\<close>

lemma read_target_header:
  "read_target rd t s =
     (case ReadAddressHeaderWithFirstByte t rd s of
        None \<Rightarrow> None
      | Some (Ok (t', a, p), s') \<Rightarrow> Some (Ok (a, p), s')
      | Some (Err (ReadFailed e), s') \<Rightarrow> Some (Err (TargetRead e), s')
      | Some (Err _, s') \<Rightarrow> Some (Err TargetType, s')
      | Some (Panic, s') \<Rightarrow> Some (Panic, s'))"
  unfolding read_target_def ReadAddressHeaderWithFirstByte_def lift_read_def Let_def
  by (simp split: option.split outcome.split prod.split)

lemma of_be16_take_drop: "of_be16 (take 2 (drop k bs)) = of_be16 (drop k bs)"
  by simp

text \<open>The handler of a stream request parses exactly like the codec: for every payload its inline parser
  agrees with \<^verbatim>\<open>DecodeConnectFrame\<close>, its different length guard notwithstanding; so
  what \<^verbatim>\<open>EncodeConnectFrame\<close> writes is understood, with the address in normal form.\<close>

theorem frame_connect_parser_agrees:
  "parse_frame_connect payload =
     (case DecodeConnectFrame payload of
        Ok r \<Rightarrow> Some (cr_stream r, cr_type r, cr_addr r, cr_port r) | _ \<Rightarrow> None)"

proof (cases "4 \<le> length payload")
  case False
  then show ?thesis by (simp add: parse_frame_connect_def DecodeConnectFrame_def)
next
  case True
  then obtain a b t x d where p: "payload = a # b # t # x # d"
    by (auto simp: Suc_le_length_iff numeral_eq_Suc)
  consider "t = AddrIPv4" | "t = AddrDomain" | "t = AddrIPv6" | "\<not> known_addr_type t"
    by (auto simp: known_addr_type_def)
  then show ?thesis
  proof cases
    case 1
    then show ?thesis
      by (cases "d = []") (auto simp: p parse_frame_connect_def DecodeConnectFrame_def DecodeAddress_def addr_type_defs Let_def)
  next
    case 2
    then show ?thesis
      by (cases "d = []") (auto simp: p parse_frame_connect_def DecodeConnectFrame_def DecodeAddress_def addr_type_defs Let_def)
  next
    case 3
    then show ?thesis
      by (cases "d = []") (auto simp: p parse_frame_connect_def DecodeConnectFrame_def DecodeAddress_def addr_type_defs Let_def)
  next
    case 4
    then show ?thesis
      by (cases "d = []") (auto simp: p parse_frame_connect_def DecodeConnectFrame_def DecodeAddress_def known_addr_type_def Let_def)
  qed
qed

section \<open>What a stream brings back\<close>

lemma read_chunks_concat: "0 < n \<Longrightarrow> concat (read_chunks n c) = concat (arriving c)"
proof (induction n c rule: read_chunks.induct)
  case (1 n c)
  obtain r c' where r: "conn_read n c = (r, c')" by fastforce
  show ?case
  proof (cases r)
    case (Got d)
    then have g: "conn_read n c = (Got d, c')" using r by simp
    then show ?thesis
      using 1 net_in.got_pending [OF TrueI g] by (subst read_chunks.simps) simp
  next
    case (Fail e)
    then have g: "conn_read n c = (Fail e, c')" using r by simp
    then show ?thesis
      using 1(2) net_in.fail_end [OF TrueI 1(2) g] by (subst read_chunks.simps) simp
  qed
qed

text \<open>What the client gets for stream \<open>sid\<close>: the data of its data frames, in order.\<close>

fun stream_data :: "u16 \<Rightarrow> frame list \<Rightarrow> bytes" where
  "stream_data sid [] = []"
| "stream_data sid (f # fs) =
     (if frame_type f = FrameData then
        (case DecodeDataFrame (frame_payload f) of
           Ok d \<Rightarrow> (if dp_stream d = sid then dp_data d else []) | _ \<Rightarrow> [])
      else []) @ stream_data sid fs"

lemma stream_data_append [simp]: "stream_data sid (a @ b) = stream_data sid a @ stream_data sid b"
  by (induction a) auto

definition fitting :: "bytes list \<Rightarrow> bytes list" where
  "fitting = filter (\<lambda>d. 0 < length d \<and> 3 + length d \<le> MaxFrameSize)"

lemma data_frame_fits: "fits (EncodeDataFrame sid d) \<longleftrightarrow> 3 + length d \<le> MaxFrameSize"
  by (auto simp: fits_def EncodeDataFrame_def)

lemma sent_data_frames:
  "sent_frames (map (\<lambda>d. WriteTyped (EncodeDataFrame sid d)) (filter (\<lambda>d. 0 < length d) ds)) =
   map (EncodeDataFrame sid) (fitting ds)"
proof (induction ds)
  case (Cons d ds)
  have "sent_frames (e # es) = ev_frames e @ sent_frames es" for e es by (simp add: sent_frames_def)
  with Cons show ?case by (cases "d = []") (simp_all add: fitting_def data_frame_fits)
qed (simp add: sent_frames_def fitting_def)

lemma stream_data_frames: "stream_data sid (map (EncodeDataFrame sid) ds) = concat ds"
  by (induction ds) (simp_all add: decode_data_encode, simp add: EncodeDataFrame_def)

lemma sent_close: "sent_frames [WriteTyped (EncodeCloseFrame sid), FlushCall] = [EncodeCloseFrame sid]"
  by (simp add: sent_frames_def fits_def EncodeCloseFrame_def MaxFrameSize_def)

lemma sent_stream_events:
  "sent_frames (stream_events sid ds) = map (EncodeDataFrame sid) (fitting ds) @ [EncodeCloseFrame sid]"
  using sent_data_frames [of sid ds] sent_close [of sid]
  by (simp add: stream_events_def sent_frames_def)


section \<open>UDP responses\<close>

lemma udp_response_type: "frame_type (udp_response a ip port d) = FrameUDP"
  by (simp add: udp_response_def EncodeUDPFrame_def split: option.split)

lemma to4_length: "to4 ip = Some q \<Longrightarrow> length q = 4"
  by (auto simp: to4_def split: if_splits)

lemma decode_response:
  assumes "length ip = 4 \<or> length ip = 16"
  shows "DecodeUDPFrame (frame_payload (udp_response assocID ip port data)) =
    Ok (case to4 ip of
      Some q \<Rightarrow> \<lparr>up_assoc = assocID, up_type = AddrIPv4, up_addr = ip_string q, up_port = port, up_data = data\<rparr>
    | None \<Rightarrow> \<lparr>up_assoc = assocID, up_type = AddrIPv6, up_addr = ip_string ip, up_port = port, up_data = data\<rparr>)"
proof (cases "to4 ip")
  case (Some q)
  then show ?thesis
    using decode_udp_encode [of AddrIPv4 assocID "ip_string q" port data] to4_length [OF Some]
    by (simp add: udp_response_def norm_address_ip_string known_addr_type_def)
next
  case None
  then have "length ip = 16" using assms by (auto simp: to4_def)
  then show ?thesis
    using decode_udp_encode [of AddrIPv6 assocID "ip_string ip" port data] None
    by (simp add: udp_response_def norm_address_ip_string known_addr_type_def)
qed

text \<open>A datagram comes back to the client under the association it belongs to, with its source
  address as text (an IPv4-mapped source as plain IPv4), its port and its bytes.\<close>

theorem udp_response_decoded:
  assumes "length ip = 4 \<or> length ip = 16"
  shows "DecodeUDPFrame (frame_payload (udp_response assocID ip port data)) =
    Ok (case to4 ip of
      Some q \<Rightarrow> \<lparr>up_assoc = assocID, up_type = AddrIPv4, up_addr = ip_string q, up_port = port, up_data = data\<rparr>
    | None \<Rightarrow> \<lparr>up_assoc = assocID, up_type = AddrIPv6, up_addr = ip_string ip, up_port = port, up_data = data\<rparr>)"
  by (rule decode_response [OF assms])

theorem udp_response_decoded_witness:
  "DecodeUDPFrame (frame_payload (udp_response 7 [10, 0, 0, 1] 53 [1, 2])) =
    Ok \<lparr>up_assoc = 7, up_type = AddrIPv4, up_addr = ip_string [10, 0, 0, 1], up_port = 53, up_data = [1, 2]\<rparr>"
  using udp_response_decoded [of "[10, 0, 0, 1]" 7 53 "[1, 2]"] by (simp add: to4_def)

section \<open>Session counters\<close>

lemma sessions_begin [simp]:
  "sv_sessions (session_begin u sv) =
     (sv_sessions sv)(u \<mapsto> (case sv_sessions sv u of None \<Rightarrow> 0 | Some n \<Rightarrow> n) + 1)"
  by (simp add: session_begin_def)

lemma conns_begin [simp]:
  "conn_count v (sv_firewall (session_begin u sv)) = conn_count v (sv_firewall sv) + (if u = v then 1 else 0)"
  by (simp add: session_begin_def OnConnect_def)

lemma conns_end [simp]:
  "conn_count v (sv_firewall (session_end u sv)) = conn_count v (sv_firewall sv) - (if u = v then 1 else 0)"
  by (simp add: session_end_def OnDisconnect_def Let_def)

text \<open>Sessions of a server in any order: \<open>n\<close> counts the proxied connections that are open, per user, and
  \<open>m\<close> the TUN sessions and QUIC streams, which are counted by the firewall only.\<close>

inductive session_run :: "server \<Rightarrow> server \<Rightarrow> (string \<Rightarrow> nat) \<Rightarrow> (string \<Rightarrow> nat) \<Rightarrow> bool" for sv0 :: server where
  none: "session_run sv0 sv0 (\<lambda>_. 0) (\<lambda>_. 0)"
| begins: "session_run sv0 sv n m \<Longrightarrow> session_run sv0 (session_begin u sv) (n(u := n u + 1)) m"
| ends: "session_run sv0 sv n m \<Longrightarrow> 0 < n u \<Longrightarrow> session_run sv0 (session_end u sv) (n(u := n u - 1)) m"
| tun_begins: "session_run sv0 sv n m \<Longrightarrow>
    session_run sv0 (sv\<lparr>sv_firewall := OnConnect u (sv_firewall sv)\<rparr>) n (m(u := m u + 1))"
| tun_ends: "session_run sv0 sv n m \<Longrightarrow> 0 < m u \<Longrightarrow>
    session_run sv0 (sv\<lparr>sv_firewall := OnDisconnect u (sv_firewall sv)\<rparr>) n (m(u := m u - 1))"
| checks: "session_run sv0 sv n m \<Longrightarrow>
    session_run sv0 (sv\<lparr>sv_firewall := snd (CheckConnection u a p r (sv_firewall sv))\<rparr>) n m"
| tracks: "session_run sv0 sv n m \<Longrightarrow>
    session_run sv0 (sv\<lparr>sv_firewall := snd (TrackBandwidth t1 t2 t3 u k (sv_firewall sv))\<rparr>) n m"
| others: "session_run sv0 sv n m \<Longrightarrow> session_run sv0 (sv\<lparr>sv_auth := am, sv_replay := rp\<rparr>) n m"

definition counters_agree :: "(string \<Rightarrow> nat) \<Rightarrow> (string \<Rightarrow> nat) \<Rightarrow> server \<Rightarrow> bool" where
  "counters_agree n m sv \<longleftrightarrow>
     sv_sessions sv = (\<lambda>u. if n u = 0 then None else Some (int (n u))) \<and>
     (\<forall>u. conn_count u (sv_firewall sv) = int (n u + m u)) \<and> finite {u. 0 < n u}"

lemma track_count [simp]: "conn_count v (snd (TrackBandwidth t1 t2 t3 u k fw)) = conn_count v fw"
  by (simp add: TrackBandwidth_def Let_def conn_count_def getConnCount_def split: option.split)

lemma agree_begin: "counters_agree n m sv \<Longrightarrow> counters_agree (n(u := n u + 1)) m (session_begin u sv)"
proof -
  assume a: "counters_agree n m sv"
  have "{v. 0 < (n(u := n u + 1)) v} = insert u {v. 0 < n v}" by auto
  with a show ?thesis by (auto simp: counters_agree_def fun_eq_iff)
qed

lemma agree_end:
  assumes "counters_agree n m sv" "0 < n u"
  shows "counters_agree (n(u := n u - 1)) m (session_end u sv)"
proof -
  have "finite {v. 0 < (n(u := n u - 1)) v}"
    by (rule finite_subset [of _ "{v. 0 < n v}"]) (use assms in \<open>auto simp: counters_agree_def split: if_splits\<close>)
  moreover have "sv_sessions (session_end u sv) = (\<lambda>v. if (n(u := n u - 1)) v = 0 then None else Some (int ((n(u := n u - 1)) v)))"
    using assms by (auto simp: counters_agree_def session_end_def Let_def fun_eq_iff)
  ultimately show ?thesis using assms by (auto simp: counters_agree_def)
qed

lemma session_run_agree:
  "session_run sv0 sv n m \<Longrightarrow> counters_agree (\<lambda>_. 0) (\<lambda>_. 0) sv0 \<Longrightarrow> counters_agree n m sv"
proof (induction rule: session_run.induct)
  case (begins sv n m u)
  then show ?case using agree_begin by blast
next
  case (ends sv n m u)
  then show ?case using agree_end by blast
qed (auto simp: counters_agree_def OnConnect_def OnDisconnect_def)

lemma new_server_agree: "counters_agree (\<lambda>_. 0) (\<lambda>_. 0) (NewServer pt blank config)"
  by (simp add: counters_agree_def NewServer_def fun_eq_iff)


definition sample_server_config :: server_config where
  "sample_server_config =
     \<lparr>svc_BindAddress = '':443'', svc_SNI = ''example.org'', svc_Transport = ''tls'',
      svc_Camouflage = DefaultCamouflageConfig,
      svc_Redstone = \<lparr>rc_enabled = False, rc_motd = [], rc_version = [], rc_proto = 0\<rparr>,
      svc_Users = [], svc_Firewall = DefaultFirewallConfig, svc_Padding = DefaultPaddingConfig,
      svc_Stealth = DefaultStealthConfig\<rparr>"


section \<open>The sockets of a session\<close>

definition inserting :: "udp_sockets \<Rightarrow> nat set" where
  "inserting s = {k. \<exists>j a. ud_jobs s j = Inserting a k}"

definition sockets_ok :: "udp_sockets \<Rightarrow> bool" where
  "sockets_ok s \<longleftrightarrow>
     ud_open s = ran (ud_assocs s) \<union> inserting s \<and> ud_open s \<subseteq> ud_used s \<and>
     ran (ud_assocs s) \<inter> inserting s = {} \<and> inj_on (ud_assocs s) (dom (ud_assocs s)) \<and>
     (\<forall>j j' a a' k. ud_jobs s j = Inserting a k \<and> ud_jobs s j' = Inserting a' k \<longrightarrow> j = j')"

lemma inserting_same [simp]:
  "inserting (s\<lparr>ud_assocs := m\<rparr>) = inserting s" "inserting (s\<lparr>ud_open := K\<rparr>) = inserting s"
  "inserting (s\<lparr>ud_used := K\<rparr>) = inserting s" "inserting (s\<lparr>ud_ended := b\<rparr>) = inserting s"
  by (simp_all add: inserting_def)

lemma inserting_job:
  assumes "\<And>a k. ud_jobs s j \<noteq> Inserting a k"
  shows "inserting (s\<lparr>ud_jobs := (ud_jobs s)(j := ph)\<rparr>) = {k. \<exists>a. ph = Inserting a k} \<union> inserting s"
  using assms by (auto simp: inserting_def) metis

lemma inserting_done:
  assumes "ud_jobs s j = Inserting a k" "\<And>b l. ph \<noteq> Inserting b l"
    "\<And>j j' a a' k. ud_jobs s j = Inserting a k \<Longrightarrow> ud_jobs s j' = Inserting a' k \<Longrightarrow> j = j'"
  shows "inserting (s\<lparr>ud_jobs := (ud_jobs s)(j := ph)\<rparr>) = inserting s - {k}"
proof -
  have "j' \<noteq> j" if "ud_jobs s j' = Inserting b l" "l \<noteq> k" for j' b l using that assms(1) by auto
  then show ?thesis using assms by (auto simp: inserting_def)
qed

lemma ran_insert_new: "m a = None \<Longrightarrow> ran (m(a \<mapsto> k)) = insert k (ran m)"
  by (rule ran_map_upd)

lemma ran_remove:
  "inj_on m (dom m) \<Longrightarrow> ran (m(a := None)) = ran m - set_option (m a)"
  by (auto simp: ran_def inj_on_def dom_def split: if_splits)

lemma inj_insert_new:
  "inj_on m (dom m) \<Longrightarrow> k \<notin> ran m \<Longrightarrow> inj_on (m(a \<mapsto> k)) (dom (m(a \<mapsto> k)))"
  by (auto simp: inj_on_def ran_def dom_def split: if_splits)

lemma inj_remove: "inj_on m (dom m) \<Longrightarrow> inj_on (m(a := None)) (dom (m(a := None)))"
  by (auto simp: inj_on_def)

lemma socket_of_insert:
  assumes "sockets_ok s" "ud_jobs s j = Inserting a k"
  shows "k \<in> ud_open s" "k \<notin> ran (ud_assocs s)" "k \<in> inserting s"
proof -
  show k: "k \<in> inserting s" using assms(2) by (auto simp: inserting_def)
  show "k \<in> ud_open s" "k \<notin> ran (ud_assocs s)" using assms(1) k by (auto simp: sockets_ok_def)
qed

lemma insert_finishes:
  assumes "sockets_ok s" "ud_jobs s j = Inserting a k"
  shows "inserting (s\<lparr>ud_jobs := (ud_jobs s)(j := Sending b l)\<rparr>) = inserting s - {k}"
  by (rule inserting_done [OF assms(2)]) (use assms(1) in \<open>auto simp: sockets_ok_def\<close>)

lemma inserting_jobs: "inserting (s\<lparr>ud_jobs := f, ud_open := a, ud_used := b\<rparr>) = inserting (s\<lparr>ud_jobs := f\<rparr>)"
  "inserting (s\<lparr>ud_jobs := f, ud_open := a\<rparr>) = inserting (s\<lparr>ud_jobs := f\<rparr>)"
  "inserting (s\<lparr>ud_jobs := f, ud_assocs := m\<rparr>) = inserting (s\<lparr>ud_jobs := f\<rparr>)"
  by (simp_all add: inserting_def)

lemma sockets_ok_step: "udp_step s s' \<Longrightarrow> sockets_ok s \<Longrightarrow> sockets_ok s'"
proof (induction rule: udp_step.induct)
  case (listen s j a k)
  have "k \<notin> ran (ud_assocs s)" "k \<notin> inserting s" "\<And>j' b. ud_jobs s j' \<noteq> Inserting b k"
    using listen by (auto simp: sockets_ok_def inserting_def)
  then show ?case
    using listen by (auto simp: sockets_ok_def inserting_jobs inserting_job)
next
  case (existing s j a k k')
  then show ?case
    using socket_of_insert [OF existing(3,1)] insert_finishes [OF existing(3,1)]
    by (auto simp: sockets_ok_def inserting_jobs)
next
  case (insert s j a k)
  note k = socket_of_insert [OF insert(3,1)]
  have "inj_on (ud_assocs s) (dom (ud_assocs s))" using insert(3) by (simp add: sockets_ok_def)
  from inj_insert_new [OF this k(2)] show ?case
    using insert k insert_finishes [OF insert(3,1)]
    unfolding sockets_ok_def inserting_jobs
    by (auto simp: ran_insert_new simp del: fun_upd_apply) (auto split: if_splits)
next
  case (close s a)
  then show ?case
    using inj_remove [of "ud_assocs s" a]
    by (auto simp: sockets_ok_def inserting_jobs ran_remove inj_remove intro: ranI dest: ranI)
next
  case (session_ends s)
  then have "(ran (ud_assocs s) \<union> inserting s) - ran (ud_assocs s) = inserting s"
    by (auto simp: sockets_ok_def)
  then show ?case using session_ends by (auto simp: sockets_ok_def inserting_jobs)
qed (auto simp: sockets_ok_def inserting_job)

lemma sockets_ok_run: "udp_step\<^sup>*\<^sup>* udp_start s \<Longrightarrow> sockets_ok s"
  by (induction rule: rtranclp_induct)
    (auto simp: sockets_ok_step, simp add: sockets_ok_def udp_start_def inserting_def)


text \<open>One goroutine, up to the point where it has opened socket 0 for association 7.\<close>

abbreviation one_job :: "udp_phase \<Rightarrow> nat \<Rightarrow> udp_phase" where
  "one_job ph \<equiv> (\<lambda>_. Idle)(0 := ph)"

lemma three_steps: "r a b \<Longrightarrow> r b c \<Longrightarrow> r c d \<Longrightarrow> r\<^sup>*\<^sup>* a d"
  by (blast intro: rtranclp.rtrancl_into_rtrancl)

lemma one_job_opens:
  "udp_step\<^sup>*\<^sup>* udp_start (udp_start\<lparr>ud_open := {0}, ud_used := {0}, ud_jobs := one_job (Inserting 7 0)\<rparr>)"
proof -
  have "udp_step udp_start (udp_start\<lparr>ud_jobs := one_job (Lookup 7)\<rparr>)"
    using udp_step.frame [of udp_start 0 7] by (simp add: udp_start_def)
  moreover have "udp_step (udp_start\<lparr>ud_jobs := one_job (Lookup 7)\<rparr>) (udp_start\<lparr>ud_jobs := one_job (Listening 7)\<rparr>)"
    using udp_step.missing [of "udp_start\<lparr>ud_jobs := one_job (Lookup 7)\<rparr>" 0 7] by (simp add: udp_start_def)
  moreover have "udp_step (udp_start\<lparr>ud_jobs := one_job (Listening 7)\<rparr>)
      (udp_start\<lparr>ud_open := {0}, ud_used := {0}, ud_jobs := one_job (Inserting 7 0)\<rparr>)"
    using udp_step.listen [of "udp_start\<lparr>ud_jobs := one_job (Listening 7)\<rparr>" 0 7 0] by (simp add: udp_start_def)
  ultimately show ?thesis by (rule three_steps)
qed


text \<open>Sockets can outlive their session. When the session ends while a goroutine holds a socket it has
  opened but not entered, the goroutine enters it into the table
  that has already been cleared: a state is reached in which the session has ended,
  no goroutine is left, no step is possible, and a socket is still open.\<close>

theorem udp_socket_outlives_session:
  "\<exists>s. udp_step\<^sup>*\<^sup>* udp_start s \<and> ud_ended s \<and> (\<forall>j. ud_jobs s j = Idle) \<and> ud_open s \<noteq> {} \<and> (\<nexists>s'. udp_step s s')"
proof -
  let ?s1 = "udp_start\<lparr>ud_open := {0}, ud_used := {0}, ud_jobs := one_job (Inserting 7 0)\<rparr>"
  let ?s2 = "?s1\<lparr>ud_ended := True\<rparr>"
  let ?s3 = "?s2\<lparr>ud_assocs := [7 \<mapsto> 0], ud_jobs := one_job (Sending 7 0)\<rparr>"
  let ?s4 = "?s3\<lparr>ud_jobs := \<lambda>_. Idle\<rparr>"
  have "udp_step ?s1 ?s2" using udp_step.session_ends [of ?s1] by (simp add: udp_start_def)
  moreover have "udp_step ?s2 ?s3" using udp_step.insert [of ?s2 0 7 0] by (simp add: udp_start_def)
  moreover have "(one_job (Sending 7 0))(0 := Idle) = (\<lambda>_. Idle)" by (rule ext) simp
  then have "udp_step ?s3 ?s4" using udp_step.send [of ?s3 0 7 0] by (simp add: udp_start_def)
  ultimately have "udp_step\<^sup>*\<^sup>* ?s1 ?s4" by (rule three_steps)
  then have "udp_step\<^sup>*\<^sup>* udp_start ?s4" by (rule rtranclp_trans [OF one_job_opens])
  moreover have "\<nexists>s'. udp_step ?s4 s'" by (auto elim!: udp_stepE)
  ultimately show ?thesis by (intro exI [of _ ?s4]) simp
qed

section \<open>A proxied connection from end to end\<close>

lemma read_target_encoded:
  assumes "known_addr_type t" "t # concat (arriving c) = EncodeAddress t a p @ rest"
  shows "\<exists>c'. read_target conn_read t c = Some (Ok (norm_address t a, p), c') \<and> concat (arriving c') = rest"
proof -
  obtain r c' where r: "ReadAddressHeaderWithFirstByte t conn_read c = Some (r, c')"
    and h: "header_agrees (t # concat (arriving c)) r (concat (arriving c'))"
    using net_header.header_first_byte [OF TrueI, of t c] by blast
  have "r = Ok (t, norm_address t a, p)" "concat (arriving c') = rest"
    using h assms decode_encode_norm [OF assms(1), of a p rest] by (simp_all add: header_agrees_def)
  with r show ?thesis by (simp add: read_target_header)
qed

lemma EncodeAddress_head: "\<exists>h. EncodeAddress t a p = t # h"
  by (simp add: EncodeAddress_def)

lemma smart_reads_target:
  assumes "known_addr_type t" "concat (arriving (ep_in conn)) = EncodeAddress t a p @ rest"
  shows "\<exists>c c'. handleSmartConnection os conn session sv =
      map_option (\<lambda>(c, t, sv'). (SmartDirect c t, sv')) (handleDirectConnectionWithType os (conn\<lparr>ep_in := c\<rparr>) session t sv) \<and>
    read_target conn_read t c = Some (Ok (norm_address t a, p), c') \<and> concat (arriving c') = rest"
proof -
  obtain h where h: "EncodeAddress t a p = t # h" using EncodeAddress_head by blast
  have t: "t \<noteq> 0" using assms(1) by (auto simp: known_addr_type_def addr_type_defs)
  from TrueI obtain c where r: "read_full conn_read 1 (ep_in conn) = Some (Ok [t], c)" and c: "concat (arriving c) = h @ rest"
  proof (cases rule: net_header.read_full_cases [where s = "ep_in conn" and n = 1])
    case (got s')
    then show ?thesis using that [of s'] assms(2) h by simp
  next
    case (short s' e)
    then show ?thesis using assms(2) h by simp
  qed
  moreover obtain c' where "read_target conn_read t c = Some (Ok (norm_address t a, p), c')" "concat (arriving c') = rest"
    using read_target_encoded [OF assms(1), of c a p rest] c h by auto
  ultimately show ?thesis
    using assms(1) t
    by (intro exI [of _ c] exI [of _ c'])
      (auto simp: handleSmartConnection_def ep_read_full_def known_addr_type_def Let_def)
qed

definition live_sessions :: "server \<Rightarrow> bool" where
  "live_sessions sv \<longleftrightarrow> (\<forall>u n. sv_sessions sv u = Some n \<longrightarrow> 0 < n)"

lemma session_balanced:
  assumes "live_sessions sv"
  shows "sv_sessions (session_end u (session_begin u sv)) = sv_sessions sv"
proof (cases "sv_sessions sv u")
  case None
  then show ?thesis by (auto simp: session_end_def Let_def)
next
  case (Some n)
  then have "0 < n" using assms by (auto simp: live_sessions_def)
  with Some show ?thesis by (auto simp: session_end_def Let_def)
qed

text \<open>What the client of a proxied connection is sent, and what reaches the target.\<close>

definition proxy_reply :: "bool \<Rightarrow> endpoint option \<Rightarrow> bytes" where
  "proxy_reply allowed d =
     (if \<not> allowed then [0x03]
      else case d of None \<Rightarrow> [0x02] | Some target \<Rightarrow> 0x00 # concat (arriving (ep_in target)))"

fun target_got :: "bool \<Rightarrow> endpoint option \<Rightarrow> bytes \<Rightarrow> endpoint option \<Rightarrow> bool" where
  "target_got True (Some target) bs (Some target') \<longleftrightarrow>
     concat (taken (ep_out target')) = concat (taken (ep_out target)) @ bs"
| "target_got True None bs t' \<longleftrightarrow> t' = None"
| "target_got False d bs t' \<longleftrightarrow> t' = None"
| "target_got True (Some target) bs None \<longleftrightarrow> False"

text \<open>C3. A proxied connection does what its opening bytes ask. After the bytes of an encoded address, the client
  is answered 3 when the firewall refuses that address for its user, 2 when
  the dial fails, and otherwise 0 followed by exactly what the target sent, while the target gets exactly what
  followed the header; and once it is over the counters of the firewall and of the sessions are
  those from before.\<close>

theorem proxied_connection:
  assumes "known_addr_type t" "concat (arriving (ep_in conn)) = EncodeAddress t a p @ rest"
    and up: "lives (ep_out conn) = None" "\<And>target. d = Some target \<Longrightarrow> lives (ep_out target) = None"
    and d: "dial_for os (as_user session) t (norm_address t a) p = Some d"
    and "live_sessions sv"
    and allowed: "allowed = fst (CheckConnection (u_id (as_user session)) (norm_address t a) p (Some (as_user session)) (sv_firewall sv))"
  shows "\<exists>conn' target' sv'. handleSmartConnection os conn session sv = Some (SmartDirect conn' target', sv') \<and>
    concat (taken (ep_out conn')) = concat (taken (ep_out conn)) @ proxy_reply allowed d \<and>
    target_got allowed d rest target' \<and>
    sv_sessions sv' = sv_sessions sv \<and> (\<forall>v. conn_count v (sv_firewall sv') = conn_count v (sv_firewall sv))"
proof -
  let ?u = "as_user session"
  obtain c c' where smart: "handleSmartConnection os conn session sv =
      map_option (\<lambda>(c, t, sv'). (SmartDirect c t, sv')) (handleDirectConnectionWithType os (conn\<lparr>ep_in := c\<rparr>) session t sv)"
    and rd: "read_target conn_read t c = Some (Ok (norm_address t a, p), c')" and rest: "concat (arriving c') = rest"
    using smart_reads_target [OF assms(1,2)] by blast
  obtain fw where ck: "CheckConnection (u_id ?u) (norm_address t a) p (Some ?u) (sv_firewall sv) = (allowed, fw)"
    by (cases "CheckConnection (u_id ?u) (norm_address t a) p (Some ?u) (sv_firewall sv)") (simp add: allowed)
  have fw: "conn_count v fw = conn_count v (sv_firewall sv)" for v
    using check_count [of v "u_id ?u" "norm_address t a" p "Some ?u" "sv_firewall sv"] ck by simp
  have live: "live_sessions (sv\<lparr>sv_firewall := fw\<rparr>)" using assms(6) by (simp add: live_sessions_def)
  show ?thesis
  proof (cases allowed)
    case False
    then show ?thesis using smart rd ck fw up(1)
      by (simp add: handleDirectConnectionWithType_def proxy_reply_def Let_def)
  next
    case ok: True
    show ?thesis
    proof (cases d)
      case None
      then show ?thesis using ok smart rd ck fw up(1) d session_balanced [OF live]
        by (simp add: handleDirectConnectionWithType_def proxy_reply_def Let_def)
    next
      case (Some target)
      obtain l r where "BidirectionalRelay (ep_send [0x00] (conn\<lparr>ep_in := c'\<rparr>)) target = Some (l, r)"
        "concat (taken (ep_out r)) = concat (taken (ep_out target)) @ rest"
        "concat (taken (ep_out l)) = concat (taken (ep_out conn)) @ 0 # concat (arriving (ep_in target))"
        using relay_outcome [of "ep_send [0x00] (conn\<lparr>ep_in := c'\<rparr>)" target] up(1) up(2) [OF Some] rest by auto
      then show ?thesis using Some ok smart rd ck fw d session_balanced [OF live]
        by (simp add: handleDirectConnectionWithType_def proxy_reply_def Let_def)
    qed
  qed
qed

text \<open>A user without restrictions on a new server.\<close>



definition sample_outside :: outside where
  "sample_outside = \<lparr>os_dial = (\<lambda>_ _. Some (sample_conn [[7, 8], [9]])),
     os_tls = \<lparr>dial_tls = \<lambda>_ _. None, dial_utls = \<lambda>_ _ _. None\<rparr>, os_now = 0, os_nonce = None\<rparr>"

definition sample_server :: server where
  "sample_server = NewServer (\<lambda>_. None) \<lparr>bitset = [], bf_m = 0, bf_k = 0\<rparr> sample_server_config"

lemma sample_allowed:
  assumes "p = 80 \<or> p = 53"
  shows "fst (CheckConnection (u_id sample_user) ''example.org'' p (Some sample_user) (sv_firewall sample_server))"
proof -
  have ip: "parse_ip ''example.org'' = None" by code_simp
  have fw: "fw_config (NewFirewall cfg) = cfg" "userConnCounts (NewFirewall cfg) = Map.empty" for cfg
    by (simp_all add: NewFirewall_def)
  show ?thesis
    using assms
    by (auto simp: CheckConnection_def sample_server_def NewServer_def blocked_ports sample_server_config_def
      DefaultFirewallConfig_def sample_user_def ip getConnCount_def fw)
qed

lemma sample_norm: "norm_address AddrDomain ''example.org'' = ''example.org''"
  by (simp add: norm_address_def)

text \<open>A request for port 80 of example.org, answered and relayed.\<close>

theorem proxied_connection_witness:
  "\<exists>c r sv'. handleSmartConnection sample_outside (sample_conn [EncodeAddress AddrDomain ''example.org'' 80, [1, 2]])
      \<lparr>as_user = sample_user, as_remote = ''''\<rparr>
      sample_server = Some (SmartDirect c (Some r), sv') \<and>
    concat (taken (ep_out c)) = [0, 7, 8, 9] \<and> concat (taken (ep_out r)) = [1, 2]"
proof -
  let ?sv = sample_server
  let ?t = "Some (sample_conn [[7, 8], [9]])"
  have allowed: "True = fst (CheckConnection (u_id sample_user) ''example.org'' 80 (Some sample_user) (sv_firewall ?sv))"
    using sample_allowed by simp
  have "known_addr_type AddrDomain" "live_sessions ?sv"
    by (simp_all add: known_addr_type_def live_sessions_def NewServer_def sample_server_def)
  moreover have "dial_for sample_outside sample_user AddrDomain ''example.org'' 80 = Some ?t"
    by (simp add: dial_for_def sample_user_def sample_outside_def)
  ultimately obtain c r sv' where "handleSmartConnection sample_outside (sample_conn [EncodeAddress AddrDomain ''example.org'' 80, [1, 2]])
      \<lparr>as_user = sample_user, as_remote = ''''\<rparr> ?sv = Some (SmartDirect c r, sv')"
    "concat (taken (ep_out c)) = [0, 7, 8, 9]" "target_got True ?t [1, 2] r"
    using proxied_connection [of AddrDomain "sample_conn [EncodeAddress AddrDomain ''example.org'' 80, [1, 2]]"
        "''example.org''" 80 "[1, 2]" ?t sample_outside "\<lparr>as_user = sample_user, as_remote = ''''\<rparr>" ?sv True] allowed sample_norm
    by (auto simp: sample_conn_def proxy_reply_def)
  then show ?thesis by (cases r) (auto simp: sample_conn_def)
qed

section \<open>A whole TUN session\<close>

text \<open>The jobs a frame asks for: one for each request to connect, datagram and well-formed request to close an
  association, none for anything else.\<close>

definition frame_jobs :: "frame \<Rightarrow> tun_job list" where
  "frame_jobs f =
     (if frame_type f = FrameConnect then [JobConnect f]
      else if frame_type f = FrameUDP then [JobUDP f]
      else if frame_type f = FrameUDPClose \<and> length (frame_payload f) = 2 then [JobUDPClose (of_be16 (frame_payload f))]
      else [])"

definition same_accounts :: "server \<Rightarrow> server \<Rightarrow> bool" where
  "same_accounts sv sv' \<longleftrightarrow> sv_config sv' = sv_config sv \<and> sv_auth sv' = sv_auth sv \<and>
     sv_replay sv' = sv_replay sv \<and> sv_sessions sv' = sv_sessions sv \<and>
     (\<forall>v. conn_count v (sv_firewall sv') = conn_count v (sv_firewall sv))"

lemma frame_types_apart [simp]:
  "FrameIP \<noteq> FrameConnect" "FrameIP \<noteq> FrameUDP" "FrameIP \<noteq> FrameUDPClose" "FrameUDP \<noteq> FrameConnect"
  "FrameUDPClose \<noteq> FrameConnect" "FrameUDPClose \<noteq> FrameUDP"
  by (simp_all add: frame_type_defs)

lemma tun_dispatch_jobs:
  "\<exists>sv'. tun_dispatch clock uid f sv = (frame_jobs f, sv') \<and> same_accounts sv sv'"
  by (cases clock)
    (auto simp: tun_dispatch_def frame_jobs_def same_accounts_def DecodeUDPCloseFrame_def)

lemma tun_frames_jobs:
  "\<exists>sv'. tun_frames clock k uid fs sv = (concat (map frame_jobs fs), sv') \<and> same_accounts sv sv'"
proof (induction fs arbitrary: k sv)
  case Nil
  then show ?case by (simp add: same_accounts_def)
next
  case (Cons f fs)
  obtain sv1 where 1: "tun_dispatch (clock k) uid f sv = (frame_jobs f, sv1)" "same_accounts sv sv1"
    using tun_dispatch_jobs by blast
  obtain sv2 where "tun_frames clock (Suc k) uid fs sv1 = (concat (map frame_jobs fs), sv2)" "same_accounts sv1 sv2"
    using Cons.IH by blast
  with 1 show ?case by (simp add: same_accounts_def)
qed



end
