(* ===== verification/Socks.thy ===== *)
theory Socks
  imports Dial
begin

text \<open>
  \<^verbatim>\<open>core/transport/proxy.go\<close>: the client's local SOCKS5 server with its CONNECT and UDP
  ASSOCIATE commands, and the HTTP proxy that forwards CONNECT requests to it.
\<close>

section \<open>State\<close>

text \<open>
  A dialer is a function that gives the connection, an error (\<open>Some None\<close>) or never returns
  (\<open>None\<close>). Of a QUIC connection the proxy uses the opening of a stream, of the opener of UDP associations
  whether it succeeds.
\<close>

type_synonym dialer = "byte \<Rightarrow> string \<Rightarrow> u16 \<Rightarrow> endpoint option option"

record socks_proxy =
  sp_listen :: string
  sp_dialer :: "dialer option"
  sp_quic :: "endpoint option option"
  sp_opener :: "bool option"
  sp_stopped :: bool

definition NewSOCKSProxy :: "string \<Rightarrow> socks_proxy" where
  "NewSOCKSProxy listenAddr =
     \<lparr>sp_listen = listenAddr, sp_dialer = None, sp_quic = None, sp_opener = None, sp_stopped = False\<rparr>"

definition SetDialer :: "dialer option \<Rightarrow> socks_proxy \<Rightarrow> socks_proxy" where
  "SetDialer fn sp = sp\<lparr>sp_dialer := fn, sp_quic := None\<rparr>"

definition SetQUIC :: "endpoint option option \<Rightarrow> socks_proxy \<Rightarrow> socks_proxy" where
  "SetQUIC conn sp = sp\<lparr>sp_quic := conn, sp_dialer := None\<rparr>"

definition SetUDPOpener :: "bool option \<Rightarrow> socks_proxy \<Rightarrow> socks_proxy" where
  "SetUDPOpener fn sp = sp\<lparr>sp_opener := fn\<rparr>"

definition StopSOCKS :: "socks_proxy \<Rightarrow> socks_proxy" where
  "StopSOCKS sp = sp\<lparr>sp_stopped := True\<rparr>"

section \<open>Commands\<close>

definition socks_reply :: "byte \<Rightarrow> bytes" where
  "socks_reply rep = [0x05, rep, 0x00, 0x01, 0, 0, 0, 0, 0, 0]"

datatype socks_end = SocksClosed | SocksRelayed endpoint | SocksUDP

definition handleSOCKSDirect ::
  "dialer \<Rightarrow> byte \<Rightarrow> string \<Rightarrow> u16 \<Rightarrow> endpoint \<Rightarrow> (socks_end \<times> endpoint) option" where
  "handleSOCKSDirect dialer addrType addr port localConn =
     (case dialer addrType addr port of
        None \<Rightarrow> None
      | Some None \<Rightarrow> Some (SocksClosed, ep_send (socks_reply 0x05) localConn)
      | Some (Some remoteConn) \<Rightarrow>
          map_option (\<lambda>(l, r). (SocksRelayed r, l))
            (BidirectionalRelay (ep_send (socks_reply 0x00) localConn) remoteConn))"

text \<open>The stream is closed in both directions at the end; the local connection is half closed only when it is a
  plain TCP connection.\<close>

definition handleSOCKSQUIC ::
  "endpoint option \<Rightarrow> byte \<Rightarrow> string \<Rightarrow> u16 \<Rightarrow> endpoint \<Rightarrow> (socks_end \<times> endpoint) option" where
  "handleSOCKSQUIC stream addrType addr port conn =
     (case stream of
        None \<Rightarrow> Some (SocksClosed, ep_send (socks_reply 0x01) conn)
      | Some q \<Rightarrow>
          (case ep_write (EncodeAddress addrType addr port) q of
             (Some e, _) \<Rightarrow> Some (SocksClosed, ep_send (socks_reply 0x01) conn)
           | (None, q1) \<Rightarrow>
               (case ep_read_full 1 q1 of
                  None \<Rightarrow> None
                | Some (Ok ack, q2) \<Rightarrow>
                    if hd ack \<noteq> 0x00 then Some (SocksClosed, ep_send (socks_reply 0x05) conn)
                    else
                      let conn1 = ep_send (socks_reply 0x00) conn in
                      (case (copy_half q2 conn1, copy_half conn1 q2) of
                         (Some (qi, co), Some (ci, qo)) \<Rightarrow>
                           Some (SocksRelayed (q2\<lparr>ep_in := qi, ep_out := qo, ep_write_closed := True\<rparr>),
                             conn1\<lparr>ep_in := ci, ep_out := co,
                               ep_write_closed := (ep_write_closed conn1 \<or> ep_kind conn1 = TCPConn)\<rparr>)
                       | _ \<Rightarrow> None)
                | Some (_, q2) \<Rightarrow> Some (SocksClosed, ep_send (socks_reply 0x05) conn))))"

text \<open>\<open>bound\<close> is the port of the local UDP socket, when one could be bound. After the reply the relay of
  datagrams runs until the connection ends.\<close>

definition handleSOCKSUDPAssociate ::
  "socks_proxy \<Rightarrow> u16 option \<Rightarrow> endpoint \<Rightarrow> (socks_end \<times> endpoint) option" where
  "handleSOCKSUDPAssociate sp bound conn =
     (case sp_opener sp of
        None \<Rightarrow> Some (SocksClosed, ep_send (socks_reply 0x07) conn)
      | Some False \<Rightarrow> Some (SocksClosed, ep_send (socks_reply 0x01) conn)
      | Some True \<Rightarrow>
          (case bound of
             None \<Rightarrow> Some (SocksClosed, ep_send (socks_reply 0x01) conn)
           | Some port \<Rightarrow>
               (case ep_write ([0x05, 0x00, 0x00, 0x01, 127, 0, 0, 1] @ be16 port) conn of
                  (Some e, conn1) \<Rightarrow> Some (SocksClosed, conn1)
                | (None, conn1) \<Rightarrow> Some (SocksUDP, conn1))))"

text \<open>What follows the request header.\<close>

definition socks_command ::
  "socks_proxy \<Rightarrow> u16 option \<Rightarrow> byte \<Rightarrow> byte \<times> string \<times> u16 \<Rightarrow> endpoint \<Rightarrow> (socks_end \<times> endpoint) option" where
  "socks_command sp bound cmd = (\<lambda>(addrType, addr, port) conn.
     if cmd = 0x01 then
       (case sp_quic sp of
          Some qc \<Rightarrow> handleSOCKSQUIC qc addrType addr port conn
        | None \<Rightarrow>
            (case sp_dialer sp of
               Some dl \<Rightarrow> handleSOCKSDirect dl addrType addr port conn
             | None \<Rightarrow> Some (SocksClosed, ep_send (socks_reply 0x01) conn)))
     else if cmd = 0x03 then handleSOCKSUDPAssociate sp bound conn
     else Some (SocksClosed, ep_send (socks_reply 0x07) conn))"

text \<open>Read \<open>n\<close> bytes and go on, or give up without a word.\<close>

definition socks_read ::
  "nat \<Rightarrow> endpoint \<Rightarrow> (bytes \<Rightarrow> endpoint \<Rightarrow> (socks_end \<times> endpoint) option) \<Rightarrow> (socks_end \<times> endpoint) option" where
  "socks_read n conn k =
     (case ep_read_full n conn of
        None \<Rightarrow> None
      | Some (Ok buf, conn') \<Rightarrow> k buf conn'
      | Some (_, conn') \<Rightarrow> Some (SocksClosed, conn'))"

text \<open>The handler: the greeting, the methods, and the request once a method has been agreed.\<close>

definition socks_request_phase :: "socks_proxy \<Rightarrow> u16 option \<Rightarrow> endpoint \<Rightarrow> (socks_end \<times> endpoint) option" where
  "socks_request_phase sp bound conn =
     socks_read 4 conn (\<lambda>reqHeader conn.
       if reqHeader ! 0 \<noteq> 0x05 then Some (SocksClosed, ep_send (socks_reply 0x07) conn)
       else
         (case ReadAddressHeaderWithFirstByte (reqHeader ! 3) conn_read (ep_in conn) of
            None \<Rightarrow> None
          | Some (Ok header, s) \<Rightarrow> socks_command sp bound (reqHeader ! 1) header (conn\<lparr>ep_in := s\<rparr>)
          | Some (_, s) \<Rightarrow> Some (SocksClosed, ep_send (socks_reply 0x08) (conn\<lparr>ep_in := s\<rparr>))))"

definition socks_method_phase :: "socks_proxy \<Rightarrow> u16 option \<Rightarrow> nat \<Rightarrow> endpoint \<Rightarrow> (socks_end \<times> endpoint) option" where
  "socks_method_phase sp bound methodCount conn =
     socks_read methodCount conn (\<lambda>methods conn.
       if 0x00 \<notin> set methods then Some (SocksClosed, ep_send [0x05, 0xFF] conn)
       else socks_request_phase sp bound (ep_send [0x05, 0x00] conn))"

definition handleSOCKS :: "socks_proxy \<Rightarrow> u16 option \<Rightarrow> endpoint \<Rightarrow> (socks_end \<times> endpoint) option" where
  "handleSOCKS sp bound conn =
     socks_read 2 conn (\<lambda>header conn.
       if header ! 0 \<noteq> 0x05 then Some (SocksClosed, conn)
       else if header ! 1 = 0 then Some (SocksClosed, conn)
       else socks_method_phase sp bound (unat (header ! 1)) conn)"

definition socksCommandName :: "byte \<Rightarrow> string" where
  "socksCommandName cmd =
     (if cmd = 0x01 then ''connect'' else if cmd = 0x02 then ''bind''
      else if cmd = 0x03 then ''udp associate'' else ''unknown'')"

section \<open>UDP through SOCKS\<close>

datatype socks_udp_error = UdpPacketShort | UdpReserved | UdpFragmented | UdpAddress frame_error

definition EncodeSOCKSUDPDatagram :: "byte \<Rightarrow> string \<Rightarrow> u16 \<Rightarrow> bytes \<Rightarrow> bytes" where
  "EncodeSOCKSUDPDatagram addrType addr port data = [0x00, 0x00, 0x00] @ EncodeAddress addrType addr port @ data"

definition DecodeSOCKSUDPDatagram :: "bytes \<Rightarrow> (socks_udp_error, (byte \<times> string \<times> u16) \<times> bytes) outcome" where
  "DecodeSOCKSUDPDatagram packet =
     (if length packet < 4 then Err UdpPacketShort
      else if packet ! 0 \<noteq> 0x00 \<or> packet ! 1 \<noteq> 0x00 then Err UdpReserved
      else if packet ! 2 \<noteq> 0x00 then Err UdpFragmented
      else (case DecodeAddress (drop 3 packet) of
          Ok r \<Rightarrow> Ok r | Err e \<Rightarrow> Err (UdpAddress e) | Panic \<Rightarrow> Panic))"

text \<open>
  The relay of an association: its client (the sender of the first datagram), whether its
  \<^verbatim>\<open>done\<close> channel is closed, and whether the loop on the local socket and the goroutine that serves
  the tunnel's payloads still run. The events are what these meet, in any order: a datagram on the local
  socket with the outcome of forwarding it, the loop's look at \<^verbatim>\<open>done\<close> (before each read, also after a timeout), a
  failure of the socket, a payload from the tunnel with the outcome of sending it, that goroutine's choice of
  \<^verbatim>\<open>done\<close>, the end of the tunnel's channel, and the end of the control connection.
\<close>

datatype 'a socks_event =
    FromSocket 'a bytes bool
  | ReaderChecks
  | SocketFails
  | FromTunnel udp_payload bool
  | ServerChecks
  | TunnelCloses
  | ControlEnds

datatype 'a socks_output = ToTunnel byte string u16 bytes | ToClient 'a bytes

record 'a socks_relay =
  sr_client :: "'a option"
  sr_done :: bool
  sr_reading :: bool
  sr_serving :: bool

definition relay_start :: "'a socks_relay" where
  "relay_start = \<lparr>sr_client = None, sr_done = False, sr_reading = True, sr_serving = True\<rparr>"

fun socks_relay_step :: "'a socks_event \<Rightarrow> 'a socks_relay \<Rightarrow> 'a socks_output list \<times> 'a socks_relay" where
  "socks_relay_step (FromSocket src packet sent) s =
     (if \<not> sr_reading s then ([], s)
      else
        let known = (case sr_client s of None \<Rightarrow> src | Some a \<Rightarrow> a); s' = s\<lparr>sr_client := Some known\<rparr> in
        if src \<noteq> known then ([], s')
        else (case DecodeSOCKSUDPDatagram packet of
            Ok ((t, a, p), data) \<Rightarrow>
              if sent then ([ToTunnel t a p data], s') else ([], s'\<lparr>sr_reading := False, sr_done := True\<rparr>)
          | _ \<Rightarrow> ([], s')))"
| "socks_relay_step ReaderChecks s = ([], s\<lparr>sr_reading := sr_reading s \<and> \<not> sr_done s\<rparr>)"
| "socks_relay_step SocketFails s =
     (if sr_reading s then ([], s\<lparr>sr_reading := False, sr_done := True\<rparr>) else ([], s))"
| "socks_relay_step (FromTunnel d sent) s =
     (if \<not> sr_serving s then ([], s)
      else (case sr_client s of
          None \<Rightarrow> ([], s)
        | Some a \<Rightarrow>
            if sent then ([ToClient a (EncodeSOCKSUDPDatagram (up_type d) (up_addr d) (up_port d) (up_data d))], s)
            else ([], s\<lparr>sr_done := True, sr_serving := False\<rparr>)))"
| "socks_relay_step ServerChecks s = ([], s\<lparr>sr_serving := sr_serving s \<and> \<not> sr_done s\<rparr>)"
| "socks_relay_step TunnelCloses s = ([], s\<lparr>sr_serving := False\<rparr>)"
| "socks_relay_step ControlEnds s = ([], s\<lparr>sr_done := True\<rparr>)"

fun socks_relay_run :: "'a socks_event list \<Rightarrow> 'a socks_relay \<Rightarrow> 'a socks_output list \<times> 'a socks_relay" where
  "socks_relay_run [] s = ([], s)"
| "socks_relay_run (e # es) s =
     (case socks_relay_step e s of (out, s1) \<Rightarrow>
        case socks_relay_run es s1 of (outs, s2) \<Rightarrow> (out @ outs, s2))"

section \<open>The HTTP proxy\<close>

record http_proxy =
  hp_listen :: string
  hp_socks :: string

definition NewHTTPProxy :: "string \<Rightarrow> string \<Rightarrow> http_proxy" where
  "NewHTTPProxy listenAddr socksAddr = \<lparr>hp_listen = listenAddr, hp_socks = socksAddr\<rparr>"

text \<open>\<^verbatim>\<open>fmt.Sscanf\<close> with \<^verbatim>\<open>CONNECT %s\<close>, on a text that begins with the word: spaces, then a word on the
  same line. With \<^verbatim>\<open>%d\<close>: an optional sign and digits, which must fit in 64 bits; otherwise the variable keeps
  its value.\<close>

definition scan_connect :: "string \<Rightarrow> string" where
  "scan_connect request =
     (case drop 7 request of
        [] \<Rightarrow> ''''
      | c # r \<Rightarrow>
          if \<not> is_space c then ''''
          else takeWhile (\<lambda>c. \<not> is_space c) (dropWhile (\<lambda>c. is_space c \<and> c \<noteq> CHR 0x0A) (c # r)))"

definition scan_int :: "int \<Rightarrow> string \<Rightarrow> int" where
  "scan_int old s =
     (let t = dropWhile (\<lambda>c. is_space c \<and> c \<noteq> CHR 0x0A) s;
          neg = (t \<noteq> [] \<and> hd t = CHR ''-'');
          u = (if t \<noteq> [] \<and> hd t \<in> {CHR ''-'', CHR ''+''} then tl t else t);
          ds = takeWhile (\<lambda>c. dec_digit c \<noteq> None) u;
          v = int (foldl (\<lambda>n c. n * 10 + the (dec_digit c)) 0 ds);
          w = (if neg then - v else v)
      in if ds = [] \<or> w < - (2 ^ 63) \<or> 2 ^ 63 \<le> w then old else w)"

text \<open>\<^verbatim>\<open>io.ReadFull\<close> with its result ignored: what arrived, in a buffer of zeros.\<close>

definition read_ignoring :: "nat \<Rightarrow> endpoint \<Rightarrow> (bytes \<times> endpoint) option" where
  "read_ignoring n ep =
     map_option (\<lambda>(r, ep').
       ((case r of Ok buf \<Rightarrow> buf
         | _ \<Rightarrow> let got = concat (arriving (ep_in ep)) in got @ replicate (n - length got) 0), ep'))
       (ep_read_full n ep)"

definition status_line :: "string \<Rightarrow> bytes" where
  "status_line s = str_bytes (''HTTP/1.1 '' @ s @ crlf @ crlf)"

text \<open>What \<^verbatim>\<open>handleConnect\<close> sends to the SOCKS server: the length byte of a name is its length modulo 256.\<close>

definition socks_connect_request :: "string \<Rightarrow> int \<Rightarrow> bytes" where
  "socks_connect_request hostname port =
     [0x05, 0x01, 0x00, 0x03, word_of_nat (length hostname)] @ str_bytes hostname @ be16 (word_of_int port)"

text \<open>\<open>socks\<close> is the dial to the SOCKS server; the result is the client's connection, and the SOCKS server's when
  it was relayed.\<close>

definition handleConnect :: "endpoint option \<Rightarrow> string \<Rightarrow> endpoint \<Rightarrow> (endpoint \<times> endpoint option) option" where
  "handleConnect socks request clientConn =
     (let host = scan_connect request in
      case socks of
        None \<Rightarrow> Some (ep_send (status_line ''502 Bad Gateway'') clientConn, None)
      | Some remote \<Rightarrow>
          (case split_host_port host of
             None \<Rightarrow> Some (ep_send (status_line ''400 Bad Request'') clientConn, Some remote)
           | Some (hostname, portStr) \<Rightarrow>
               let port = scan_int 443 portStr in
               (case read_ignoring 2 (ep_send [0x05, 0x01, 0x00] remote) of
                  None \<Rightarrow> None
                | Some (resp, remote1) \<Rightarrow>
                    (case read_ignoring 10 (ep_send (socks_connect_request hostname port) remote1) of
                       None \<Rightarrow> None
                     | Some (socksResp, remote2) \<Rightarrow>
                         if socksResp ! 1 \<noteq> 0x00
                         then Some (ep_send (status_line ''502 Bad Gateway'') clientConn, Some remote2)
                         else map_option (\<lambda>(c, r). (c, Some r))
                           (BidirectionalRelay
                             (ep_send (status_line ''200 Connection Established'') clientConn) remote2)))))"

definition handlePlain :: "endpoint \<Rightarrow> endpoint" where
  "handlePlain clientConn = ep_send (status_line ''400 Bad Request'') clientConn"

definition handleHTTP :: "endpoint option \<Rightarrow> endpoint \<Rightarrow> (endpoint \<times> endpoint option) option" where
  "handleHTTP socks conn =
     (case ep_read 4096 conn of
        (Fail e, conn1) \<Rightarrow> Some (conn1, None)
      | (Got data, conn1) \<Rightarrow>
          let request = bytes_str data in
          if length request < 10 then Some (conn1, None)
          else if take 7 request = ''CONNECT'' then handleConnect socks request conn1
          else Some (handlePlain conn1, None))"

section \<open>What a request says\<close>

text \<open>A request read off a byte string in one piece: the reference for the server's parser.\<close>

datatype socks_request =
    Silent
  | NoMethod
  | Greeted
  | BadVersion
  | BadAddress
  | Request byte "byte \<times> string \<times> u16" bytes

definition socks_parse_command :: "bytes \<Rightarrow> socks_request" where
  "socks_parse_command bs =
     (if length bs < 4 then Greeted
      else if bs ! 0 \<noteq> 0x05 then BadVersion
      else (case DecodeAddress (drop 3 bs) of
          Ok (header, rest) \<Rightarrow> Request (bs ! 1) header rest | _ \<Rightarrow> BadAddress))"

definition socks_parse_methods :: "nat \<Rightarrow> bytes \<Rightarrow> socks_request" where
  "socks_parse_methods n bs =
     (if length bs < n then Silent
      else if 0x00 \<notin> set (take n bs) then NoMethod
      else socks_parse_command (drop n bs))"

definition socks_parse :: "bytes \<Rightarrow> socks_request" where
  "socks_parse bs =
     (if length bs < 2 \<or> bs ! 0 \<noteq> 0x05 \<or> bs ! 1 = 0 then Silent
      else socks_parse_methods (unat (bs ! 1)) (drop 2 bs))"

abbreviation written :: "endpoint \<Rightarrow> bytes" where
  "written ep \<equiv> concat (taken (ep_out ep))"

abbreviation incoming :: "endpoint \<Rightarrow> bytes" where
  "incoming ep \<equiv> concat (arriving (ep_in ep))"

lemma socks_read_long:
  assumes "n \<le> length (incoming conn)"
  obtains c where "\<And>k. socks_read n conn k = k (take n (incoming conn)) (conn\<lparr>ep_in := c\<rparr>)"
    "concat (arriving c) = drop n (incoming conn)"
  using TrueI
proof (cases rule: net_header.read_full_cases [where s = "ep_in conn" and n = n])
  case (got s')
  then show thesis by (intro that [of s']) (simp_all add: socks_read_def ep_read_full_def)
next
  case (short s' e)
  then show thesis using assms by simp
qed

lemma socks_read_short:
  assumes "length (incoming conn) < n"
  obtains c where "\<And>k. socks_read n conn k = Some (SocksClosed, conn\<lparr>ep_in := c\<rparr>)"
  using TrueI
proof (cases rule: net_header.read_full_cases [where s = "ep_in conn" and n = n])
  case (got s')
  then show thesis using assms by simp
next
  case (short s' e)
  then show thesis by (intro that [of s']) (simp add: socks_read_def ep_read_full_def)
qed

lemma header_read:
  "\<exists>r c. ReadAddressHeaderWithFirstByte t conn_read (ep_in conn) = Some (r, c) \<and>
    (case DecodeAddress (t # incoming conn) of
       Ok (x, rest) \<Rightarrow> r = Ok x \<and> concat (arriving c) = rest | _ \<Rightarrow> \<not> is_ok r)"
proof -
  obtain r c where r: "ReadAddressHeaderWithFirstByte t conn_read (ep_in conn) = Some (r, c)"
    and h: "header_agrees (t # incoming conn) r (concat (arriving c))"
    using net_header.header_first_byte [OF TrueI, of t "ep_in conn"] by blast
  have "case DecodeAddress (t # incoming conn) of
       Ok (x, rest) \<Rightarrow> r = Ok x \<and> concat (arriving c) = rest | _ \<Rightarrow> \<not> is_ok r"
    using h unfolding header_agrees_def
    by (cases "DecodeAddress (t # incoming conn)") (auto split: frame_error.splits)
  with r show ?thesis by blast
qed

text \<open>The reaction to each request, on the connection once the request has been read off it.\<close>

definition socks_reacts ::
  "socks_proxy \<Rightarrow> u16 option \<Rightarrow> endpoint \<Rightarrow> socks_request \<Rightarrow> (socks_end \<times> endpoint) option \<Rightarrow> bool" where
  "socks_reacts sp bound conn req out \<longleftrightarrow>
     (let closed = (\<lambda>bs. \<exists>c. out = Some (SocksClosed, c) \<and> written c = written conn @ bs) in
      case req of
        Silent \<Rightarrow> closed []
      | NoMethod \<Rightarrow> closed [0x05, 0xFF]
      | Greeted \<Rightarrow> closed [0x05, 0x00]
      | BadVersion \<Rightarrow> closed ([0x05, 0x00] @ socks_reply 0x07)
      | BadAddress \<Rightarrow> closed ([0x05, 0x00] @ socks_reply 0x08)
      | Request cmd header rest \<Rightarrow>
          \<exists>c. out = socks_command sp bound cmd header ((ep_send [0x05, 0x00] conn)\<lparr>ep_in := c\<rparr>) \<and>
            concat (arriving c) = rest)"

lemma ep_send_in [simp]: "ep_send bs (conn\<lparr>ep_in := c\<rparr>) = (ep_send bs conn)\<lparr>ep_in := c\<rparr>"
  by (simp add: ep_send_def ep_write_def map_prod_def split: prod.split)

lemma drop_3_of_4: "4 \<le> length bs \<Longrightarrow> drop 3 bs = bs ! 3 # drop 4 bs"
  using Cons_nth_drop_Suc [of 3 bs] by simp

lemma request_phase:
  assumes up: "lives (ep_out conn) = None"
  shows "case socks_parse_command (incoming conn) of
      Request cmd header rest \<Rightarrow>
        \<exists>c. socks_request_phase sp bound conn = socks_command sp bound cmd header (conn\<lparr>ep_in := c\<rparr>) \<and>
          concat (arriving c) = rest
    | BadVersion \<Rightarrow> \<exists>c. socks_request_phase sp bound conn = Some (SocksClosed, c) \<and> written c = written conn @ socks_reply 7
    | BadAddress \<Rightarrow> \<exists>c. socks_request_phase sp bound conn = Some (SocksClosed, c) \<and> written c = written conn @ socks_reply 8
    | Greeted \<Rightarrow> \<exists>c. socks_request_phase sp bound conn = Some (SocksClosed, c) \<and> written c = written conn
    | _ \<Rightarrow> False"
proof (cases "length (incoming conn) < 4")
  case True
  then obtain c where "\<And>k. socks_read 4 conn k = Some (SocksClosed, conn\<lparr>ep_in := c\<rparr>)"
    using socks_read_short by blast
  with True show ?thesis by (simp add: socks_parse_command_def socks_request_phase_def)
next
  case False
  then have l: "4 \<le> length (incoming conn)" by simp
  then obtain c where c: "\<And>k. socks_read 4 conn k = k (take 4 (incoming conn)) (conn\<lparr>ep_in := c\<rparr>)"
    "concat (arriving c) = drop 4 (incoming conn)"
    using socks_read_long by blast
  obtain r c' where r: "ReadAddressHeaderWithFirstByte (incoming conn ! 3) conn_read c = Some (r, c')"
    "case DecodeAddress (drop 3 (incoming conn)) of
       Ok (x, rest) \<Rightarrow> r = Ok x \<and> concat (arriving c') = rest | _ \<Rightarrow> \<not> is_ok r"
    using header_read [of "incoming conn ! 3" "conn\<lparr>ep_in := c\<rparr>"] c(2) drop_3_of_4 [OF l] by auto
  then show ?thesis
    using c(1) False up
    by (cases r; cases "DecodeAddress (drop 3 (incoming conn))")
      (auto simp: socks_parse_command_def socks_request_phase_def split: outcome.splits)
qed

lemma method_phase:
  assumes up: "lives (ep_out conn) = None"
  shows "socks_reacts sp bound conn (socks_parse_methods n (incoming conn)) (socks_method_phase sp bound n conn)"
proof (cases "length (incoming conn) < n")
  case True
  then obtain c where "\<And>k. socks_read n conn k = Some (SocksClosed, conn\<lparr>ep_in := c\<rparr>)"
    using socks_read_short by blast
  with True show ?thesis by (simp add: socks_parse_methods_def socks_reacts_def socks_method_phase_def)
next
  case False
  then have "n \<le> length (incoming conn)" by simp
  then obtain c where c: "\<And>k. socks_read n conn k = k (take n (incoming conn)) (conn\<lparr>ep_in := c\<rparr>)"
    "concat (arriving c) = drop n (incoming conn)"
    using socks_read_long by blast
  let ?conn = "(ep_send [0x05, 0x00] conn)\<lparr>ep_in := c\<rparr>"
  have props: "written ?conn = written conn @ [5, 0]" "lives (ep_out ?conn) = None" "incoming ?conn = drop n (incoming conn)"
    using up c(2) by simp_all
  show ?thesis
  proof (cases "0x00 \<notin> set (take n (incoming conn))")
    case True
    then show ?thesis
      using False up unfolding socks_method_phase_def c(1) by (simp add: socks_parse_methods_def socks_reacts_def)
  next
    case ok: False
    then have "socks_method_phase sp bound n conn = socks_request_phase sp bound ?conn"
      unfolding socks_method_phase_def c(1) by simp
    moreover have "socks_parse_methods n (incoming conn) = socks_parse_command (incoming ?conn)"
      using ok False unfolding props(3) by (simp add: socks_parse_methods_def)
    ultimately show ?thesis
      using request_phase [of ?conn sp bound] props(1,2)
      by (auto simp: socks_reacts_def Let_def split: socks_request.splits)
  qed
qed

lemma socks_reacts_in: "socks_reacts sp bound (conn\<lparr>ep_in := c\<rparr>) req out = socks_reacts sp bound conn req out"
  by (simp add: socks_reacts_def Let_def split: socks_request.split)

lemma handleSOCKS_reacts:
  assumes up: "lives (ep_out conn) = None"
  shows "socks_reacts sp bound conn (socks_parse (incoming conn)) (handleSOCKS sp bound conn)"
proof (cases "length (incoming conn) < 2")
  case True
  then obtain c where "\<And>k. socks_read 2 conn k = Some (SocksClosed, conn\<lparr>ep_in := c\<rparr>)"
    using socks_read_short by blast
  with True show ?thesis by (simp add: socks_parse_def socks_reacts_def handleSOCKS_def)
next
  case False
  then have "2 \<le> length (incoming conn)" by simp
  then obtain c where c: "\<And>k. socks_read 2 conn k = k (take 2 (incoming conn)) (conn\<lparr>ep_in := c\<rparr>)"
    "concat (arriving c) = drop 2 (incoming conn)"
    using socks_read_long by blast
  have nth: "take 2 (incoming conn) ! 0 = incoming conn ! 0" "take 2 (incoming conn) ! 1 = incoming conn ! 1"
    by simp_all
  have "socks_reacts sp bound conn (socks_parse_methods (unat (incoming conn ! 1)) (drop 2 (incoming conn)))
      (socks_method_phase sp bound (unat (incoming conn ! 1)) (conn\<lparr>ep_in := c\<rparr>))"
    using method_phase [of "conn\<lparr>ep_in := c\<rparr>" sp bound "unat (incoming conn ! 1)"] up c(2)
    unfolding socks_reacts_in by simp
  then show ?thesis
    using False unfolding handleSOCKS_def c(1) nth socks_parse_def
    by (cases "incoming conn ! 0 \<noteq> 0x05 \<or> incoming conn ! 1 = 0") (auto simp: socks_reacts_def [of _ _ _ Silent])
qed

text \<open>C23. The SOCKS server depends only on the bytes it is sent, not on how they arrive: for every
  division of the client's bytes into reads, what it answers and the command it runs are those of
  the request read off the whole byte string, the command being run with exactly the bytes
  after the request unread.\<close>

theorem socks_server_parses:
  assumes up: "lives (ep_out conn) = None"
  shows "socks_reacts sp bound conn (socks_parse (incoming conn)) (handleSOCKS sp bound conn)"
  by (rule handleSOCKS_reacts [OF up])

text \<open>An unknown command for 10.0.0.1, in four pieces.\<close>

theorem socks_server_parses_witness:
  "\<exists>c. handleSOCKS (NewSOCKSProxy ''127.0.0.1:1080'') None
      (sample_conn [[5], [2, 1, 0, 5], [9, 0, 1, 10, 0, 0], [1, 0, 80, 77]]) = Some (SocksClosed, c) \<and>
    written c = [5, 0] @ socks_reply 7 \<and> incoming c = [77]"
proof -
  let ?c = "sample_conn [[5], [2, 1, 0, 5], [9, 0, 1, 10, 0, 0], [1, 0, 80, 77]]"
  have "socks_parse (incoming ?c) = Request 9 (1, ip_string [10, 0, 0, 1], 80) [77]"
    by (simp add: socks_parse_def socks_parse_methods_def socks_parse_command_def sample_conn_def
      DecodeAddress_def AddrIPv4_def)
  then show ?thesis
    using socks_server_parses [of ?c "NewSOCKSProxy ''127.0.0.1:1080''" None]
    by (auto simp: socks_reacts_def socks_command_def sample_conn_def)
qed

section \<open>The datagram format\<close>

definition socks_udp_header :: "byte \<times> string \<times> u16 \<Rightarrow> bytes" where
  "socks_udp_header x = [0, 0, 0] @ encode_address x"

lemma EncodeSOCKSUDPDatagram_header:
  "EncodeSOCKSUDPDatagram t a p d = socks_udp_header (t, a, p) @ d"
  by (simp add: EncodeSOCKSUDPDatagram_def socks_udp_header_def encode_address_def)

lemma decode_datagram:
  "DecodeSOCKSUDPDatagram bs = Ok r \<longleftrightarrow> (\<exists>ds. bs = 0 # 0 # 0 # ds \<and> DecodeAddress ds = Ok r)"
proof (cases "4 \<le> length bs")
  case True
  then obtain x y z ds where "bs = x # y # z # ds" "ds \<noteq> []"
    by (auto simp: Suc_le_length_iff numeral_eq_Suc)
  then show ?thesis
    by (auto simp: DecodeSOCKSUDPDatagram_def Suc_le_eq split: outcome.splits)
next
  case False
  have "DecodeAddress ds \<noteq> Ok r" if "bs = 0 # 0 # 0 # ds" for ds
    using that False by (cases ds) (simp_all add: DecodeAddress_def)
  moreover have "DecodeSOCKSUDPDatagram bs \<noteq> Ok r" using False by (simp add: DecodeSOCKSUDPDatagram_def)
  ultimately show ?thesis by blast
qed

interpretation socks_datagram: canonical_codec DecodeSOCKSUDPDatagram socks_udp_header canon_address
proof unfold_locales
  show "length r < length bs" if "DecodeSOCKSUDPDatagram bs = Ok (x, r)" for bs x r
    using that by (auto simp: decode_datagram dest: address.dec_shrinks)
  show "DecodeSOCKSUDPDatagram (socks_udp_header x @ r) = Ok (x, r)" if "canon_address x" for x r
    using that address.dec_enc by (simp add: decode_datagram socks_udp_header_def)
  show "canon_address x \<and> bs = socks_udp_header x @ r" if "DecodeSOCKSUDPDatagram bs = Ok (x, r)" for bs x r
    using that by (auto simp: decode_datagram address.dec_iff socks_udp_header_def)
qed

text \<open>The datagrams of the SOCKS server are an exact format: a packet is accepted, as the address and data it
  decodes to, precisely when it is the packet \<^verbatim>\<open>EncodeSOCKSUDPDatagram\<close> makes of them and the
  encoder does not change that address.\<close>

theorem socks_datagram_format:
  "DecodeSOCKSUDPDatagram bs = Ok ((t, a, p), d) \<longleftrightarrow>
   known_addr_type t \<and> norm_address t a = a \<and> bs = EncodeSOCKSUDPDatagram t a p d"
  using socks_datagram.dec_iff [of bs "(t, a, p)" d]
  by (simp add: EncodeSOCKSUDPDatagram_header canon_address_def)

section \<open>CONNECT\<close>

text \<open>C22. A CONNECT request through a dialer is served from end to end: the dialer is called with exactly the
  requested address, a failed dial is answered with reply 5, and otherwise the client gets reply 0
  followed by exactly the remote's bytes, and the remote exactly what the client
  sent after its request, also when that arrived together with the request.\<close>

theorem socks_connect_relays:
  assumes "lives (ep_out conn) = None" "socks_parse (incoming conn) = Request 1 (t, a, p) rest"
    and "sp_quic sp = None" "sp_dialer sp = Some dl" "dl t a p = Some d"
    and "\<And>r. d = Some r \<Longrightarrow> lives (ep_out r) = None"
  shows "\<exists>e c. handleSOCKS sp bound conn = Some (e, c) \<and>
    (case d of
       None \<Rightarrow> e = SocksClosed \<and> written c = written conn @ [5, 0] @ socks_reply 5
     | Some r \<Rightarrow> written c = written conn @ [5, 0] @ socks_reply 0 @ incoming r \<and>
         (\<exists>r'. e = SocksRelayed r' \<and> written r' = written r @ rest))"
proof -
  obtain c where c: "handleSOCKS sp bound conn =
      handleSOCKSDirect dl t a p ((ep_send [0x05, 0x00] conn)\<lparr>ep_in := c\<rparr>)" "concat (arriving c) = rest"
    using handleSOCKS_reacts [OF assms(1), of sp bound] assms(2-4)
    by (auto simp: socks_reacts_def socks_command_def)
  show ?thesis
  proof (cases d)
    case None
    then show ?thesis using assms(1,5) c(1) by (simp add: handleSOCKSDirect_def)
  next
    case (Some r)
    then show ?thesis
      using relay_outcome [of "ep_send (socks_reply 0) ((ep_send [0x05, 0x00] conn)\<lparr>ep_in := c\<rparr>)" r] assms(1,5,6) c
      by (auto simp: handleSOCKSDirect_def)
  qed
qed

text \<open>A request for 10.0.0.1, port 80, with two bytes of data, to a remote that sends one.\<close>

theorem socks_connect_relays_witness:
  "\<exists>r c. handleSOCKS (SetDialer (Some (\<lambda>_ _ _. Some (Some (sample_conn [[9]])))) (NewSOCKSProxy '':1080'')) None
      (sample_conn [[5, 1, 0, 5, 1, 0], [1, 10, 0, 0, 1, 0, 80, 77, 78]]) = Some (SocksRelayed r, c) \<and>
    written c = [5, 0] @ socks_reply 0 @ [9] \<and> written r = [77, 78]"
proof -
  let ?c = "sample_conn [[5, 1, 0, 5, 1, 0], [1, 10, 0, 0, 1, 0, 80, 77, 78]]"
  let ?d = "\<lambda>_ _ _. Some (Some (sample_conn [[9]]))"
  let ?sp = "SetDialer (Some ?d) (NewSOCKSProxy '':1080'')"
  have "socks_parse (incoming ?c) = Request 1 (1, ip_string [10, 0, 0, 1], 80) [77, 78]"
    by (simp add: socks_parse_def socks_parse_methods_def socks_parse_command_def sample_conn_def
      DecodeAddress_def AddrIPv4_def)
  from socks_connect_relays [OF _ this, of ?sp ?d "Some (sample_conn [[9]])" None] show ?thesis
    by (auto simp: SetDialer_def sample_conn_def)
qed

section \<open>The relay of datagrams\<close>

text \<open>What an event makes the relay send when its client is \<open>a\<close>, and the events that do not end it.\<close>

fun served :: "'a \<Rightarrow> 'a socks_event \<Rightarrow> 'a socks_output list" where
  "served a (FromSocket src packet sent) =
     (if src \<noteq> a then []
      else case DecodeSOCKSUDPDatagram packet of Ok ((t, ad, p), d) \<Rightarrow> [ToTunnel t ad p d] | _ \<Rightarrow> [])"
| "served a (FromTunnel d sent) = [ToClient a (EncodeSOCKSUDPDatagram (up_type d) (up_addr d) (up_port d) (up_data d))]"
| "served a _ = []"

fun going :: "'a socks_event \<Rightarrow> bool" where
  "going (FromSocket _ _ sent) = sent"
| "going (FromTunnel _ sent) = sent"
| "going e = (e = ReaderChecks \<or> e = ServerChecks)"

fun from_socket :: "'a socks_event \<Rightarrow> bool" where
  "from_socket (FromSocket _ _ _) = True"
| "from_socket _ = False"

lemma relay_waits:
  "going e \<Longrightarrow> \<not> from_socket e \<Longrightarrow> socks_relay_step e relay_start = ([], relay_start)"
  by (cases e) (auto simp: relay_start_def)

lemma relay_serves:
  "going e \<Longrightarrow> socks_relay_step e (relay_start\<lparr>sr_client := Some a\<rparr>) = (served a e, relay_start\<lparr>sr_client := Some a\<rparr>)"
  by (cases e) (auto simp: relay_start_def split: outcome.splits)

lemma relay_first:
  "socks_relay_step (FromSocket a packet True) relay_start =
     (served a (FromSocket a packet True), relay_start\<lparr>sr_client := Some a\<rparr>)"
  by (auto simp: relay_start_def split: outcome.splits)

lemma relay_serves_all:
  "\<forall>e \<in> set es. going e \<Longrightarrow> socks_relay_run es (relay_start\<lparr>sr_client := Some a\<rparr>) =
     (concat (map (served a) es), relay_start\<lparr>sr_client := Some a\<rparr>)"
  by (induction es) (simp_all add: relay_serves)

text \<open>A UDP association of the SOCKS server belongs to whoever sends to it first: nothing moves before, what
  the tunnel brings until then is dropped, and from then on exactly the well-formed
  datagrams of that sender go into the tunnel, those of everyone else being ignored,
  and everything the tunnel brings goes to that sender, all in the order of the events.\<close>

theorem socks_udp_first_sender:
  assumes "\<forall>e \<in> set pre. going e \<and> \<not> from_socket e" "\<forall>e \<in> set post. going e"
  shows "fst (socks_relay_run (pre @ FromSocket a packet True # post) relay_start) =
    concat (map (served a) (FromSocket a packet True # post))"
  using assms(1)
proof (induction pre)
  case Nil
  show ?case
    using relay_first [of a packet] relay_serves_all [OF assms(2), of a]
    by (simp del: served.simps socks_relay_step.simps)
next
  case (Cons e es)
  then show ?case using relay_waits [of e] by (simp add: case_prod_beta)
qed

theorem socks_udp_first_sender_witness:
  "fst (socks_relay_run
      [FromTunnel \<lparr>up_assoc = 1, up_type = 1, up_addr = ''9.9.9.9'', up_port = 53, up_data = [1]\<rparr> True,
       FromSocket (0 :: nat) [0, 0, 0, 1, 9, 9, 9, 9, 0, 53, 7] True,
       FromSocket 1 [0, 0, 0, 1, 9, 9, 9, 9, 0, 53, 8] True, FromSocket 0 [0, 0, 1] True] relay_start) =
    [ToTunnel 1 (ip_string [9, 9, 9, 9]) 53 [7]]"
  using socks_udp_first_sender [of "[FromTunnel \<lparr>up_assoc = 1, up_type = 1, up_addr = ''9.9.9.9'', up_port = 53, up_data = [1]\<rparr> True]"
      "[FromSocket (1 :: nat) [0, 0, 0, 1, 9, 9, 9, 9, 0, 53, 8] True, FromSocket 0 [0, 0, 1] True]"
      0 "[0, 0, 0, 1, 9, 9, 9, 9, 0, 53, 7]"]
  by (simp add: DecodeSOCKSUDPDatagram_def DecodeAddress_def AddrIPv4_def)

section \<open>The HTTP proxy over the SOCKS server\<close>

lemma read_ignoring_long:
  assumes "n \<le> length (incoming ep)"
  obtains c where "read_ignoring n ep = Some (take n (incoming ep), ep\<lparr>ep_in := c\<rparr>)"
    "concat (arriving c) = drop n (incoming ep)"
  using TrueI
proof (cases rule: net_header.read_full_cases [where s = "ep_in ep" and n = n])
  case (got s')
  then show thesis by (intro that [of s']) (simp_all add: read_ignoring_def ep_read_full_def)
next
  case (short s' e)
  then show thesis using assms by simp
qed

lemma read_ignoring_short:
  assumes "length (incoming ep) < n"
  obtains c where "read_ignoring n ep =
      Some (incoming ep @ replicate (n - length (incoming ep)) 0, ep\<lparr>ep_in := c\<rparr>)" "concat (arriving c) = []"
  using TrueI
proof (cases rule: net_header.read_full_cases [where s = "ep_in ep" and n = n])
  case (got s')
  then show thesis using assms by simp
next
  case (short s' e)
  then show thesis by (intro that [of s']) (simp_all add: read_ignoring_def ep_read_full_def Let_def)
qed

lemma handleConnect_reads:
  assumes "split_host_port (scan_connect request) = Some (h, ps)"
    and "read_ignoring 2 (ep_send [5, 1, 0] remote) = Some (resp, remote1)"
    and "read_ignoring 10 (ep_send (socks_connect_request h (scan_int 443 ps)) remote1) = Some (reply, remote2)"
    and "reply ! 1 = 0" "lives (ep_out client) = None" "lives (ep_out remote2) = None"
  shows "\<exists>c r. handleConnect (Some remote) request client = Some (c, Some r) \<and>
    written c = written client @ status_line ''200 Connection Established'' @ incoming remote2 \<and>
    written r = written remote2 @ incoming client"
  using relay_outcome [of "ep_send (status_line ''200 Connection Established'') client" remote2] assms
  by (auto simp: handleConnect_def)

lemma parse_connect_request:
  assumes "length h \<le> 255"
  shows "socks_parse ([5, 1, 0] @ socks_connect_request h port @ up) = Request 1 (AddrDomain, h, word_of_int port) up"
proof -
  have n: "unat (word_of_nat (length h) :: byte) = length h"
    using assms by (simp add: unat_of_nat take_bit_nat_eq_self)
  have "EncodeAddress AddrDomain h (word_of_int port) = AddrDomain # word_of_nat (length h) # str_bytes h @ be16 (word_of_int port)"
    using assms by (simp add: EncodeAddress_def Let_def)
  moreover have "norm_address AddrDomain h = h" using assms by (simp add: norm_address_def)
  ultimately have "DecodeAddress (AddrDomain # word_of_nat (length h) # str_bytes h @ be16 (word_of_int port) @ up) =
      Ok ((AddrDomain, h, word_of_int port), up)"
    using decode_encode_norm [of AddrDomain h "word_of_int port" up] by (simp add: known_addr_type_def)
  then show ?thesis
    by (simp add: socks_parse_def socks_parse_methods_def socks_parse_command_def socks_connect_request_def AddrDomain_def)
qed

text \<open>The HTTP proxy asks the SOCKS server for what its client asked for: when the host and port of a CONNECT
  request have been read and the SOCKS server reports success, the SOCKS server has been sent exactly
  one well-formed request for that name and port, followed by
  the client's bytes, and the client is answered 200 and then gets exactly the bytes that follow the reply.\<close>

theorem http_connect_through_socks:
  assumes "split_host_port (scan_connect request) = Some (h, ps)" "length h \<le> 255"
    and "incoming remote = [5, 0] @ socks_reply 0 @ down" "written remote = []"
    and "lives (ep_out client) = None" "lives (ep_out remote) = None"
  shows "\<exists>c r. handleConnect (Some remote) request client = Some (c, Some r) \<and>
    written c = written client @ status_line ''200 Connection Established'' @ down \<and>
    socks_parse (written r) = Request 1 (AddrDomain, h, word_of_int (scan_int 443 ps)) (incoming client)"
proof -
  let ?r0 = "ep_send [5, 1, 0] remote" and ?req = "socks_connect_request h (scan_int 443 ps)"
  have i0: "incoming ?r0 = 5 # 0 # socks_reply 0 @ down" using assms(3,6) by simp
  then have "2 \<le> length (incoming ?r0)" by simp
  then obtain c1 where c1: "read_ignoring 2 ?r0 = Some (take 2 (incoming ?r0), ?r0\<lparr>ep_in := c1\<rparr>)"
    "concat (arriving c1) = drop 2 (incoming ?r0)" by (rule read_ignoring_long)
  let ?r1 = "ep_send ?req (?r0\<lparr>ep_in := c1\<rparr>)"
  have i1: "incoming ?r1 = socks_reply 0 @ down" using c1(2) i0 assms(6) by simp
  then have "10 \<le> length (incoming ?r1)" by (simp add: socks_reply_def)
  then obtain c2 where c2: "read_ignoring 10 ?r1 = Some (take 10 (incoming ?r1), ?r1\<lparr>ep_in := c2\<rparr>)"
    "concat (arriving c2) = drop 10 (incoming ?r1)" by (rule read_ignoring_long)
  have "take 10 (incoming ?r1) ! 1 = 0" "concat (arriving c2) = down" "written (?r1\<lparr>ep_in := c2\<rparr>) = [5, 1, 0] @ ?req"
    using i1 c2(2) assms(4,6) by (simp_all add: socks_reply_def)
  with handleConnect_reads [OF assms(1) c1(1) c2(1) _ assms(5)] assms(6)
  obtain c r where cr: "handleConnect (Some remote) request client = Some (c, Some r)"
    "written c = written client @ status_line ''200 Connection Established'' @ down"
    "written r = ([5, 1, 0] @ ?req) @ incoming client" by auto
  moreover have "socks_parse (written r) = Request 1 (AddrDomain, h, word_of_int (scan_int 443 ps)) (incoming client)"
    unfolding cr(3) append_assoc by (rule parse_connect_request [OF assms(2)])
  ultimately show ?thesis by blast
qed

text \<open>example.org, port 443, with the SOCKS server's replies in two pieces.\<close>

theorem http_connect_through_socks_witness:
  "\<exists>c r. handleConnect (Some (sample_conn [[5, 0, 5, 0, 0, 1, 0, 0], [0, 0, 0, 0, 42]])) ''CONNECT example.org:443 HTTP/1.1''
      (sample_conn [[1]]) = Some (c, Some r) \<and>
    socks_parse (written r) = Request 1 (AddrDomain, ''example.org'', 443) [1]"
proof -
  let ?r = "sample_conn [[5, 0, 5, 0, 0, 1, 0, 0], [0, 0, 0, 0, 42]]"
  have "split_host_port (scan_connect ''CONNECT example.org:443 HTTP/1.1'') = Some (''example.org'', ''443'')"
    by code_simp
  moreover have "scan_int 443 ''443'' = 443" by code_simp
  ultimately show ?thesis
    using http_connect_through_socks [of "''CONNECT example.org:443 HTTP/1.1''" "''example.org''" "''443''" ?r "[42]" "sample_conn [[1]]"]
    by (auto simp: sample_conn_def socks_reply_def)
qed

text \<open>The HTTP proxy can report a tunnel that does not exist. It ignores whether the SOCKS server answered
  at all: a server that closes after its method choice, or sends nothing, leaves zeros in the reply buffer, and zero
  is the code for success; so the client is told 200 and its bytes go nowhere.\<close>

theorem http_connect_unanswered:
  assumes "split_host_port (scan_connect request) = Some (h, ps)" "length (incoming remote) \<le> 3"
    and "lives (ep_out client) = None" "lives (ep_out remote) = None"
  shows "\<exists>c r. handleConnect (Some remote) request client = Some (c, Some r) \<and>
    written c = written client @ status_line ''200 Connection Established''"
proof -
  let ?r0 = "ep_send [5, 1, 0] remote" and ?req = "socks_connect_request h (scan_int 443 ps)"
  have i0: "length (incoming ?r0) \<le> 3" using assms(2,4) by simp
  obtain b1 c1 where c1: "read_ignoring 2 ?r0 = Some (b1, ?r0\<lparr>ep_in := c1\<rparr>)" "length (concat (arriving c1)) \<le> 1"
  proof (cases "2 \<le> length (incoming ?r0)")
    case True
    then obtain c where r: "read_ignoring 2 ?r0 = Some (take 2 (incoming ?r0), ?r0\<lparr>ep_in := c\<rparr>)"
      and c: "concat (arriving c) = drop 2 (incoming ?r0)" by (rule read_ignoring_long)
    have "length (concat (arriving c)) \<le> 1" unfolding c using i0 by simp
    then show thesis by (rule that [OF r])
  next
    case False
    then have "length (incoming ?r0) < 2" by simp
    then obtain c where r: "read_ignoring 2 ?r0 = Some (incoming ?r0 @ replicate (2 - length (incoming ?r0)) 0, ?r0\<lparr>ep_in := c\<rparr>)"
      and c: "concat (arriving c) = []" by (rule read_ignoring_short)
    have "length (concat (arriving c)) \<le> 1" unfolding c by simp
    then show thesis by (rule that [OF r])
  qed
  let ?r1 = "ep_send ?req (?r0\<lparr>ep_in := c1\<rparr>)"
  have i1: "length (incoming ?r1) \<le> 1" using c1(2) assms(4) by simp
  then have "length (incoming ?r1) < 10" by simp
  then obtain c2 where c2: "read_ignoring 10 ?r1 =
      Some (incoming ?r1 @ replicate (10 - length (incoming ?r1)) 0, ?r1\<lparr>ep_in := c2\<rparr>)" "concat (arriving c2) = []"
    by (rule read_ignoring_short)
  have "(incoming ?r1 @ replicate (10 - length (incoming ?r1)) 0) ! 1 = 0"
    using i1 by (simp add: nth_append nth_Cons')
  then show ?thesis
    using handleConnect_reads [OF assms(1) c1(1) c2(1) _ assms(3)] assms(4) c2(2) by fastforce
qed

theorem http_connect_unanswered_witness:
  "\<exists>c r. handleConnect (Some (sample_conn [])) ''CONNECT example.org:443 HTTP/1.1'' (sample_conn []) = Some (c, Some r) \<and>
    written c = status_line ''200 Connection Established''"
proof -
  have "split_host_port (scan_connect ''CONNECT example.org:443 HTTP/1.1'') = Some (''example.org'', ''443'')"
    by code_simp
  then show ?thesis
    using http_connect_unanswered [of "''CONNECT example.org:443 HTTP/1.1''" "''example.org''" "''443''" "sample_conn []" "sample_conn []"]
    by (simp add: sample_conn_def)
qed

end
