(* ===== verification/Hub.thy ===== *)
theory Hub
  imports FrameIO
begin

text \<open>
  \<^verbatim>\<open>core/transport/udp_assoc.go\<close> and the part of \<^verbatim>\<open>client.go\<close> it shares: the client's UDP
  associations, their channels and the channel of all other frames, and the loop that
  distributes the frames of the tunnel to them. A channel is a number; the table of associations and the current
  frame channel change under the client's mutex, while the closing of a channel that has been taken out of them happens
  afterwards and is a step of its own.
\<close>

section \<open>State\<close>

record hub =
  hb_loop :: bool
  hb_inbox :: nat
  hb_handlers :: "u16 \<rightharpoonup> nat"
  hb_next :: u16
  hb_fresh :: nat
  hb_taken :: "nat list"
  hb_closed :: "nat set"
  hb_frames :: "nat \<Rightarrow> frame list"
  hb_payloads :: "nat \<Rightarrow> udp_payload list"

definition hub_start :: hub where
  "hub_start = \<lparr>hb_loop = False, hb_inbox = 0, hb_handlers = Map.empty, hb_next = 0, hb_fresh = 1,
     hb_taken = [], hb_closed = {}, hb_frames = (\<lambda>_. []), hb_payloads = (\<lambda>_. [])\<rparr>"

text \<open>The capacities of the two kinds of channel.\<close>

definition payload_slots :: nat where "payload_slots = 64"
definition inbox_slots :: nat where "inbox_slots = 128"

section \<open>Operations\<close>

definition next_assoc :: "u16 \<Rightarrow> u16" where
  "next_assoc i = (let n = i + 1 in if n = 0 then n + 1 else n)"

text \<open>\<^verbatim>\<open>OpenUDPAssociation\<close>, once there is a persistent channel: the number and channel of the association,
  and whether the frame loop is to be started.\<close>

definition open_assoc :: "hub \<Rightarrow> (u16 \<times> nat \<times> bool) \<times> hub" where
  "open_assoc h =
     (let assocID = next_assoc (hb_next h); incoming = hb_fresh h in
      ((assocID, incoming, \<not> hb_loop h),
       h\<lparr>hb_next := assocID, hb_fresh := incoming + 1, hb_handlers := (hb_handlers h)(assocID \<mapsto> incoming),
         hb_loop := True\<rparr>))"

text \<open>The part of \<^verbatim>\<open>unregisterUDPAssociation\<close> under the mutex, and of \<^verbatim>\<open>resetTransportState\<close> and
  \<^verbatim>\<open>dropPersistentChannel\<close>, which range over the taken table in the order \<open>chs\<close>.\<close>

definition take_assoc :: "u16 \<Rightarrow> hub \<Rightarrow> hub" where
  "take_assoc assocID h =
     h\<lparr>hb_handlers := (hb_handlers h)(assocID := None),
       hb_taken := (case hb_handlers h assocID of None \<Rightarrow> [] | Some ch \<Rightarrow> [ch]) @ hb_taken h\<rparr>"

definition take_all :: "nat list \<Rightarrow> hub \<Rightarrow> hub" where
  "take_all chs h =
     h\<lparr>hb_loop := False, hb_handlers := Map.empty, hb_inbox := hb_fresh h, hb_fresh := hb_fresh h + 1,
       hb_taken := chs @ hb_inbox h # hb_taken h\<rparr>"

text \<open>\<^verbatim>\<open>close(ch)\<close>, which panics (\<open>None\<close>) on a closed channel.\<close>

definition close_chan :: "nat \<Rightarrow> hub \<Rightarrow> hub option" where
  "close_chan ch h =
     (if ch \<in> hb_closed h then None
      else Some (h\<lparr>hb_closed := insert ch (hb_closed h), hb_taken := remove1 ch (hb_taken h)\<rparr>))"

text \<open>The sends of \<^verbatim>\<open>dispatchUDPFrame\<close> and \<^verbatim>\<open>enqueueFrame\<close> on the channel found before: a closed channel (whose panic
  is recovered from) and a full one drop what is sent.\<close>

definition send_payload :: "nat \<Rightarrow> udp_payload \<Rightarrow> hub \<Rightarrow> hub" where
  "send_payload ch u h =
     (if ch \<in> hb_closed h \<or> payload_slots \<le> length (hb_payloads h ch) then h
      else h\<lparr>hb_payloads := (hb_payloads h)(ch := hb_payloads h ch @ [u])\<rparr>)"

definition send_frame :: "nat \<Rightarrow> frame \<Rightarrow> hub \<Rightarrow> hub" where
  "send_frame ch f h =
     (if ch \<in> hb_closed h \<or> inbox_slots \<le> length (hb_frames h ch) then h
      else h\<lparr>hb_frames := (hb_frames h)(ch := hb_frames h ch @ [f])\<rparr>)"

definition dispatchUDPFrame :: "udp_payload \<Rightarrow> hub \<Rightarrow> hub" where
  "dispatchUDPFrame u h =
     (case hb_handlers h (up_assoc u) of None \<Rightarrow> h | Some ch \<Rightarrow> send_payload ch u h)"

definition enqueueFrame :: "frame \<Rightarrow> hub \<Rightarrow> hub" where
  "enqueueFrame f h = send_frame (hb_inbox h) f h"

text \<open>A receive of a user of an association, and of \<^verbatim>\<open>ReadFrame\<close>.\<close>

definition recv_payload :: "nat \<Rightarrow> hub \<Rightarrow> hub" where
  "recv_payload ch h = h\<lparr>hb_payloads := (hb_payloads h)(ch := tl (hb_payloads h ch))\<rparr>"

definition recv_frame :: "nat \<Rightarrow> hub \<Rightarrow> hub" where
  "recv_frame ch h = h\<lparr>hb_frames := (hb_frames h)(ch := tl (hb_frames h ch))\<rparr>"

text \<open>One round of \<^verbatim>\<open>runFrameLoop\<close>, run alone.\<close>

definition unregister :: "u16 \<Rightarrow> hub \<Rightarrow> hub option" where
  "unregister assocID h =
     (case hb_handlers h assocID of
        None \<Rightarrow> Some (take_assoc assocID h)
      | Some ch \<Rightarrow> close_chan ch (take_assoc assocID h))"

definition frame_round :: "frame \<Rightarrow> hub \<Rightarrow> hub option" where
  "frame_round f h =
     (if frame_type f = FrameUDP then
        (case DecodeUDPFrame (frame_payload f) of Ok u \<Rightarrow> Some (dispatchUDPFrame u h) | _ \<Rightarrow> Some h)
      else if frame_type f = FrameUDPClose then
        (case DecodeUDPCloseFrame (frame_payload f) of Ok assocID \<Rightarrow> unregister assocID h | _ \<Rightarrow> Some h)
      else Some (enqueueFrame f h))"

fun frame_loop :: "frame list \<Rightarrow> hub \<Rightarrow> hub option" where
  "frame_loop [] h = Some h"
| "frame_loop (f # fs) h = Option.bind (frame_round f h) (frame_loop fs)"

text \<open>The frames an association writes: \<^verbatim>\<open>sendUDPFrame\<close> and \<^verbatim>\<open>Close\<close>, on the client's writer.\<close>

definition sendUDPFrame ::
  "(bytes \<Rightarrow> 'w \<Rightarrow> io_error option \<times> 'w) \<Rightarrow> u16 \<Rightarrow> byte \<Rightarrow> string \<Rightarrow> u16 \<Rightarrow> bytes \<Rightarrow> 'w frame_writer \<Rightarrow>
   io_error option \<times> 'w frame_writer" where
  "sendUDPFrame wr assocID addrType addr port data fw =
     (case WriteTypedFrame wr (EncodeUDPFrame assocID addrType addr port data) fw of
        (Some e, fw1) \<Rightarrow> (Some e, fw1)
      | (None, fw1) \<Rightarrow> Flush wr fw1)"

definition send_close ::
  "(bytes \<Rightarrow> 'w \<Rightarrow> io_error option \<times> 'w) \<Rightarrow> u16 \<Rightarrow> 'w frame_writer \<Rightarrow> 'w frame_writer" where
  "send_close wr assocID fw =
     (case WriteTypedFrame wr (EncodeUDPCloseFrame assocID) fw of
        (Some e, fw1) \<Rightarrow> fw1
      | (None, fw1) \<Rightarrow> snd (Flush wr fw1))"

text \<open>Any interleaving of the goroutines.\<close>

inductive hub_step :: "hub \<Rightarrow> hub \<Rightarrow> bool" where
  opens: "hub_step h (snd (open_assoc h))"
| takes: "hub_step h (take_assoc a h)"
| resets: "set chs = ran (hb_handlers h) \<Longrightarrow> distinct chs \<Longrightarrow> hub_step h (take_all chs h)"
| closes: "ch \<in> set (hb_taken h) \<Longrightarrow> close_chan ch h = Some h' \<Longrightarrow> hub_step h h'"
| sends: "hub_step h (send_payload ch u h)"
| queues: "hub_step h (send_frame ch f h)"
| receives: "hub_step h (recv_payload ch h)"
| reads: "hub_step h (recv_frame ch h)"

inductive_cases hub_stepE: "hub_step h h'"

section \<open>Every channel is closed at most once\<close>

definition in_tables :: "hub \<Rightarrow> nat set" where
  "in_tables h = insert (hb_inbox h) (ran (hb_handlers h))"

definition hub_ok :: "hub \<Rightarrow> bool" where
  "hub_ok h \<longleftrightarrow>
     distinct (hb_taken h) \<and> inj_on (hb_handlers h) (dom (hb_handlers h)) \<and>
     hb_inbox h \<notin> ran (hb_handlers h) \<and> set (hb_taken h) \<inter> in_tables h = {} \<and>
     hb_closed h \<inter> (in_tables h \<union> set (hb_taken h)) = {} \<and>
     (\<forall>k \<in> in_tables h \<union> set (hb_taken h) \<union> hb_closed h. k < hb_fresh h)"

lemma send_same [simp]:
  "hub_ok (send_payload ch u h) = hub_ok h" "hub_ok (send_frame ch f h) = hub_ok h"
  "hub_ok (recv_payload ch h) = hub_ok h" "hub_ok (recv_frame ch h) = hub_ok h"
  by (simp_all add: hub_ok_def in_tables_def send_payload_def send_frame_def recv_payload_def recv_frame_def)

lemma inj_upd_fresh:
  "inj_on m (dom m) \<Longrightarrow> k \<notin> ran m \<Longrightarrow> inj_on (m(a \<mapsto> k)) (dom (m(a \<mapsto> k)))"
  by (auto simp: inj_on_def ran_def dom_def split: if_splits)

lemma inj_del: "inj_on m (dom m) \<Longrightarrow> inj_on (m(a := None)) (dom (m(a := None)))"
  by (auto simp: inj_on_def)

lemma ran_del: "inj_on m (dom m) \<Longrightarrow> ran (m(a := None)) = ran m - set_option (m a)"
  by (auto simp: ran_def inj_on_def dom_def split: if_splits)

lemma open_ok: "hub_ok h \<Longrightarrow> hub_ok (snd (open_assoc h))"
proof -
  assume ok: "hub_ok h"
  let ?h = "snd (open_assoc h)" and ?k = "hb_fresh h" and ?m = "hb_handlers h"
  have new: "?k \<notin> in_tables h \<union> set (hb_taken h) \<union> hb_closed h" using ok by (auto simp: hub_ok_def)
  have sub: "in_tables ?h \<subseteq> insert ?k (in_tables h)" by (auto simp: in_tables_def open_assoc_def Let_def ran_def)
  have same: "hb_taken ?h = hb_taken h" "hb_closed ?h = hb_closed h" "hb_fresh ?h = ?k + 1" "hb_inbox ?h = hb_inbox h"
    "hb_handlers ?h = ?m(next_assoc (hb_next h) \<mapsto> ?k)"
    by (simp_all add: open_assoc_def Let_def)
  have "inj_on (hb_handlers ?h) (dom (hb_handlers ?h))"
    unfolding same by (rule inj_upd_fresh) (use ok new in \<open>auto simp: hub_ok_def in_tables_def\<close>)
  moreover have "hb_inbox h \<notin> ran (hb_handlers ?h)"
    using ok new unfolding same by (auto simp: hub_ok_def in_tables_def ran_def split: if_splits)
  moreover have "k < ?k + 1" if "k \<in> in_tables ?h \<union> set (hb_taken h) \<union> hb_closed h" for k
  proof -
    have "\<forall>k \<in> in_tables h \<union> set (hb_taken h) \<union> hb_closed h. k < ?k" using ok by (simp add: hub_ok_def)
    then have "k = ?k \<or> k < ?k" using that sub by blast
    then show ?thesis by auto
  qed
  ultimately show ?thesis using ok sub new unfolding hub_ok_def same by blast
qed

lemma take_ok: "hub_ok h \<Longrightarrow> hub_ok (take_assoc a h)"
proof -
  assume ok: "hub_ok h"
  let ?h = "take_assoc a h" and ?m = "hb_handlers h"
  have inj: "inj_on ?m (dom ?m)" using ok by (simp add: hub_ok_def)
  have "in_tables ?h = insert (hb_inbox h) (ran ?m - set_option (?m a))"
    by (simp add: in_tables_def take_assoc_def ran_del [OF inj])
  then show ?thesis
    using ok inj_del [OF inj, of a] ranI [of ?m a]
    by (cases "?m a") (auto simp: hub_ok_def in_tables_def take_assoc_def ran_del [OF inj])
qed

lemma take_all_ok:
  "hub_ok h \<Longrightarrow> set chs = ran (hb_handlers h) \<Longrightarrow> distinct chs \<Longrightarrow> hub_ok (take_all chs h)"
proof -
  assume a: "hub_ok h" "set chs = ran (hb_handlers h)" "distinct chs"
  have "hb_fresh h \<notin> in_tables h \<union> set (hb_taken h) \<union> hb_closed h" using a(1) by (auto simp: hub_ok_def)
  then show ?thesis using a by (auto simp: hub_ok_def in_tables_def take_all_def less_SucI)
qed

lemma close_ok: "hub_ok h \<Longrightarrow> ch \<in> set (hb_taken h) \<Longrightarrow> close_chan ch h = Some h' \<Longrightarrow> hub_ok h'"
  by (auto simp: hub_ok_def in_tables_def close_chan_def split: if_splits)

lemma hub_step_ok: "hub_step h h' \<Longrightarrow> hub_ok h \<Longrightarrow> hub_ok h'"
  by (erule hub_stepE) (simp_all add: open_ok take_ok take_all_ok close_ok)

lemma hub_run_ok: "hub_step\<^sup>*\<^sup>* hub_start h \<Longrightarrow> hub_ok h"
  by (induction rule: rtranclp_induct) (auto simp: hub_step_ok, simp add: hub_ok_def hub_start_def in_tables_def)

text \<open>C9. No channel of the client is ever closed twice, however associations are opened and closed from both
  ends, the transport is reset and the frame loop runs: a channel taken out of the tables is in none of them any more and has not been
  closed, so its close does not panic; channels in use are open and shared by no two associations.\<close>

theorem channels_closed_once:
  assumes "hub_step\<^sup>*\<^sup>* hub_start h"
  shows "(\<forall>ch \<in> set (hb_taken h). close_chan ch h \<noteq> None \<and> ch \<notin> ran (hb_handlers h) \<and> ch \<noteq> hb_inbox h) \<and>
    distinct (hb_taken h) \<and> inj_on (hb_handlers h) (dom (hb_handlers h)) \<and>
    hb_closed h \<inter> insert (hb_inbox h) (ran (hb_handlers h)) = {}"
  using hub_run_ok [OF assms] by (auto simp: hub_ok_def in_tables_def close_chan_def)

text \<open>An association is opened and closed by its user; its channel is about to be closed.\<close>

theorem channels_closed_once_witness:
  "\<exists>h. hub_step\<^sup>*\<^sup>* hub_start h \<and> hb_taken h = [1] \<and> close_chan 1 h \<noteq> None"
proof -
  let ?h1 = "snd (open_assoc hub_start)"
  let ?h = "take_assoc 1 ?h1"
  have "hub_step hub_start ?h1" "hub_step ?h1 ?h" by (rule hub_step.opens, rule hub_step.takes)
  then have r: "hub_step\<^sup>*\<^sup>* hub_start ?h" by (meson r_into_rtranclp rtranclp.rtrancl_into_rtrancl)
  moreover have "hb_taken ?h = [1]"
    by (simp add: take_assoc_def open_assoc_def next_assoc_def hub_start_def Let_def)
  ultimately show ?thesis using channels_closed_once [OF r] by (intro exI [of _ ?h]) simp
qed

section \<open>Association numbers\<close>

lemma next_assoc_unat: "unat (next_assoc i) = (if unat i = 65535 then 1 else unat i + 1)"
proof -
  have u: "unat (i + 1) = (unat i + 1) mod 65536" by (simp add: unat_word_ariths)
  have b: "unat i < 65536" by (rule order_less_le_trans [OF unsigned_less]) simp
  show ?thesis
  proof (cases "unat i = 65535")
    case True
    then have "unat (i + 1) = 0" using u by simp
    then have "i + 1 = 0" by (simp add: unat_eq_0)
    then show ?thesis using True by (simp add: next_assoc_def Let_def)
  next
    case False
    then have n: "unat (i + 1) = unat i + 1" using u b by simp
    then have "i + 1 \<noteq> 0" by (metis unat_eq_0 add_is_0 one_neq_zero)
    then show ?thesis using False n by (simp add: next_assoc_def Let_def)
  qed
qed

lemma next_assoc_pow:
  "0 < unat i \<Longrightarrow> unat ((next_assoc ^^ k) i) = (unat i - 1 + k) mod 65535 + 1"
proof (induction k)
  case 0
  have "unat i < 65536" by (rule order_less_le_trans [OF unsigned_less]) simp
  with 0 show ?case by simp
next
  case (Suc k)
  define n where "n = (unat i - 1 + k) mod 65535"
  have n: "n < 65535" by (simp add: n_def)
  have "unat ((next_assoc ^^ Suc k) i) = (if n + 1 = 65535 then 1 else n + 1 + 1)"
    using Suc unfolding n_def by (simp add: next_assoc_unat)
  also have "\<dots> = Suc n mod 65535 + 1" using n by (auto simp: mod_Suc)
  also have "\<dots> = (unat i - 1 + Suc k) mod 65535 + 1" by (simp add: n_def mod_Suc_eq)
  finally show ?case .
qed

lemma next_assoc_start: "next_assoc 0 = 1" by (simp add: next_assoc_def)

text \<open>The numbers of the associations a client opens one after the other.\<close>

definition nth_assoc :: "nat \<Rightarrow> u16" where
  "nth_assoc k = (next_assoc ^^ Suc k) 0"

lemma nth_assoc_unat: "unat (nth_assoc k) = k mod 65535 + 1"
proof -
  have "nth_assoc k = (next_assoc ^^ k) 1"
    unfolding nth_assoc_def funpow_Suc_right by (simp add: next_assoc_start)
  then show ?thesis using next_assoc_pow [of 1 k] by simp
qed

text \<open>C30. Association numbers are never 0 and go round after 65535: two associations have the same number
  precisely when the number of associations opened between them is a multiple of 65535. An
  association is therefore not confused with another while fewer than 65535 others are
  opened after it, but the one opened 65535 later takes over its entry even
  if it is still in use.\<close>

theorem association_numbers:
  "nth_assoc j \<noteq> 0 \<and> (nth_assoc j = nth_assoc k \<longleftrightarrow> j mod 65535 = k mod 65535) \<and>
   fst (fst (open_assoc (h\<lparr>hb_next := nth_assoc j\<rparr>))) = nth_assoc (Suc j)"
proof -
  have "nth_assoc j = nth_assoc k \<longleftrightarrow> unat (nth_assoc j) = unat (nth_assoc k)" by (simp add: unsigned_word_eqI word_unat_eq_iff)
  moreover have "unat (nth_assoc j) \<noteq> 0" by (simp add: nth_assoc_unat)
  then have "nth_assoc j \<noteq> 0" by (metis unat_0)
  ultimately show ?thesis by (simp add: nth_assoc_unat open_assoc_def Let_def) (simp add: nth_assoc_def)
qed

section \<open>The frame loop\<close>

text \<open>What the frames bring for association \<open>a\<close>, which of them end it, and those that are for the tunnel.\<close>

fun payloads_for :: "u16 \<Rightarrow> frame list \<Rightarrow> udp_payload list" where
  "payloads_for a [] = []"
| "payloads_for a (f # fs) =
     (if frame_type f = FrameUDP then
        (case DecodeUDPFrame (frame_payload f) of Ok u \<Rightarrow> (if up_assoc u = a then [u] else []) | _ \<Rightarrow> [])
      else []) @ payloads_for a fs"

definition ends_assoc :: "u16 \<Rightarrow> frame \<Rightarrow> bool" where
  "ends_assoc a f \<longleftrightarrow> frame_type f = FrameUDPClose \<and> DecodeUDPCloseFrame (frame_payload f) = Ok a"

definition tunnel_frames :: "frame list \<Rightarrow> frame list" where
  "tunnel_frames fs = filter (\<lambda>f. frame_type f \<noteq> FrameUDP \<and> frame_type f \<noteq> FrameUDPClose) fs"

text \<open>The association \<open>a\<close> has channel \<open>ch\<close>, and neither queue holds more than its capacity.\<close>

definition serving :: "u16 \<Rightarrow> nat \<Rightarrow> nat \<Rightarrow> hub \<Rightarrow> bool" where
  "serving a ch box h \<longleftrightarrow> hub_ok h \<and> hb_handlers h a = Some ch \<and> hb_inbox h = box \<and>
     length (hb_payloads h ch) \<le> payload_slots \<and> length (hb_frames h box) \<le> inbox_slots"

lemma serving_open: "serving a ch box h \<Longrightarrow> ch \<notin> hb_closed h \<and> box \<notin> hb_closed h"
  by (auto simp: serving_def hub_ok_def in_tables_def ran_def)

lemma handlers_apart: "hub_ok h \<Longrightarrow> hb_handlers h a = Some ch \<Longrightarrow> hb_handlers h b = Some ch \<Longrightarrow> a = b"
  by (auto simp: hub_ok_def inj_on_def dom_def)

lemma dispatch_serves:
  assumes "serving a ch box h"
  shows "serving a ch box (dispatchUDPFrame u h) \<and>
    hb_payloads (dispatchUDPFrame u h) ch =
      take payload_slots (hb_payloads h ch @ (if up_assoc u = a then [u] else [])) \<and>
    hb_frames (dispatchUDPFrame u h) = hb_frames h"
proof (cases "hb_handlers h (up_assoc u)")
  case None
  then show ?thesis using assms by (auto simp: dispatchUDPFrame_def serving_def)
next
  case (Some k)
  have "up_assoc u = a \<longleftrightarrow> k = ch" using Some assms handlers_apart by (auto simp: serving_def)
  then show ?thesis
    using Some assms serving_open [OF assms] send_same(1) [of k u h]
    by (auto simp: dispatchUDPFrame_def send_payload_def serving_def)
qed

lemma enqueue_serves:
  assumes "serving a ch box h"
  shows "serving a ch box (enqueueFrame f h) \<and> hb_payloads (enqueueFrame f h) = hb_payloads h \<and>
    hb_frames (enqueueFrame f h) box = take inbox_slots (hb_frames h box @ [f])"
  using assms serving_open [OF assms] send_same(2) [of "hb_inbox h" f h]
  by (auto simp: enqueueFrame_def send_frame_def serving_def)

lemma unregister_serves:
  assumes "serving a ch box h" "b \<noteq> a"
  shows "\<exists>h'. unregister b h = Some h' \<and> serving a ch box h' \<and> hb_payloads h' = hb_payloads h \<and> hb_frames h' = hb_frames h"
proof (cases "hb_handlers h b")
  case None
  then show ?thesis using assms take_ok [of h b] by (auto simp: unregister_def serving_def take_assoc_def)
next
  case (Some k)
  let ?h = "take_assoc b h"
  have ok: "hub_ok ?h" using assms take_ok by (simp add: serving_def)
  have k: "k \<in> set (hb_taken ?h)" using Some by (simp add: take_assoc_def)
  have "k \<notin> hb_closed ?h" using ok k by (auto simp: hub_ok_def)
  then obtain h' where h': "close_chan k ?h = Some h'" by (simp add: close_chan_def)
  then have "hub_ok h'" by (rule close_ok [OF ok k])
  with h' Some assms show ?thesis
    by (auto simp: unregister_def serving_def take_assoc_def close_chan_def split: if_splits)
qed

lemma round_serves:
  assumes "serving a ch box h" "\<not> ends_assoc a f"
  shows "\<exists>h'. frame_round f h = Some h' \<and> serving a ch box h' \<and>
    hb_payloads h' ch = take payload_slots (hb_payloads h ch @ payloads_for a [f]) \<and>
    hb_frames h' box = take inbox_slots (hb_frames h box @ tunnel_frames [f])"
proof -
  consider (udp) "frame_type f = FrameUDP" | (close) "frame_type f = FrameUDPClose" "frame_type f \<noteq> FrameUDP"
    | (other) "frame_type f \<noteq> FrameUDP" "frame_type f \<noteq> FrameUDPClose" by blast
  then show ?thesis
  proof cases
    case udp
    then show ?thesis
      using assms dispatch_serves [OF assms(1)]
      by (auto simp: frame_round_def tunnel_frames_def serving_def split: outcome.split)
  next
    case close
    show ?thesis
    proof (cases "DecodeUDPCloseFrame (frame_payload f)")
      case (Ok b)
      then have "b \<noteq> a" using close assms(2) by (auto simp: ends_assoc_def)
      from unregister_serves [OF assms(1) this] show ?thesis
        using close Ok assms(1) by (auto simp: frame_round_def tunnel_frames_def serving_def)
    qed (use close assms(1) in \<open>auto simp: frame_round_def tunnel_frames_def serving_def\<close>)
  next
    case other
    then show ?thesis
      using enqueue_serves [OF assms(1)] assms(1)
      by (auto simp: frame_round_def tunnel_frames_def serving_def)
  qed
qed

lemma payloads_for_Cons: "payloads_for a (f # fs) = payloads_for a [f] @ payloads_for a fs"
  by simp

lemma tunnel_frames_Cons: "tunnel_frames (f # fs) = tunnel_frames [f] @ tunnel_frames fs"
  by (simp add: tunnel_frames_def)

lemma take_take_append: "take n (take n xs @ ys) = take n (xs @ ys)"
  by (simp add: min_def take_append)

text \<open>C10. The frame loop gives every frame to whom it is for: while association \<open>a\<close> is not ended by the
  server, its channel receives exactly the datagrams of its own frames, in order, up to its capacity of 64
  unread ones, and the channel of \<^verbatim>\<open>ReadFrame\<close> exactly the frames that are not about
  associations, up to 128, whatever the frames of other associations do; the loop does not panic.\<close>

theorem frames_reach_their_owner:
  assumes "serving a ch box h" "\<forall>f \<in> set fs. \<not> ends_assoc a f"
  shows "\<exists>h'. frame_loop fs h = Some h' \<and> serving a ch box h' \<and>
    hb_payloads h' ch = take 64 (hb_payloads h ch @ payloads_for a fs) \<and>
    hb_frames h' box = take 128 (hb_frames h box @ tunnel_frames fs)"
  using assms
proof (induction fs arbitrary: h)
  case Nil
  then show ?case by (simp add: serving_def payload_slots_def inbox_slots_def tunnel_frames_def)
next
  case (Cons f fs)
  obtain h1 where h1: "frame_round f h = Some h1" "serving a ch box h1"
    "hb_payloads h1 ch = take 64 (hb_payloads h ch @ payloads_for a [f])"
    "hb_frames h1 box = take 128 (hb_frames h box @ tunnel_frames [f])"
    using round_serves [OF Cons.prems(1), of f] Cons.prems(2) by (auto simp: payload_slots_def inbox_slots_def)
  obtain h' where h': "frame_loop fs h1 = Some h'" "serving a ch box h'"
    "hb_payloads h' ch = take 64 (hb_payloads h1 ch @ payloads_for a fs)"
    "hb_frames h' box = take 128 (hb_frames h1 box @ tunnel_frames fs)"
    using Cons.IH [OF h1(2)] Cons.prems(2) by auto
  have "hb_payloads h' ch = take 64 (hb_payloads h ch @ payloads_for a (f # fs))"
    unfolding h'(3) h1(3) take_take_append payloads_for_Cons [of a f fs] append_assoc ..
  moreover have "hb_frames h' box = take 128 (hb_frames h box @ tunnel_frames (f # fs))"
    unfolding h'(4) h1(4) take_take_append tunnel_frames_Cons [of f fs] append_assoc ..
  ultimately show ?case using h1(1) h'(1,2) by simp
qed

text \<open>A datagram for the one open association, one for another, and a packet.\<close>

theorem frames_reach_their_owner_witness:
  "\<exists>h'. frame_loop [EncodeUDPFrame 1 AddrIPv4 ''10.0.0.1'' 53 [7], EncodeUDPFrame 2 AddrIPv4 ''10.0.0.1'' 53 [8],
      \<lparr>frame_type = FrameIP, frame_payload = [9]\<rparr>] (snd (open_assoc hub_start)) = Some h' \<and>
    map up_data (hb_payloads h' 1) = [[7]] \<and> hb_frames h' 0 = [\<lparr>frame_type = FrameIP, frame_payload = [9]\<rparr>]"
proof -
  let ?fs = "[EncodeUDPFrame 1 AddrIPv4 ''10.0.0.1'' 53 [7], EncodeUDPFrame 2 AddrIPv4 ''10.0.0.1'' 53 [8],
      \<lparr>frame_type = FrameIP, frame_payload = [9]\<rparr>]"
  let ?h = "snd (open_assoc hub_start)"
  have "hub_ok ?h" by (rule open_ok) (simp add: hub_ok_def hub_start_def in_tables_def)
  then have s: "serving 1 1 0 ?h"
    by (simp add: serving_def open_assoc_def hub_start_def next_assoc_def Let_def)
  have t: "frame_type (EncodeUDPFrame a AddrIPv4 x p d) = FrameUDP" for a x p d by (simp add: EncodeUDPFrame_def)
  have d: "DecodeUDPFrame (frame_payload (EncodeUDPFrame a AddrIPv4 x p d)) =
      Ok \<lparr>up_assoc = a, up_type = AddrIPv4, up_addr = norm_address AddrIPv4 x, up_port = p, up_data = d\<rparr>" for a x p d
    by (rule decode_udp_encode) (simp add: known_addr_type_def)
  have "\<forall>f \<in> set ?fs. \<not> ends_assoc 1 f" by (simp add: ends_assoc_def t frame_type_defs)
  from frames_reach_their_owner [OF s this] show ?thesis
    by (auto simp: t d tunnel_frames_def frame_type_defs open_assoc_def hub_start_def Let_def)
qed

end
