(* ===== verification/Client.thy ===== *)
theory Client
  imports Socks Hub
begin

text \<open>
  \<^verbatim>\<open>core/transport/client.go\<close> and \<^verbatim>\<open>tun_client.go\<close>: the client. It ranks the servers it knows, tries their
  transports in turn, installs the dialer of the one that works in the SOCKS proxy, and keeps a
  persistent channel for packets and UDP associations. The transports beyond TLS and QUIC (REALITY, MIRAGE, MASQUE, Redstone,
  WebRTC, QUIC with a fingerprint) are one parameter here; the theory \<open>Transports\<close> supplies it.
\<close>

section \<open>State\<close>

record client_config =
  cc_ServerAddr :: string
  cc_PSK :: string
  cc_SNI :: string
  cc_Transport :: string
  cc_SecretPath :: string
  cc_SOCKSAddr :: string
  cc_HTTPAddr :: string
  cc_Subscription :: "subscription_config option"
  cc_Fingerprint :: string
  cc_InsecureSkip :: bool
  cc_RealityPublicKey :: string
  cc_RealityShortID :: string
  cc_MiragePath :: string
  cc_MasquePath :: string
  cc_WebRTCPath :: string
  cc_WebRTCSTUN :: "string list"

text \<open>
  \<open>cl_quic\<close> is what opening the next stream of the QUIC connection gives. The persistent channel is a frame writer
  on one half of a connection and a frame reader on the other; \<open>cl_closer\<close> tells whether there is
  something to close. The channels of frames are the \<open>hub\<close>.
\<close>

record client =
  cl_config :: client_config
  cl_proxy :: socks_proxy
  cl_http :: "http_proxy option"
  cl_selector :: "server_selector option"
  cl_quic :: "endpoint option option"
  cl_closer :: bool
  cl_writer :: "conn_out frame_writer option"
  cl_reader :: "conn_in option"
  cl_active :: "server_entry option"
  cl_psk :: string
  cl_hub :: hub
  cl_stopped :: bool
  cl_connected :: bool

definition defaultServerEntry :: "client_config \<Rightarrow> server_entry" where
  "defaultServerEntry c =
     \<lparr>se_address = cc_ServerAddr c, se_psk = cc_PSK c, se_sni = cc_SNI c, se_weight = 0,
      se_transport = cc_Transport c, se_secret_path = cc_SecretPath c, se_fingerprint = cc_Fingerprint c\<rparr>"

definition NewClient :: "client_config \<Rightarrow> client" where
  "NewClient config0 =
     (let config1 = (if cc_SOCKSAddr config0 = '''' then config0\<lparr>cc_SOCKSAddr := ''127.0.0.1:1080''\<rparr> else config0);
          config2 = (if cc_Transport config1 = '''' then config1\<lparr>cc_Transport := ''tls''\<rparr> else config1);
          config = (if cc_SecretPath config2 = '''' then config2\<lparr>cc_SecretPath := ''/api/v2/sync''\<rparr> else config2) in
      \<lparr>cl_config = config, cl_proxy = SetUDPOpener (Some True) (NewSOCKSProxy (cc_SOCKSAddr config)),
       cl_http = (if cc_HTTPAddr config \<noteq> '''' then Some (NewHTTPProxy (cc_HTTPAddr config) (cc_SOCKSAddr config)) else None),
       cl_selector =
         (case cc_Subscription config of
            Some sub \<Rightarrow>
              if sc_servers sub \<noteq> [] then Some (NewServerSelector (sc_servers sub))
              else if cc_ServerAddr config \<noteq> '''' then Some (NewServerSelector [defaultServerEntry config]) else None
          | None \<Rightarrow>
              if cc_ServerAddr config \<noteq> '''' then Some (NewServerSelector [defaultServerEntry config]) else None),
       cl_quic = None, cl_closer = False, cl_writer = None, cl_reader = None, cl_active = None, cl_psk = '''',
       cl_hub = hub_start, cl_stopped = False, cl_connected = False\<rparr>)"

definition setActiveServerLocked :: "server_entry option \<Rightarrow> string \<Rightarrow> client \<Rightarrow> client" where
  "setActiveServerLocked server psk cl =
     (case server of
        None \<Rightarrow> cl\<lparr>cl_active := None, cl_psk := ''''\<rparr>
      | Some s \<Rightarrow> cl\<lparr>cl_active := Some s, cl_psk := psk\<rparr>)"

text \<open>\<open>chs\<close> is the order in which the taken associations are closed; the closes themselves are steps of the
  hub.\<close>

definition resetTransportState :: "nat list \<Rightarrow> client \<Rightarrow> client" where
  "resetTransportState chs cl =
     cl\<lparr>cl_writer := None, cl_reader := None, cl_closer := False, cl_quic := None, cl_active := None,
       cl_psk := '''', cl_hub := take_all chs (cl_hub cl), cl_connected := False\<rparr>"

definition dropPersistentChannel :: "nat list \<Rightarrow> client \<Rightarrow> client" where
  "dropPersistentChannel chs cl =
     cl\<lparr>cl_writer := None, cl_reader := None, cl_closer := False, cl_hub := take_all chs (cl_hub cl)\<rparr>"

definition StopClient :: "nat list \<Rightarrow> client \<Rightarrow> client" where
  "StopClient chs cl =
     (if cl_stopped cl then cl
      else let cl' = resetTransportState chs (cl\<lparr>cl_stopped := True\<rparr>) in
        cl'\<lparr>cl_proxy := StopSOCKS (cl_proxy cl')\<rparr>)"

definition IsConnected :: "client \<Rightarrow> bool" where
  "IsConnected cl = cl_connected cl"

section \<open>Settings of a server\<close>

definition effective_sni :: "client_config \<Rightarrow> server_entry \<Rightarrow> string" where
  "effective_sni c s =
     (if se_sni s \<noteq> '''' then se_sni s else if cc_SNI c \<noteq> '''' then cc_SNI c else host_of (se_address s))"

definition effective_psk :: "client_config \<Rightarrow> server_entry \<Rightarrow> string" where
  "effective_psk c s = (if se_psk s = '''' then cc_PSK c else se_psk s)"

definition effective_path :: "client_config \<Rightarrow> server_entry \<Rightarrow> string" where
  "effective_path c s = (if se_secret_path s = '''' then cc_SecretPath c else se_secret_path s)"

definition effective_fingerprint :: "client_config \<Rightarrow> server_entry \<Rightarrow> string" where
  "effective_fingerprint c s = (if se_fingerprint s = '''' then cc_Fingerprint c else se_fingerprint s)"

section \<open>Connecting\<close>

text \<open>
  What a connection attempt meets outside: the TLS dialers, the text of an error the dial or a library
  reports, the texts of read and write errors, the clock and random bytes, and the QUIC dial, which gives the
  streams for the authentication and for later use. An attempt returns the text of its error, or no error;
  \<open>None\<close> is an attempt that never returns.
\<close>

record client_env =
  ce_tls :: tls_dialers
  ce_text :: string
  ce_io_text :: "io_error \<Rightarrow> string"
  ce_now :: time
  ce_nonce :: "bytes option"
  ce_quic :: "string \<Rightarrow> string \<Rightarrow> (endpoint option \<times> endpoint option) option"

type_synonym attempt = "(string option \<times> client) option"

text \<open>The dialer both TLS modes install in the proxy.\<close>

definition vpn_dialer :: "client_env \<Rightarrow> string \<Rightarrow> string \<Rightarrow> string \<Rightarrow> string \<Rightarrow> string \<Rightarrow> dialer" where
  "vpn_dialer env serverAddr sni psk secretPath fingerprint = (\<lambda>addrType addr port.
     map_option (\<lambda>r. case r of Ok ep \<Rightarrow> Some ep | _ \<Rightarrow> None)
       (DialVPNServer (ce_tls env) (ce_now env) (ce_nonce env) serverAddr sni psk secretPath fingerprint
         addrType addr port))"

definition connectTLS :: "client_env \<Rightarrow> server_entry \<Rightarrow> string \<Rightarrow> client \<Rightarrow> attempt" where
  "connectTLS env server psk cl =
     (let c = cl_config cl; sni = effective_sni c server; path = effective_path c server;
          fingerprint = effective_fingerprint c server in
      case DialTransport (ce_tls env) (se_address server) sni fingerprint of
        None \<Rightarrow> Some (Some (ce_text env), cl)
      | Some probe \<Rightarrow>
          let cl1 = cl\<lparr>cl_proxy := SetDialer (Some (vpn_dialer env (se_address server) sni psk path fingerprint)) (cl_proxy cl)\<rparr>
          in Some (None, (setActiveServerLocked (Some server) psk cl1)\<lparr>cl_connected := True\<rparr>))"

text \<open>The exchange that opens a persistent channel, once connected.\<close>

definition persistent_status :: "client_env \<Rightarrow> endpoint \<Rightarrow> (string, endpoint) outcome option" where
  "persistent_status env ep =
     (case ep_read_full 1 ep of
        None \<Rightarrow> None
      | Some (Ok status, ep') \<Rightarrow>
          Some (if hd status \<noteq> AuthStatusOK
            then Err (''persistent auth denied: status='' @ show_nat (unat (hd status))) else Ok ep')
      | Some (Err e, _) \<Rightarrow> Some (Err (''persistent auth response failed: '' @ ce_io_text env e))
      | Some (Panic, _) \<Rightarrow> Some Panic)"

definition persistent_exchange ::
  "client_env \<Rightarrow> string \<Rightarrow> string \<Rightarrow> string \<Rightarrow> endpoint \<Rightarrow> (string, endpoint) outcome option" where
  "persistent_exchange env sni psk secretPath ep =
     (case GenerateAuthPayload psk (ce_now env) (ce_nonce env) of
        None \<Rightarrow> Some (Err (''auth generation failed: '' @ ce_text env))
      | Some authPayload \<Rightarrow>
          if secretPath \<noteq> '''' then
            (case ep_write (http_auth_request secretPath sni authPayload) ep of
               (Some e, _) \<Rightarrow> Some (Err (''HTTP request write failed: '' @ ce_io_text env e))
             | (None, ep1) \<Rightarrow>
                 (case ep_read 4096 ep1 of
                    (Fail e, _) \<Rightarrow> Some (Err (''HTTP response read failed: '' @ ce_io_text env e))
                  | (Got resp, ep2) \<Rightarrow>
                      if \<not> response_ok resp then Some (Err (''auth failed: '' @ bytes_str (take 50 resp)))
                      else persistent_status env (ep_send [0x00] ep2)))
          else persistent_status env (ep_send (authPayload @ [0x00]) ep))"

definition connectTLSPersistent :: "client_env \<Rightarrow> server_entry \<Rightarrow> string \<Rightarrow> client \<Rightarrow> attempt" where
  "connectTLSPersistent env server psk cl =
     (let c = cl_config cl; sni = effective_sni c server; path = effective_path c server;
          fingerprint = effective_fingerprint c server in
      case DialTransport (ce_tls env) (se_address server) sni fingerprint of
        None \<Rightarrow> Some (Some (''TLS/uTLS dial failed: '' @ ce_text env), cl)
      | Some conn \<Rightarrow>
          (case persistent_exchange env sni psk path conn of
             None \<Rightarrow> None
           | Some (Ok ep) \<Rightarrow>
               let cl1 = (setActiveServerLocked (Some server) psk cl)\<lparr>cl_closer := True,
                     cl_writer := Some (NewFrameWriter (ep_out ep)), cl_reader := Some (ep_in ep), cl_connected := True\<rparr>
               in Some (None, cl1\<lparr>cl_proxy :=
                    SetDialer (Some (vpn_dialer env (se_address server) sni psk path fingerprint)) (cl_proxy cl1)\<rparr>)
           | Some (Err e) \<Rightarrow> Some (Some e, cl)
           | Some Panic \<Rightarrow> None))"

text \<open>The authentication on the first stream of a QUIC connection. Write errors are ignored; the reply is read with
  a fresh pool of buffers.\<close>

definition quic_auth_exchange :: "client_env \<Rightarrow> string \<Rightarrow> endpoint \<Rightarrow> ((string, unit) outcome \<times> endpoint) option" where
  "quic_auth_exchange env psk st =
     (case EncodeAuthFrame psk (ce_now env) (ce_nonce env) of
        None \<Rightarrow> Some (Err (''auth frame creation failed: '' @ ce_text env), st)
      | Some authFrame \<Rightarrow>
          let fw1 = snd (WriteTypedFrame conn_write authFrame (NewFrameWriter (ep_out st)));
              fw2 = snd (Flush conn_write fw1); st1 = st\<lparr>ep_out := fw_w fw2\<rparr> in
          (case ReadTypedFrame conn_read \<lparr>idle = [], fresh = 0\<rparr> (ep_in st1) of
             None \<Rightarrow> None
           | Some (Ok f, _, s) \<Rightarrow>
               Some (if frame_type f \<noteq> FrameAuthResp then Err ''auth response failed''
                  else if frame_payload f = [] \<or> hd (frame_payload f) \<noteq> AuthStatusOK then Err ''auth denied''
                  else Ok (), st1\<lparr>ep_in := s\<rparr>)
           | Some (_, _, s) \<Rightarrow> Some (Err ''auth response failed'', st1\<lparr>ep_in := s\<rparr>)))"

definition connectQUIC :: "client_env \<Rightarrow> server_entry \<Rightarrow> string \<Rightarrow> client \<Rightarrow> attempt" where
  "connectQUIC env server psk cl =
     (let sni = effective_sni (cl_config cl) server in
      case ce_quic env (se_address server) sni of
        None \<Rightarrow> Some (Some (''QUIC dial failed: '' @ ce_text env), cl)
      | Some (None, _) \<Rightarrow> Some (Some (''QUIC stream open failed: '' @ ce_text env), cl)
      | Some (Some st, later) \<Rightarrow>
          (case quic_auth_exchange env psk st of
             None \<Rightarrow> None
           | Some (Ok (), _) \<Rightarrow>
               let cl1 = (setActiveServerLocked (Some server) psk cl)\<lparr>cl_quic := Some later, cl_connected := True\<rparr>
               in Some (None, cl1\<lparr>cl_proxy := SetQUIC (Some later) (cl_proxy cl1)\<rparr>)
           | Some (Err e, _) \<Rightarrow> Some (Some e, cl)
           | Some (Panic, _) \<Rightarrow> None))"

text \<open>\<open>other\<close> are the further transports, by name; QUIC with a fingerprint is called \<open>uquic\<close> there.\<close>

definition connect ::
  "(string \<Rightarrow> server_entry \<Rightarrow> string \<Rightarrow> client \<Rightarrow> attempt) \<Rightarrow> client_env \<Rightarrow> server_entry \<Rightarrow> client \<Rightarrow> attempt" where
  "connect other env server cl =
     (let c = cl_config cl;
          transport = (if se_transport server = '''' then cc_Transport c else se_transport server);
          psk = effective_psk c server in
      if transport \<in> {''reality'', ''mirage'', ''masque'', ''redstone'', ''webrtc''}
      then other transport server psk cl
      else if transport = ''quic'' then
        (if effective_fingerprint c server \<noteq> '''' then other ''uquic'' server psk cl
         else connectQUIC env server psk cl)
      else connectTLS env server psk cl)"

definition EnsurePersistentChannel :: "client_env \<Rightarrow> client \<Rightarrow> attempt" where
  "EnsurePersistentChannel env cl =
     (if cl_writer cl \<noteq> None \<and> cl_reader cl \<noteq> None then Some (None, cl)
      else (case cl_quic cl of
          None \<Rightarrow>
            (case cl_active cl of
               None \<Rightarrow> Some (Some ''persistent channel unavailable'', cl)
             | Some server \<Rightarrow>
                 if cl_psk cl = '''' then Some (Some ''persistent channel unavailable'', cl)
                 else connectTLSPersistent env server (cl_psk cl) cl)
        | Some None \<Rightarrow> Some (Some (''persistent QUIC stream open failed: '' @ ce_text env), cl)
        | Some (Some st) \<Rightarrow>
            (case ep_write [0x00] st of
               (Some e, _) \<Rightarrow> Some (Some (''persistent QUIC stream init failed: '' @ ce_io_text env e), cl)
             | (None, st1) \<Rightarrow>
                 (case ep_read_full 1 st1 of
                    None \<Rightarrow> None
                  | Some (Ok status, st2) \<Rightarrow>
                      if hd status \<noteq> AuthStatusOK
                      then Some (Some (''persistent QUIC stream denied: status='' @ show_nat (unat (hd status))), cl)
                      else Some (None, cl\<lparr>cl_closer := True, cl_writer := Some (NewFrameWriter (ep_out st2)),
                        cl_reader := Some (ep_in st2)\<rparr>)
                  | Some (Err e, _) \<Rightarrow> Some (Some (''persistent QUIC stream ack failed: '' @ ce_io_text env e), cl)
                  | Some (Panic, _) \<Rightarrow> None))))"

definition connectCandidate ::
  "(string \<Rightarrow> server_entry \<Rightarrow> string \<Rightarrow> client \<Rightarrow> attempt) \<Rightarrow> client_env \<Rightarrow> (client \<Rightarrow> nat list) \<Rightarrow> bool \<Rightarrow>
   server_entry \<Rightarrow> client \<Rightarrow> attempt" where
  "connectCandidate other env order persistent server cl =
     (if persistent then
        let psk = effective_psk (cl_config cl) server in
        if normalizeTransportPreference (se_transport server) = ''quic'' then
          (case connectQUIC env server psk cl of
             None \<Rightarrow> None
           | Some (Some e, cl1) \<Rightarrow> Some (Some e, cl1)
           | Some (None, cl1) \<Rightarrow>
               (case EnsurePersistentChannel env cl1 of
                  None \<Rightarrow> None
                | Some (Some e, cl2) \<Rightarrow> Some (Some e, resetTransportState (order cl2) cl2)
                | Some (None, cl2) \<Rightarrow> Some (None, cl2)))
        else connectTLSPersistent env server psk cl
      else connect other env server cl)"

section \<open>Trying the candidates\<close>

definition terminal_markers :: "string list" where
  "terminal_markers = [''auth denied'', ''authentication denied'', ''persistent auth denied'',
     ''tunnel auth denied'', ''tun auth denied'', ''invalid psk'']"

definition shouldRetryOtherTransports :: "string \<Rightarrow> bool" where
  "shouldRetryOtherTransports err = (\<not> list_ex (contains_sub (to_lower err)) terminal_markers)"

definition transportLogLabel :: "string \<Rightarrow> string" where
  "transportLogLabel transport = (if normalizeTransportPreference transport = ''quic'' then ''quic'' else ''tls'')"

text \<open>The two readings of the clock by the selector.\<close>

definition resolveAttemptGroups :: "time \<times> time \<Rightarrow> client \<Rightarrow> attempt_group list" where
  "resolveAttemptGroups clock cl =
     (let base = defaultServerEntry (cl_config cl);
          fallback = [\<lparr>ag_base = base, ag_variants = buildTransportVariants base (cc_Transport (cl_config cl))\<rparr>] in
      case cl_selector cl of
        None \<Rightarrow> fallback
      | Some ss \<Rightarrow>
          let groups = RankServerGroups (cc_Transport (cl_config cl)) (fst clock) (snd clock) ss in
          if groups \<noteq> [] then groups else fallback)"

definition resolveServer :: "time \<times> time \<Rightarrow> client \<Rightarrow> server_entry option" where
  "resolveServer clock cl =
     (case resolveAttemptGroups clock cl of
        [] \<Rightarrow> None
      | g # _ \<Rightarrow> Some (case ag_variants g of v # _ \<Rightarrow> v | [] \<Rightarrow> ag_base g))"

text \<open>
  The two nested loops. \<open>meter\<close> gives the duration and the time \<open>ReportDialResult\<close> sees for the k-th attempt. A
  group ends with the end of everything (connected, or the client was stopped: no error), or with the
  last error.
\<close>

datatype tried = AllDone | LastError "string option"

definition report_result :: "int \<times> time \<Rightarrow> server_entry \<Rightarrow> string option \<Rightarrow> client \<Rightarrow> client" where
  "report_result m candidate err cl =
     cl\<lparr>cl_selector := map_option (ReportDialResult candidate (fst m) (err \<noteq> None) (snd m)) (cl_selector cl)\<rparr>"

fun try_variants ::
  "(server_entry \<Rightarrow> client \<Rightarrow> attempt) \<Rightarrow> (client \<Rightarrow> nat list) \<Rightarrow> (nat \<Rightarrow> int \<times> time) \<Rightarrow> nat \<Rightarrow>
   server_entry list \<Rightarrow> string option \<Rightarrow> client \<Rightarrow> (tried \<times> nat \<times> client) option" where
  "try_variants attempt order meter k [] lastErr cl = Some (LastError lastErr, k, cl)"
| "try_variants attempt order meter k (v # vs) lastErr cl =
     (if cl_stopped cl then Some (AllDone, k, cl)
      else (case attempt v (resetTransportState (order cl) cl) of
          None \<Rightarrow> None
        | Some (err, cl1) \<Rightarrow>
            let cl2 = report_result (meter k) v err cl1 in
            (case err of
               None \<Rightarrow> Some (AllDone, Suc k, cl2)
             | Some e \<Rightarrow>
                 if \<not> shouldRetryOtherTransports e then Some (LastError (Some e), Suc k, cl2)
                 else try_variants attempt order meter (Suc k) vs (Some e) cl2)))"

fun try_groups ::
  "(server_entry \<Rightarrow> client \<Rightarrow> attempt) \<Rightarrow> (client \<Rightarrow> nat list) \<Rightarrow> (nat \<Rightarrow> int \<times> time) \<Rightarrow> nat \<Rightarrow>
   attempt_group list \<Rightarrow> string option \<Rightarrow> client \<Rightarrow> (tried \<times> nat \<times> client) option" where
  "try_groups attempt order meter k [] lastErr cl = Some (LastError lastErr, k, cl)"
| "try_groups attempt order meter k (g # gs) lastErr cl =
     (case try_variants attempt order meter k (ag_variants g) lastErr cl of
        None \<Rightarrow> None
      | Some (AllDone, k', cl') \<Rightarrow> Some (AllDone, k', cl')
      | Some (LastError e, k', cl') \<Rightarrow> try_groups attempt order meter k' gs e cl')"

definition tryConnectCandidates ::
  "(server_entry \<Rightarrow> client \<Rightarrow> attempt) \<Rightarrow> (client \<Rightarrow> nat list) \<Rightarrow> (nat \<Rightarrow> int \<times> time) \<Rightarrow> time \<times> time \<Rightarrow>
   client \<Rightarrow> attempt" where
  "tryConnectCandidates attempt order meter clock cl =
     (let groups = resolveAttemptGroups clock cl in
      if groups = [] then Some (Some ''no servers available'', cl)
      else map_option (\<lambda>(r, _, cl').
         (case r of AllDone \<Rightarrow> None
          | LastError None \<Rightarrow> Some ''all connection attempts failed''
          | LastError (Some e) \<Rightarrow> Some e, cl'))
         (try_groups attempt order meter 0 groups None cl))"

text \<open>
  \<^verbatim>\<open>connectLoop\<close>, for at most \<open>n\<close> rounds: the pauses between them, in nanoseconds, and whether it is over. After a
  success it waits for the client to be stopped, and returns.
\<close>

definition first_pause :: int where "first_pause = 500000000"
definition longest_pause :: int where "longest_pause = 30000000000"

fun connectLoop :: "(client \<Rightarrow> attempt) \<Rightarrow> (client \<Rightarrow> nat list) \<Rightarrow> nat \<Rightarrow> int \<Rightarrow> client \<Rightarrow> int list \<times> bool \<times> client" where
  "connectLoop try order 0 backoff cl = ([], False, cl)"
| "connectLoop try order (Suc n) backoff cl =
     (case try cl of
        None \<Rightarrow> ([], False, cl)
      | Some (None, cl1) \<Rightarrow> ([], True, cl1)
      | Some (Some e, cl1) \<Rightarrow>
          let cl2 = resetTransportState (order cl1) cl1 in
          if cl_stopped cl2 then ([], True, cl2)
          else (case connectLoop try order n (min longest_pause (backoff * 2)) cl2 of
              (pauses, stopped, cl3) \<Rightarrow> (backoff # pauses, stopped, cl3)))"

section \<open>Subscriptions\<close>

text \<open>The interval of \<^verbatim>\<open>subscriptionUpdateLoop\<close>, and one update; \<open>fetch\<close> gives the status and, if it can be read,
  the body.\<close>

definition update_interval :: "int \<Rightarrow> int" where
  "update_interval secs = (if secs * second_ns < 60 * second_ns then 3600 * second_ns else secs * second_ns)"

definition updateSubscription ::
  "(string \<Rightarrow> (nat \<times> bytes option) option) \<Rightarrow> (bytes \<Rightarrow> subscription_config option) \<Rightarrow> client \<Rightarrow> client" where
  "updateSubscription fetch unmarshal cl =
     (case cc_Subscription (cl_config cl) of
        None \<Rightarrow> cl
      | Some sub \<Rightarrow>
          if sc_update_url sub = '''' then cl
          else (case fetch (sc_update_url sub) of
              Some (status, Some body) \<Rightarrow>
                if status \<noteq> 200 then cl
                else
                  (case (case DecodeSubscriptionURL unmarshal (bytes_str body) of
                           Ok new \<Rightarrow> Some new | _ \<Rightarrow> unmarshal body) of
                     None \<Rightarrow> cl
                   | Some new \<Rightarrow>
                       if sc_servers new = [] then cl
                       else cl\<lparr>cl_config := (cl_config cl)\<lparr>cc_Subscription := Some new\<rparr>,
                         cl_selector := Some (case cl_selector cl of
                           Some ss \<Rightarrow> UpdateServers (sc_servers new) ss
                         | None \<Rightarrow> NewServerSelector (sc_servers new))\<rparr>)
            | _ \<Rightarrow> cl))"

section \<open>Packets\<close>

text \<open>\<^verbatim>\<open>WriteIPFrame\<close>: the error's text, or none.\<close>

definition WriteIPFrame :: "client_env \<Rightarrow> bytes \<Rightarrow> client \<Rightarrow> attempt" where
  "WriteIPFrame env data cl =
     (case EnsurePersistentChannel env cl of
        None \<Rightarrow> None
      | Some (err, cl1) \<Rightarrow>
          (case cl_writer cl1 of
             None \<Rightarrow> Some (Some (case err of Some e \<Rightarrow> e | None \<Rightarrow> ''not connected''), cl1)
           | Some w \<Rightarrow>
               (case WriteTypedFrame conn_write \<lparr>frame_type = FrameIP, frame_payload = data\<rparr> w of
                  (e, w') \<Rightarrow> Some (map_option (ce_io_text env) e, cl1\<lparr>cl_writer := Some w'\<rparr>))))"

text \<open>\<^verbatim>\<open>ReadFrame\<close>: while the frame loop runs it receives from the loop's channel (waiting, \<open>None\<close>, when that is empty and
  open); otherwise it reads the connection itself.\<close>

definition ReadFrame_client :: "client_env \<Rightarrow> pool \<Rightarrow> client \<Rightarrow> ((string, frame) outcome \<times> client) option" where
  "ReadFrame_client env p cl =
     (if hb_loop (cl_hub cl) then
        (let box = hb_inbox (cl_hub cl) in
         case hb_frames (cl_hub cl) box of
           f # _ \<Rightarrow> Some (Ok f, cl\<lparr>cl_hub := recv_frame box (cl_hub cl)\<rparr>)
         | [] \<Rightarrow> if box \<in> hb_closed (cl_hub cl) then Some (Err ''not connected'', cl) else None)
      else
        (case (if cl_reader cl \<noteq> None then Some (None, cl) else EnsurePersistentChannel env cl) of
           None \<Rightarrow> None
         | Some (err, cl1) \<Rightarrow>
             (case cl_reader cl1 of
                None \<Rightarrow> Some (Err (case err of Some e \<Rightarrow> e | None \<Rightarrow> ''not connected''), cl1)
              | Some s \<Rightarrow>
                  (case ReadTypedFrame conn_read p s of
                     None \<Rightarrow> None
                   | Some (Ok f, _, s') \<Rightarrow> Some (Ok f, cl1\<lparr>cl_reader := Some s'\<rparr>)
                   | Some (_, _, s') \<Rightarrow> Some (Err (ce_text env), cl1\<lparr>cl_reader := Some s'\<rparr>)))))"

section \<open>The TUN client\<close>

record tun_client =
  tc_client :: client
  tc_running :: bool
  tc_stopped :: bool

definition NewTunClient :: "client_config \<Rightarrow> tun_client" where
  "NewTunClient config = \<lparr>tc_client = NewClient config, tc_running = False, tc_stopped = False\<rparr>"

text \<open>The address excluded from the tunnel: the first IPv4 address of the server's name, or else its first address, or the
  name itself when it does not resolve.\<close>

definition tun_server_ip :: "(string \<Rightarrow> ip list) \<Rightarrow> string \<Rightarrow> string" where
  "tun_server_ip lookup serverAddr =
     (let host = host_of serverAddr in
      case lookup host of
        [] \<Rightarrow> host
      | ip0 # ips \<Rightarrow> (case filter (\<lambda>i. to4 i \<noteq> None) (ip0 # ips) of [] \<Rightarrow> ip_string ip0 | i # _ \<Rightarrow> ip_string i))"

text \<open>One packet read from the device (\<open>None\<close> is a read error), with the client's writer; and one frame read from the
  tunnel, with what is written to the device.\<close>

definition tunToVPN :: "bytes option \<Rightarrow> client \<Rightarrow> client" where
  "tunToVPN packet cl =
     (case packet of
        None \<Rightarrow> cl
      | Some data \<Rightarrow>
          if data = [] then cl
          else (case cl_writer cl of
              None \<Rightarrow> cl
            | Some w \<Rightarrow>
                cl\<lparr>cl_writer := Some (snd (WriteTypedFrame conn_write \<lparr>frame_type = FrameIP, frame_payload = data\<rparr> w))\<rparr>))"

definition vpnToTun :: "frame \<Rightarrow> bytes list" where
  "vpnToTun f = (if frame_type f = FrameIP then [frame_payload f] else [])"

definition StopTun :: "nat list \<Rightarrow> tun_client \<Rightarrow> tun_client" where
  "StopTun chs tc = tc\<lparr>tc_running := False, tc_stopped := True, tc_client := StopClient chs (tc_client tc)\<rparr>"

section \<open>The order of the attempts\<close>

text \<open>With the outcomes of the attempts given, the candidates that are tried: in each group up to the first one that
  connects or fails for good, and no further group after one that connects.\<close>

definition retried :: "(server_entry \<Rightarrow> string option) \<Rightarrow> server_entry \<Rightarrow> bool" where
  "retried res v = (case res v of None \<Rightarrow> False | Some e \<Rightarrow> shouldRetryOtherTransports e)"

definition group_tries :: "(server_entry \<Rightarrow> string option) \<Rightarrow> server_entry list \<Rightarrow> server_entry list" where
  "group_tries res vs = takeWhile (retried res) vs @ take 1 (dropWhile (retried res) vs)"

fun all_tries :: "(server_entry \<Rightarrow> string option) \<Rightarrow> attempt_group list \<Rightarrow> server_entry list" where
  "all_tries res [] = []"
| "all_tries res (g # gs) =
     (let t = group_tries res (ag_variants g) in if None \<in> res ` set t then t else t @ all_tries res gs)"

text \<open>The reports the selector gets for the candidates \<open>ts\<close>, the first of them being attempt \<open>k\<close>.\<close>

fun reports :: "(server_entry \<Rightarrow> string option) \<Rightarrow> (nat \<Rightarrow> int \<times> time) \<Rightarrow> nat \<Rightarrow> server_entry list \<Rightarrow> server_selector \<Rightarrow> server_selector" where
  "reports res meter k [] ss = ss"
| "reports res meter k (v # vs) ss =
     reports res meter (Suc k) vs (ReportDialResult v (fst (meter k)) (res v \<noteq> None) (snd (meter k)) ss)"

lemma reports_append: "reports res meter k (xs @ ys) ss = reports res meter (k + length xs) ys (reports res meter k xs ss)"
  by (induction xs arbitrary: k ss) auto

definition last_outcome :: "(server_entry \<Rightarrow> string option) \<Rightarrow> string option \<Rightarrow> server_entry list \<Rightarrow> tried" where
  "last_outcome res e ts =
     (if None \<in> res ` set ts then AllDone else LastError (if ts = [] then e else res (last ts)))"

text \<open>An attempt whose outcome does not depend on the client's state, and that changes neither the selector nor the flag of
  \<^verbatim>\<open>Stop\<close>.\<close>

definition plain_attempt :: "(server_entry \<Rightarrow> client \<Rightarrow> attempt) \<Rightarrow> (server_entry \<Rightarrow> string option) \<Rightarrow> bool" where
  "plain_attempt attempt res \<longleftrightarrow> (\<forall>v cl. \<exists>cl'. attempt v cl = Some (res v, cl') \<and>
     cl_selector cl' = cl_selector cl \<and> cl_stopped cl' = cl_stopped cl)"

lemma reset_selector [simp]:
  "cl_selector (resetTransportState chs cl) = cl_selector cl" "cl_stopped (resetTransportState chs cl) = cl_stopped cl"
  by (simp_all add: resetTransportState_def)

lemma report_selector [simp]:
  "cl_stopped (report_result m v e cl) = cl_stopped cl"
  "cl_selector (report_result m v e cl) = map_option (ReportDialResult v (fst m) (e \<noteq> None) (snd m)) (cl_selector cl)"
  by (simp_all add: report_result_def)

lemma group_tries_simps [simp]:
  "group_tries res [] = []"
  "group_tries res (v # vs) = v # (if retried res v then group_tries res vs else [])"
  by (simp_all add: group_tries_def)

lemma variants_tried:
  assumes "plain_attempt attempt res" "\<not> cl_stopped cl"
  shows "\<exists>cl'. try_variants attempt order meter k vs e cl =
      Some (last_outcome res e (group_tries res vs), k + length (group_tries res vs), cl') \<and>
    \<not> cl_stopped cl' \<and> cl_selector cl' = map_option (reports res meter k (group_tries res vs)) (cl_selector cl)"
  using assms(2)
proof (induction vs arbitrary: k e cl)
  case Nil
  then show ?case by (simp add: last_outcome_def option.map_ident)
next
  case (Cons v vs)
  let ?cl0 = "resetTransportState (order cl) cl"
  obtain cl1 where a: "attempt v ?cl0 = Some (res v, cl1)" "cl_selector cl1 = cl_selector cl" "\<not> cl_stopped cl1"
    using assms(1) Cons.prems by (metis plain_attempt_def reset_selector)
  show ?case
  proof (cases "retried res v")
    case True
    then obtain er where er: "res v = Some er" "shouldRetryOtherTransports er" by (auto simp: retried_def split: option.splits)
    from Cons.IH [of "report_result (meter k) v (res v) cl1" "Suc k" "Some er"] a(3) obtain cl' where
      "try_variants attempt order meter (Suc k) vs (Some er) (report_result (meter k) v (res v) cl1) =
        Some (last_outcome res (Some er) (group_tries res vs), Suc k + length (group_tries res vs), cl')"
      "\<not> cl_stopped cl'"
      "cl_selector cl' = map_option (reports res meter (Suc k) (group_tries res vs))
        (map_option (ReportDialResult v (fst (meter k)) (res v \<noteq> None) (snd (meter k))) (cl_selector cl))"
      by (auto simp: a(2))
    moreover have "last_outcome res (Some er) (group_tries res vs) = last_outcome res e (v # group_tries res vs)"
      using er by (auto simp: last_outcome_def)
    ultimately show ?thesis
      using True er a Cons.prems by (auto simp: option.map_comp comp_def)
  next
    case False
    then show ?thesis
      using a Cons.prems
      by (cases "res v") (auto simp: retried_def last_outcome_def report_result_def option.map_comp comp_def)
  qed
qed

lemma groups_tried:
  assumes "plain_attempt attempt res" "\<not> cl_stopped cl"
  shows "\<exists>cl'. try_groups attempt order meter k gs e cl =
      Some (last_outcome res e (all_tries res gs), k + length (all_tries res gs), cl') \<and>
    cl_selector cl' = map_option (reports res meter k (all_tries res gs)) (cl_selector cl)"
  using assms(2)
proof (induction gs arbitrary: k e cl)
  case Nil
  then show ?case by (simp add: last_outcome_def option.map_ident)
next
  case (Cons g gs)
  let ?t = "group_tries res (ag_variants g)"
  obtain cl1 where v: "try_variants attempt order meter k (ag_variants g) e cl =
      Some (last_outcome res e ?t, k + length ?t, cl1)" "\<not> cl_stopped cl1"
    "cl_selector cl1 = map_option (reports res meter k ?t) (cl_selector cl)"
    using variants_tried [OF assms(1) Cons.prems] by blast
  show ?case
  proof (cases "None \<in> res ` set ?t")
    case True
    then show ?thesis using v by (auto simp: last_outcome_def)
  next
    case False
    let ?e = "if ?t = [] then e else res (last ?t)"
    obtain cl2 where "try_groups attempt order meter (k + length ?t) gs ?e cl1 =
        Some (last_outcome res ?e (all_tries res gs), k + length ?t + length (all_tries res gs), cl2)"
      "cl_selector cl2 = map_option (reports res meter (k + length ?t) (all_tries res gs)) (cl_selector cl1)"
      using Cons.IH [OF v(2)] by blast
    moreover have "last_outcome res ?e (all_tries res gs) = last_outcome res e (?t @ all_tries res gs)"
      using False by (auto simp: last_outcome_def last_append)
    ultimately show ?thesis
      using False v by (auto simp: last_outcome_def reports_append option.map_comp comp_def Let_def)
  qed
qed

lemma resolveAttemptGroups_some: "resolveAttemptGroups clock cl \<noteq> []"
  by (simp add: resolveAttemptGroups_def Let_def split: option.split)


text \<open>TLS times out, QUIC works.\<close>

definition sample_client_config :: client_config where
  "sample_client_config = \<lparr>cc_ServerAddr = ''a:443'', cc_PSK = ''k'', cc_SNI = ''example.org'', cc_Transport = ''auto'',
     cc_SecretPath = '''', cc_SOCKSAddr = '''', cc_HTTPAddr = '''', cc_Subscription = None, cc_Fingerprint = '''',
     cc_InsecureSkip = False, cc_RealityPublicKey = '''', cc_RealityShortID = '''', cc_MiragePath = '''', cc_MasquePath = '''',
     cc_WebRTCPath = '''', cc_WebRTCSTUN = []\<rparr>"

definition sample_outcome :: "server_entry \<Rightarrow> string option" where
  "sample_outcome v = (if se_transport v = ''quic'' then None else Some ''i/o timeout'')"


section \<open>Pauses\<close>

definition pause :: "int \<Rightarrow> nat \<Rightarrow> int" where
  "pause b k = ((\<lambda>c. min longest_pause (c * 2)) ^^ k) b"

lemma pauses_of_failures:
  assumes "\<And>cl. \<not> cl_stopped cl \<Longrightarrow> \<exists>e cl'. try cl = Some (Some e, cl') \<and> \<not> cl_stopped cl'" "\<not> cl_stopped cl"
  shows "\<exists>cl'. connectLoop try order n b cl = (map (pause b) [0..<n], False, cl')"
  using assms(2)
proof (induction n arbitrary: b cl)
  case (Suc n)
  obtain e cl1 where t: "try cl = Some (Some e, cl1)" "\<not> cl_stopped cl1" using assms(1) [OF Suc.prems] by blast
  obtain cl' where "connectLoop try order n (min longest_pause (b * 2)) (resetTransportState (order cl1) cl1) =
      (map (pause (min longest_pause (b * 2))) [0..<n], False, cl')"
    using Suc.IH t(2) by (metis reset_selector(2))
  moreover have "map (pause b) [0..<Suc n] = b # map (pause (min longest_pause (b * 2))) [0..<n]"
  proof -
    have "pause b (Suc k) = pause (min longest_pause (b * 2)) k" for k
      unfolding pause_def funpow_Suc_right by simp
    then show ?thesis by (simp add: upt_conv_Cons map_Suc_upt [symmetric] pause_def del: upt_Suc)
  qed
  ultimately show ?case using t by (simp del: upt_Suc)
qed simp

lemma pause_closed: "pause first_pause k = min longest_pause (first_pause * 2 ^ k)"
proof (induction k)
  case (Suc k)
  have "pause first_pause (Suc k) = min longest_pause (pause first_pause k * 2)" by (simp add: pause_def)
  also have "\<dots> = min longest_pause (first_pause * 2 ^ Suc k)"
    unfolding Suc.IH by (simp add: min_def longest_pause_def first_pause_def)
  finally show ?case .
qed (simp add: pause_def first_pause_def longest_pause_def)

text \<open>While every round fails, the client goes on trying, with pauses that double from half a second and stay at
  thirty seconds.\<close>

theorem reconnection_backoff:
  assumes "\<And>cl. \<not> cl_stopped cl \<Longrightarrow> \<exists>e cl'. try cl = Some (Some e, cl') \<and> \<not> cl_stopped cl'" "\<not> cl_stopped cl"
  shows "\<exists>cl'. connectLoop try order n first_pause cl =
    (map (\<lambda>k. min longest_pause (first_pause * 2 ^ k)) [0..<n], False, cl')"
proof -
  have "pause first_pause = (\<lambda>k. min longest_pause (first_pause * 2 ^ k))" by (rule ext) (rule pause_closed)
  then show ?thesis using pauses_of_failures [OF assms, where order = order and n = n and b = first_pause] by simp
qed

theorem reconnection_backoff_witness:
  "\<exists>cl'. connectLoop (\<lambda>cl. Some (Some ''i/o timeout'', cl)) (\<lambda>_. []) 7 first_pause (NewClient sample_client_config) =
    ([500000000, 1000000000, 2000000000, 4000000000, 8000000000, 16000000000, 30000000000], False, cl')"
proof -
  have "map (\<lambda>k. min longest_pause (first_pause * 2 ^ k)) [0..<7] =
      [500000000, 1000000000, 2000000000, 4000000000, 8000000000, 16000000000, 30000000000]"
    by code_simp
  moreover have "\<not> cl_stopped (NewClient sample_client_config)" by (simp add: NewClient_def Let_def)
  ultimately show ?thesis
    using reconnection_backoff [of "\<lambda>cl. Some (Some ''i/o timeout'', cl)" "NewClient sample_client_config" "\<lambda>_. []" 7] by simp
qed

section \<open>Refusals\<close>

lemma take_str_bytes: "n \<le> length p \<Longrightarrow> take n (str_bytes (p @ r)) = str_bytes (take n p)"
  by (simp add: str_bytes_def take_map)

lemma page_head:
  "take 50 (error_response ''404 Not Found'' date) =
   str_bytes (''HTTP/1.1 404 Not Found'' @ crlf @ ''Content-Type: text/html'' @ crlf @ ''C'')"
proof -
  obtain r where r: "error_response ''404 Not Found'' date =
      str_bytes ((''HTTP/1.1 404 Not Found'' @ crlf @ ''Content-Type: text/html'' @ crlf @ ''Content-Length: '') @ r)"
    by (simp add: error_response_def)
  show ?thesis unfolding r by (subst take_str_bytes) (simp_all add: crlf_def)
qed

text \<open>A client whose credentials are refused over HTTP takes that for a passing failure: the server answers them with its
  page for unknown paths, and the error the client makes of that contains none of the
  markers by which it recognises a refusal; so it goes on to try all other transports and servers
  with the same credentials.\<close>

theorem refused_credentials_retried:
  assumes "GenerateAuthPayload psk (ce_now env) (ce_nonce env) = Some d" "secretPath \<noteq> ''''"
    and "lives (ep_out ep) = None" "arriving (ep_in ep) = error_response ''404 Not Found'' date # later"
  shows "\<exists>e. persistent_exchange env sni psk secretPath ep = Some (Err e) \<and> shouldRetryOtherTransports e"
proof -
  let ?page = "error_response ''404 Not Found'' date"
  let ?head = "''HTTP/1.1 404 Not Found'' @ crlf @ ''Content-Type: text/html'' @ crlf @ ''C''"
  let ?ep = "(ep_out ep)\<lparr>taken := taken (ep_out ep) @ [http_auth_request secretPath sni d]\<rparr>"
  define resp where "resp = take 4096 ?page"
  have t50: "take 50 resp = str_bytes ?head" unfolding resp_def using page_head [of date] by simp
  have "length (take 50 resp) = 50" unfolding t50 by (simp add: crlf_def)
  then have l: "\<not> length resp < 12" by simp
  have "take 3 (drop 9 resp) = take 3 (drop 9 (take 50 resp))" by (simp add: drop_take)
  then have "take 3 (drop 9 resp) = str_bytes (take 3 (drop 9 ?head))" unfolding t50 by (simp add: str_bytes_def)
  then have "\<not> response_ok resp" using l by (simp add: response_ok_def)
  moreover have "ep_write (http_auth_request secretPath sni d) ep = (None, ep\<lparr>ep_out := ?ep\<rparr>)"
    using assms(3) by (simp add: ep_write_def conn_write_def)
  moreover have "\<exists>ep'. ep_read 4096 (ep\<lparr>ep_out := ?ep\<rparr>) = (Got resp, ep')"
    using assms(4) by (simp add: ep_read_def conn_read_def resp_def)
  moreover have "shouldRetryOtherTransports (''auth failed: '' @ ?head)" by code_simp
  ultimately show ?thesis
    using assms(1,2) t50 by (auto simp: persistent_exchange_def)
qed

theorem refused_credentials_retried_witness:
  "\<exists>e. persistent_exchange
      \<lparr>ce_tls = \<lparr>dial_tls = \<lambda>_ _. None, dial_utls = \<lambda>_ _ _. None\<rparr>, ce_text = '''', ce_io_text = (\<lambda>_. ''''), ce_now = 0,
       ce_nonce = Some (replicate 24 0), ce_quic = (\<lambda>_ _. None)\<rparr> ''example.org'' ''k'' ''/api''
      (sample_conn [error_response ''404 Not Found'' ''Thu, 01 Jan 1970 00:00:00 GMT'']) = Some (Err e) \<and>
    shouldRetryOtherTransports e"
proof -
  obtain d where d: "GenerateAuthPayload ''k'' 0 (Some (replicate 24 0)) = Some d" by (simp add: GenerateAuthPayload_def)
  show ?thesis by (rule refused_credentials_retried [where d = d]) (simp_all add: d sample_conn_def)
qed

end
