(* ===== verification/Config.thy ===== *)
theory Config
  imports Server
begin

text \<open>
  \<^verbatim>\<open>cmd/server/config.go\<close>: the configuration file of the server, its defaults, and the configuration of the server it
  stands for. The sections for the REALITY, MIRAGE, MASQUE and WebRTC transports are passed on unchanged by the code;
  they are the \<open>transport_sections\<close> of the theory \<open>Transports\<close>.
\<close>

record tls_section =
  tls_cert :: string
  tls_key :: string

record padding_section =
  ps_enabled :: bool
  ps_min :: int
  ps_max :: int
  ps_normalize :: bool

record stealth_section =
  ts_enabled :: bool
  ts_decoys :: bool
  ts_polymorphism :: bool
  ts_throttling :: bool

record config_file =
  cfg_bind :: string
  cfg_sni :: string
  cfg_transport :: string
  cfg_tls :: tls_section
  cfg_camouflage :: camouflage_config
  cfg_redstone :: redstone_config
  cfg_users :: "user_record list"
  cfg_firewall :: firewall_config
  cfg_padding :: padding_section
  cfg_stealth :: stealth_section

text \<open>\<open>file\<close> is the content of the file, if it can be opened, and \<open>decode\<close> stands for \<^verbatim>\<open>encoding/json\<close> at this
  type.\<close>

definition LoadConfig :: "(bytes \<Rightarrow> config_file option) \<Rightarrow> bytes option \<Rightarrow> config_file option" where
  "LoadConfig decode file =
     Option.bind (Option.bind file decode) (\<lambda>config.
       let cam0 = cfg_camouflage config;
           cam1 = (if SecretPath cam0 = '''' then cam0\<lparr>SecretPath := ''/api/v2/sync''\<rparr> else cam0);
           cam2 = (if IndexFile cam1 = '''' then cam1\<lparr>IndexFile := ''index.html''\<rparr> else cam1);
           cam3 = (if WebRoot cam2 = '''' \<and> TargetURL cam2 = '''' then cam2\<lparr>WebRoot := ''/var/www/html''\<rparr> else cam2)
       in Some (config\<lparr>cfg_camouflage := cam3\<rparr>))"

definition DefaultConfig :: config_file where
  "DefaultConfig =
     \<lparr>cfg_bind = '':443'', cfg_sni = ''cloudflare-dns.com'', cfg_transport = ''tls'',
      cfg_tls = \<lparr>tls_cert = '''', tls_key = ''''\<rparr>,
      cfg_camouflage = \<lparr>cf_Enabled = True, WebRoot = ''/var/www/html'', CertFile = '''', KeyFile = '''',
        SecretPath = ''/api/v2/sync'', IndexFile = ''index.html'', TargetURL = ''''\<rparr>,
      cfg_redstone = \<lparr>rc_enabled = False, rc_motd = '''', rc_version = '''', rc_proto = 0\<rparr>,
      cfg_users = [\<lparr>u_id = ''default'', u_psk = ''change-me-to-a-strong-random-key'', u_max_bandwidth = 0,
        u_ports = [\<lparr>pr_from = 1, pr_to = 65535\<rparr>], u_expires = '''', u_upstream = None, u_pskBytes = [], u_expiresAt = None\<rparr>],
      cfg_firewall = DefaultFirewallConfig,
      cfg_padding = \<lparr>ps_enabled = True, ps_min = 16, ps_max = 256, ps_normalize = True\<rparr>,
      cfg_stealth = \<lparr>ts_enabled = True, ts_decoys = True, ts_polymorphism = True, ts_throttling = True\<rparr>\<rparr>"

definition ToServerConfig :: "config_file \<Rightarrow> server_config" where
  "ToServerConfig c =
     (let p = cfg_padding c; s = cfg_stealth c; cam = cfg_camouflage c; tls = cfg_tls c;
          padding1 = DefaultPaddingConfig\<lparr>pc_Enabled := ps_enabled p\<rparr>;
          padding2 = (if 0 < ps_min p then padding1\<lparr>MinPaddingBytes := ps_min p\<rparr> else padding1);
          padding3 = (if 0 < ps_max p then padding2\<lparr>MaxPaddingBytes := ps_max p\<rparr> else padding2);
          camouflage = (if CertFile cam = '''' \<and> KeyFile cam = '''' \<and> tls_cert tls \<noteq> '''' \<and> tls_key tls \<noteq> ''''
            then cam\<lparr>CertFile := tls_cert tls, KeyFile := tls_key tls\<rparr> else cam) in
      \<lparr>svc_BindAddress = cfg_bind c, svc_SNI = cfg_sni c, svc_Transport = cfg_transport c, svc_Camouflage = camouflage,
       svc_Redstone = cfg_redstone c, svc_Users = cfg_users c, svc_Firewall = cfg_firewall c,
       svc_Padding = padding3\<lparr>NormalizeSize := ps_normalize p\<rparr>,
       svc_Stealth = DefaultStealthConfig\<lparr>st_Enabled := ts_enabled s, DecoyStreams := ts_decoys s,
         ProtocolPolymorphism := ts_polymorphism s, AdaptiveThrottling := ts_throttling s\<rparr>\<rparr>)"

section \<open>What a loaded configuration gives\<close>

text \<open>C31. A configuration that has been loaded serves a site: its server always has a secret path and an index file, and a
  directory or a target to serve; a certificate pair of the camouflage section wins over the one of the TLS
  section, of which otherwise both halves are taken or neither; and values that are not positive leave the default padding.\<close>

theorem loaded_config_serves:
  assumes "LoadConfig decode file = Some c"
  shows "(let cam = svc_Camouflage (ToServerConfig c) in
      SecretPath cam \<noteq> '''' \<and> IndexFile cam \<noteq> '''' \<and> (WebRoot cam \<noteq> '''' \<or> TargetURL cam \<noteq> '''') \<and>
      (CertFile cam, KeyFile cam) \<in>
        {(CertFile (cfg_camouflage c), KeyFile (cfg_camouflage c)), (tls_cert (cfg_tls c), tls_key (cfg_tls c))}) \<and>
    0 < MinPaddingBytes (svc_Padding (ToServerConfig c)) \<and> 0 < MaxPaddingBytes (svc_Padding (ToServerConfig c))"
proof -
  have "SecretPath (cfg_camouflage c) \<noteq> '''' \<and> IndexFile (cfg_camouflage c) \<noteq> '''' \<and>
      (WebRoot (cfg_camouflage c) \<noteq> '''' \<or> TargetURL (cfg_camouflage c) \<noteq> '''')"
    using assms by (auto simp: LoadConfig_def Let_def split: bind_splits if_splits)
  then show ?thesis by (simp add: ToServerConfig_def Let_def DefaultPaddingConfig_def)
qed

theorem loaded_config_serves_witness:
  "LoadConfig (\<lambda>_. Some (DefaultConfig\<lparr>cfg_camouflage := (cfg_camouflage DefaultConfig)\<lparr>SecretPath := ''''\<rparr>\<rparr>)) (Some []) \<noteq> None \<and>
    SecretPath (svc_Camouflage (ToServerConfig (the (LoadConfig
      (\<lambda>_. Some (DefaultConfig\<lparr>cfg_camouflage := (cfg_camouflage DefaultConfig)\<lparr>SecretPath := ''''\<rparr>\<rparr>)) (Some []))))) \<noteq> ''''"
proof -
  let ?dec = "\<lambda>_. Some (DefaultConfig\<lparr>cfg_camouflage := (cfg_camouflage DefaultConfig)\<lparr>SecretPath := ''''\<rparr>\<rparr>)"
  obtain c where "LoadConfig ?dec (Some []) = Some c" by (simp add: LoadConfig_def Let_def)
  with loaded_config_serves [OF this] show ?thesis by (simp add: Let_def)
qed

end
