(* ===== verification/GoAES.thy ===== *)
theory GoAES
  imports GoHash
begin

text \<open>
  The authenticated encryption the REALITY handshake calls in Go's standard library: AES with 256-bit
  keys (\<^verbatim>\<open>crypto/aes\<close>) in Galois counter mode with 96-bit nonces, 128-bit tags and no additional
  data (\<^verbatim>\<open>crypto/cipher\<close>). The locale \<open>sealed_box\<close> states what a caller relies on, opening what was sealed,
  and is interpreted on these definitions; no proof relies on the cipher being hard to break.
\<close>

section \<open>AES-256\<close>

text \<open>The substitution box, and doubling in the field of 256 elements.\<close>

definition aes_sbox :: "bytes" where
  "aes_sbox = [
    99, 124, 119, 123, 242, 107, 111, 197, 48, 1, 103, 43, 254, 215, 171, 118,
    202, 130, 201, 125, 250, 89, 71, 240, 173, 212, 162, 175, 156, 164, 114, 192,
    183, 253, 147, 38, 54, 63, 247, 204, 52, 165, 229, 241, 113, 216, 49, 21,
    4, 199, 35, 195, 24, 150, 5, 154, 7, 18, 128, 226, 235, 39, 178, 117,
    9, 131, 44, 26, 27, 110, 90, 160, 82, 59, 214, 179, 41, 227, 47, 132,
    83, 209, 0, 237, 32, 252, 177, 91, 106, 203, 190, 57, 74, 76, 88, 207,
    208, 239, 170, 251, 67, 77, 51, 133, 69, 249, 2, 127, 80, 60, 159, 168,
    81, 163, 64, 143, 146, 157, 56, 245, 188, 182, 218, 33, 16, 255, 243, 210,
    205, 12, 19, 236, 95, 151, 68, 23, 196, 167, 126, 61, 100, 93, 25, 115,
    96, 129, 79, 220, 34, 42, 144, 136, 70, 238, 184, 20, 222, 94, 11, 219,
    224, 50, 58, 10, 73, 6, 36, 92, 194, 211, 172, 98, 145, 149, 228, 121,
    231, 200, 55, 109, 141, 213, 78, 169, 108, 86, 244, 234, 101, 122, 174, 8,
    186, 120, 37, 46, 28, 166, 180, 198, 232, 221, 116, 31, 75, 189, 139, 138,
    112, 62, 181, 102, 72, 3, 246, 14, 97, 53, 87, 185, 134, 193, 29, 158,
    225, 248, 152, 17, 105, 217, 142, 148, 155, 30, 135, 233, 206, 85, 40, 223,
    140, 161, 137, 13, 191, 230, 66, 104, 65, 153, 45, 15, 176, 84, 187, 22]"

definition sub_byte :: "byte \<Rightarrow> byte" where
  "sub_byte b = aes_sbox ! unat b"

definition xtime :: "byte \<Rightarrow> byte" where
  "xtime b = push_bit 1 b XOR (if bit b 7 then 0x1B else 0)"

text \<open>A block is its sixteen bytes, column after column.\<close>

definition shift_rows :: "bytes \<Rightarrow> bytes" where
  "shift_rows s = map (\<lambda>i. s ! ((i + 4 * (i mod 4)) mod 16)) [0..<16]"

fun mix_columns :: "bytes \<Rightarrow> bytes" where
  "mix_columns (a # b # c # d # s) =
     (let t = a XOR b XOR c XOR d in
      [a XOR t XOR xtime (a XOR b), b XOR t XOR xtime (b XOR c),
       c XOR t XOR xtime (c XOR d), d XOR t XOR xtime (d XOR a)] @ mix_columns s)"
| "mix_columns _ = []"

text \<open>The key schedule: words of four bytes, the next one from the last and the one eight before.\<close>

definition xor_bytes :: "bytes \<Rightarrow> bytes \<Rightarrow> bytes" where
  "xor_bytes = map2 (XOR)"

fun key_words :: "bytes \<Rightarrow> bytes list" where
  "key_words (a # b # c # d # k) = [a, b, c, d] # key_words k"
| "key_words _ = []"

fun expand_key :: "nat \<Rightarrow> byte \<Rightarrow> bytes list \<Rightarrow> bytes list" where
  "expand_key 0 rcon ws = ws"
| "expand_key (Suc n) rcon ws =
     (let i = length ws; t = last ws;
          t' = (if i mod 8 = 0 then xor_bytes (map sub_byte (rotate1 t)) [rcon, 0, 0, 0]
                else if i mod 8 = 4 then map sub_byte t else t)
      in expand_key n (if i mod 8 = 0 then xtime rcon else rcon) (ws @ [xor_bytes (ws ! (i - 8)) t']))"

definition round_key :: "bytes list \<Rightarrow> nat \<Rightarrow> bytes" where
  "round_key ws r = concat (take 4 (drop (4 * r) ws))"

definition add_round_key :: "bytes list \<Rightarrow> nat \<Rightarrow> bytes \<Rightarrow> bytes" where
  "add_round_key ws r s = map (\<lambda>i. s ! i XOR round_key ws r ! i) [0..<16]"

definition aes_round :: "bytes list \<Rightarrow> bytes \<Rightarrow> nat \<Rightarrow> bytes" where
  "aes_round ws s r = add_round_key ws r (mix_columns (shift_rows (map sub_byte s)))"

definition aes256 :: "bytes \<Rightarrow> bytes \<Rightarrow> bytes" where
  "aes256 key blk =
     (let ws = expand_key 52 1 (key_words key);
          s = foldl (aes_round ws) (add_round_key ws 0 blk) [1..<14]
      in add_round_key ws 14 (shift_rows (map sub_byte s)))"

lemma length_aes256 [simp]: "length (aes256 key blk) = 16"
  by (simp add: aes256_def Let_def add_round_key_def)

section \<open>Galois counter mode\<close>

text \<open>Multiplication in the field of \<open>2 ^ 128\<close> elements; the first bit of a block is the constant term.\<close>

fun gf_mult_loop :: "nat \<Rightarrow> 128 word \<Rightarrow> 128 word \<Rightarrow> 128 word \<Rightarrow> 128 word" where
  "gf_mult_loop 0 x v z = z"
| "gf_mult_loop (Suc n) x v z =
     gf_mult_loop n x (drop_bit 1 v XOR (if bit v 0 then push_bit 120 0xE1 else 0))
       (if bit x n then z XOR v else z)"

definition gf_mult :: "128 word \<Rightarrow> 128 word \<Rightarrow> 128 word" where
  "gf_mult x y = gf_mult_loop 128 x y 0"

function ghash :: "128 word \<Rightarrow> 128 word \<Rightarrow> bytes \<Rightarrow> 128 word" where
  "ghash h y bs =
     (if bs = [] then y
      else let blk = take 16 bs in
        ghash h (gf_mult (y XOR be_value (blk @ replicate (16 - length blk) 0)) h) (drop 16 bs))"
  by pat_completeness auto
termination by (relation "measure (\<lambda>(_, _, bs). length bs)") auto

declare ghash.simps [simp del]

text \<open>The key stream for \<open>n\<close> bytes, from the counter block 2 on.\<close>

definition gcm_stream :: "bytes \<Rightarrow> bytes \<Rightarrow> nat \<Rightarrow> bytes" where
  "gcm_stream key nonce n =
     concat (map (\<lambda>i. aes256 key (nonce @ be_bytes 4 (word_of_nat (i + 2) :: u32))) [0..<(n + 15) div 16])"

definition gcm_crypt :: "bytes \<Rightarrow> bytes \<Rightarrow> bytes \<Rightarrow> bytes" where
  "gcm_crypt key nonce bs = xor_bytes bs (gcm_stream key nonce (length bs))"

definition gcm_tag :: "bytes \<Rightarrow> bytes \<Rightarrow> bytes \<Rightarrow> bytes" where
  "gcm_tag key nonce ct =
     (let h = be_value (aes256 key (replicate 16 0));
          s = gf_mult (ghash h 0 ct XOR word_of_nat (8 * length ct)) h
      in xor_bytes (be_bytes 16 s) (aes256 key (nonce @ be_bytes 4 (1 :: u32))))"

definition gcm_seal :: "bytes \<Rightarrow> bytes \<Rightarrow> bytes \<Rightarrow> bytes" where
  "gcm_seal key nonce pt = (let ct = gcm_crypt key nonce pt in ct @ gcm_tag key nonce ct)"

definition gcm_open :: "bytes \<Rightarrow> bytes \<Rightarrow> bytes \<Rightarrow> bytes option" where
  "gcm_open key nonce box =
     (if length box < 16 then None
      else let ct = take (length box - 16) box; tag = drop (length box - 16) box in
        if gcm_tag key nonce ct = tag then Some (gcm_crypt key nonce ct) else None)"

section \<open>What callers rely on\<close>

locale sealed_box =
  fixes seal :: "'k \<Rightarrow> 'n \<Rightarrow> bytes \<Rightarrow> bytes"
    and unseal :: "'k \<Rightarrow> 'n \<Rightarrow> bytes \<Rightarrow> bytes option"
    and overhead :: nat
  assumes unseal_seal: "unseal k n (seal k n pt) = Some pt"
    and unseal_only: "unseal k n box = Some pt \<Longrightarrow> box = seal k n pt"
    and length_seal: "length (seal k n pt) = length pt + overhead"
begin

text \<open>What opens to a message is exactly its box.\<close>

lemma unseal_iff: "unseal k n box = Some pt \<longleftrightarrow> box = seal k n pt"
  using unseal_seal unseal_only by auto

text \<open>Under one key and nonce different messages have different boxes.\<close>

lemma seal_inj: "seal k n a = seal k n b \<longleftrightarrow> a = b"
  by (metis unseal_seal option.inject)

end

lemma length_gcm_stream: "n \<le> length (gcm_stream key nonce n)"
proof -
  have "length (gcm_stream key nonce n) = 16 * ((n + 15) div 16)"
    by (simp add: gcm_stream_def length_concat comp_def sum_list_triv)
  then show ?thesis by linarith
qed

lemma length_gcm_crypt [simp]: "length (gcm_crypt key nonce bs) = length bs"
  using length_gcm_stream [of "length bs" key nonce] by (simp add: gcm_crypt_def xor_bytes_def)

lemma length_gcm_tag [simp]: "length (gcm_tag key nonce ct) = 16"
  by (simp add: gcm_tag_def Let_def xor_bytes_def)

lemma xor_bytes_twice: "length bs \<le> length ks \<Longrightarrow> xor_bytes (xor_bytes bs ks) ks = bs"
  unfolding xor_bytes_def by (rule nth_equalityI) (auto simp: xor.assoc)

lemma gcm_crypt_twice [simp]: "gcm_crypt key nonce (gcm_crypt key nonce bs) = bs"
  using xor_bytes_twice [OF length_gcm_stream] length_gcm_crypt [of key nonce bs]
  by (simp add: gcm_crypt_def)

lemma gcm_open_only: "gcm_open key nonce box = Some pt \<Longrightarrow> box = gcm_seal key nonce pt"
  by (auto simp: gcm_seal_def gcm_open_def Let_def split: if_splits)

interpretation gcm: sealed_box gcm_seal gcm_open 16
proof unfold_locales
  show "gcm_open k n box = Some pt \<Longrightarrow> box = gcm_seal k n pt" for k n box pt
    by (rule gcm_open_only)
qed (simp_all add: gcm_seal_def gcm_open_def Let_def)

end
