(* ===== verification/Reality.thy ===== *)
theory Reality
  imports Dial GoAES
begin

text \<open>
  \<^verbatim>\<open>core/transport/reality.go\<close>: connections that look like TLS to somebody else's site. The client hides,
  in the random and session fields of its TLS hello, a sealed short identifier and the hour under a key
  agreed with the server's public key; the server serves whoever it recognises so and
  forwards everybody else to the real site. The X25519 key agreement and the HKDF package are
  parameters, with the agreement of both sides as the one hypothesis about them; the sealing is AES-GCM.
\<close>

section \<open>Hexadecimal text\<close>

definition hex_encode :: "bytes \<Rightarrow> string" where
  "hex_encode bs = concat (map (\<lambda>b. [digit_char (unat b div 16), digit_char (unat b mod 16)]) bs)"

fun hex_decode :: "string \<Rightarrow> bytes option" where
  "hex_decode [] = Some []"
| "hex_decode [c] = None"
| "hex_decode (a # b # r) =
     (case (hex_digit a, hex_digit b) of
        (Some x, Some y) \<Rightarrow> map_option (Cons (word_of_nat (16 * x + y))) (hex_decode r)
      | _ \<Rightarrow> None)"

section \<open>Keys\<close>

record reality_config =
  rc_Enabled :: bool
  rc_Dest :: string
  rc_ServerName :: string
  rc_PrivateKey :: string
  rc_PublicKey :: string
  rc_ShortID :: string
  rc_ShortIDs :: "string list"

definition reality_short_id_len :: nat where "reality_short_id_len = 8"
definition reality_hkdf_info :: string where "reality_hkdf_info = ''stealthlink-reality-v1|clienthello-auth''"

text \<open>
  \<^verbatim>\<open>crypto/ecdh\<close> with X25519 (the public key of a private one; the shared secret, absent when it is all zeros), and the
  first bytes of the HKDF stream of a secret with an info text and no salt.
\<close>

record reality_crypto =
  x_public :: "bytes \<Rightarrow> bytes"
  x_ecdh :: "bytes \<Rightarrow> bytes \<Rightarrow> bytes option"
  x_hkdf :: "bytes \<Rightarrow> bytes \<Rightarrow> nat \<Rightarrow> bytes"

text \<open>\<open>key\<close> is the private key \<^verbatim>\<open>GenerateKey\<close> drew, if it could.\<close>

definition generate_reality_keypair :: "reality_crypto \<Rightarrow> bytes option \<Rightarrow> (string \<times> string) option" where
  "generate_reality_keypair c key =
     map_option (\<lambda>priv. (b64_raw_encode b64_url priv, b64_raw_encode b64_url (x_public c priv))) key"

definition GenerateRealityKeypair :: "reality_crypto \<Rightarrow> bytes option \<Rightarrow> (string \<times> string) option" where
  "GenerateRealityKeypair = generate_reality_keypair"

datatype reality_error = EmptyKey | KeySize | ShortIdHex | ShortIdLong | DestRequired | CertFailed

text \<open>The decoders in the order in which they are tried.\<close>

definition key_decoders :: "(string \<Rightarrow> bytes option) list" where
  "key_decoders = [b64_raw_decode b64_url, b64_decode b64_std, b64_raw_decode b64_std, b64_decode b64_url, hex_decode]"

fun first_key :: "bytes option list \<Rightarrow> bytes option" where
  "first_key [] = None"
| "first_key (None # rs) = first_key rs"
| "first_key (Some b # rs) = (if length b = 32 then Some b else first_key rs)"

definition decode_key_bytes :: "string \<Rightarrow> (reality_error, bytes) outcome" where
  "decode_key_bytes s0 =
     (let s = trim_space s0 in
      if s = '''' then Err EmptyKey
      else case first_key (map (\<lambda>dec. dec s) key_decoders) of Some b \<Rightarrow> Ok b | None \<Rightarrow> Err KeySize)"

text \<open>A key of 32 bytes is a valid X25519 key, private or public.\<close>

definition parse_x25519_private :: "string \<Rightarrow> (reality_error, bytes) outcome" where
  "parse_x25519_private s = decode_key_bytes s"

definition parse_x25519_public :: "string \<Rightarrow> (reality_error, bytes) outcome" where
  "parse_x25519_public s = decode_key_bytes s"

definition parse_short_id :: "string \<Rightarrow> (reality_error, bytes) outcome" where
  "parse_short_id s0 =
     (let s = trim_space s0 in
      if s = '''' then Ok (replicate reality_short_id_len 0)
      else case hex_decode s of
        None \<Rightarrow> Err ShortIdHex
      | Some b \<Rightarrow>
          if reality_short_id_len < length b then Err ShortIdLong
          else Ok (b @ replicate (reality_short_id_len - length b) 0))"

section \<open>The sealed field\<close>

definition reality_derive :: "reality_crypto \<Rightarrow> bytes \<Rightarrow> bytes \<times> bytes" where
  "reality_derive c shared =
     (let r = x_hkdf c shared (str_bytes reality_hkdf_info) 44 in (take 32 r, take 12 (drop 32 r)))"

text \<open>The hour is an \<^verbatim>\<open>int64\<close>: sealed as 64 bits and read back with its sign.\<close>

definition reality_plain :: "bytes \<Rightarrow> int \<Rightarrow> bytes" where
  "reality_plain sid hour = sid @ be64 (word_of_int hour)"

definition reality_seal :: "reality_crypto \<Rightarrow> bytes \<Rightarrow> bytes \<Rightarrow> int \<Rightarrow> bytes option" where
  "reality_seal c shared sid hour =
     (case reality_derive c shared of (key, nonce) \<Rightarrow>
        let ct = gcm_seal key nonce (reality_plain sid hour) in
        if length ct \<noteq> 32 then None else Some ct)"

definition reality_open :: "reality_crypto \<Rightarrow> bytes \<Rightarrow> bytes \<Rightarrow> (bytes \<times> int) option" where
  "reality_open c shared box =
     (case reality_derive c shared of (key, nonce) \<Rightarrow>
        (case gcm_open key nonce box of
           None \<Rightarrow> None
         | Some pt \<Rightarrow>
             if length pt \<noteq> 16 then None
             else Some (take reality_short_id_len pt, sint (of_be64 (drop reality_short_id_len pt)))))"

section \<open>The client\<close>

definition reality_hello_id :: "string \<Rightarrow> hello_id" where
  "reality_hello_id fingerprint =
     (let f = to_lower (trim_space fingerprint) in
      if f = ''firefox'' then HelloFirefox
      else if f = ''edge'' then HelloEdge
      else if f = ''safari'' then HelloSafari
      else if f = ''ios'' then HelloIOS
      else if f = ''android'' then HelloAndroid
      else if f = ''360'' then Hello360
      else if f = ''qq'' then HelloQQ
      else if f = ''random'' then HelloRandomized
      else HelloChrome)"

definition unix_hour :: "time \<Rightarrow> int" where
  "unix_hour now = (now div 1000000000) sdiv 3600"

text \<open>
  What the dial meets outside: the drawn ephemeral key, the clock, and the TCP connection with the uTLS handshake
  over it, which sends a hello of the given kind for the given name with the given random and session
  identifier; errors are texts.
\<close>

record reality_env =
  rv_crypto :: reality_crypto
  rv_key :: "bytes option"
  rv_now :: time
  rv_text :: string
  rv_tls :: "string \<Rightarrow> string \<Rightarrow> hello_id \<Rightarrow> bytes \<Rightarrow> bytes \<Rightarrow> (string, endpoint) outcome"

text \<open>The random and the session identifier of the hello.\<close>

definition reality_fields :: "reality_env \<Rightarrow> bytes \<Rightarrow> bytes \<Rightarrow> (string, bytes \<times> bytes) outcome" where
  "reality_fields env server_pub sid =
     (case rv_key env of
        None \<Rightarrow> Err (rv_text env)
      | Some eph \<Rightarrow>
          (case x_ecdh (rv_crypto env) eph server_pub of
             None \<Rightarrow> Err (''ecdh failed: '' @ rv_text env)
           | Some shared \<Rightarrow>
               (case reality_seal (rv_crypto env) shared sid (unix_hour (rv_now env)) of
                  None \<Rightarrow> Err (''unexpected sealed length '' @ show_nat (length sid + 24))
                | Some box \<Rightarrow> Ok (box, x_public (rv_crypto env) eph))))"

definition reality_dial ::
  "reality_env \<Rightarrow> string \<Rightarrow> string \<Rightarrow> string \<Rightarrow> bytes \<Rightarrow> bytes \<Rightarrow> (string, endpoint) outcome" where
  "reality_dial env server_addr server_name fingerprint server_pub sid =
     (case reality_fields env server_pub sid of
        Ok (box, epub) \<Rightarrow> rv_tls env server_addr server_name (reality_hello_id fingerprint) box epub
      | Err e \<Rightarrow> Err e
      | Panic \<Rightarrow> Panic)"

definition reality_dial_vpn ::
  "reality_env \<Rightarrow> bytes option \<Rightarrow> string \<Rightarrow> string \<Rightarrow> string \<Rightarrow> string \<Rightarrow> bytes \<Rightarrow> bytes \<Rightarrow>
   byte \<Rightarrow> string \<Rightarrow> u16 \<Rightarrow> (vpn_error, endpoint) outcome option" where
  "reality_dial_vpn env nonce server_addr server_name fingerprint psk server_pub sid addr_type addr port =
     (case reality_dial env server_addr server_name fingerprint server_pub sid of
        Ok conn \<Rightarrow>
          (case GenerateAuthPayload psk (rv_now env) nonce of
             None \<Rightarrow> Some (Err VpnAuthGeneration)
           | Some auth \<Rightarrow>
               (case ep_write (auth @ EncodeAddress addr_type addr port) conn of
                  (Some e, _) \<Rightarrow> Some (Err (VpnAddressWrite e))
                | (None, conn1) \<Rightarrow> read_status conn1))
      | _ \<Rightarrow> Some (Err VpnDialFailed))"

section \<open>The server\<close>

record 'cert reality_dispatcher =
  rd_priv :: bytes
  rd_allowed :: "bytes set"
  rd_dest :: string
  rd_cert :: 'cert

definition hostOnly :: "string \<Rightarrow> string" where
  "hostOnly dest = (case split_host_port dest of Some (host, _) \<Rightarrow> host | None \<Rightarrow> dest)"

text \<open>The identifiers are parsed in order, up to the first that is wrong.\<close>

fun allow_ids :: "string list \<Rightarrow> bytes set \<Rightarrow> (reality_error, bytes set) outcome" where
  "allow_ids [] allowed = Ok allowed"
| "allow_ids (s # ids) allowed =
     (case parse_short_id s of
        Ok sid \<Rightarrow> allow_ids ids (insert sid allowed)
      | Err e \<Rightarrow> Err e
      | Panic \<Rightarrow> Panic)"

text \<open>\<open>clone\<close> is \<^verbatim>\<open>CloneCertFromTarget\<close>.\<close>

definition new_reality_dispatcher ::
  "(string \<Rightarrow> string \<Rightarrow> 'cert option) \<Rightarrow> reality_config \<Rightarrow> (reality_error, 'cert reality_dispatcher) outcome" where
  "new_reality_dispatcher clone cfg =
     (case parse_x25519_private (rc_PrivateKey cfg) of
        Ok priv \<Rightarrow>
          if rc_Dest cfg = '''' then Err DestRequired
          else
            let ids = rc_ShortIDs cfg @ (if rc_ShortID cfg \<noteq> '''' then [rc_ShortID cfg] else []);
                start = (if length ids = 0 then {replicate reality_short_id_len 0} else {}) in
            (case allow_ids ids start of
               Ok allowed \<Rightarrow>
                 let sni = (if rc_ServerName cfg = '''' then hostOnly (rc_Dest cfg) else rc_ServerName cfg) in
                 (case clone (rc_Dest cfg) sni of
                    None \<Rightarrow> Err CertFailed
                  | Some cert \<Rightarrow>
                      Ok \<lparr>rd_priv = priv, rd_allowed = allowed, rd_dest = rc_Dest cfg, rd_cert = cert\<rparr>)
             | Err e \<Rightarrow> Err e
             | Panic \<Rightarrow> Panic)
      | Err e \<Rightarrow> Err e
      | Panic \<Rightarrow> Panic)"

text \<open>Reading on until \<open>lo\<close> bytes are there, at most \<open>hi\<close>, or the connection fails.\<close>

partial_function (option) peek_loop ::
  "(nat \<Rightarrow> 's \<Rightarrow> io_read \<times> 's) \<Rightarrow> nat \<Rightarrow> nat \<Rightarrow> bytes \<Rightarrow> 's \<Rightarrow> (bytes \<times> 's) option" where
  "peek_loop rd lo hi acc s =
     (if \<not> length acc < lo then Some (acc, s)
      else case rd (hi - length acc) s of
        (Fail e, s') \<Rightarrow> Some (acc, s')
      | (Got d, s') \<Rightarrow>
          if hi \<le> length (acc @ d) then Some (acc @ d, s') else peek_loop rd lo hi (acc @ d) s')"

text \<open>The inner \<open>None\<close> is the error of an empty read.\<close>

definition reality_peek ::
  "(nat \<Rightarrow> 's \<Rightarrow> io_read \<times> 's) \<Rightarrow> 's \<Rightarrow> nat \<Rightarrow> nat \<Rightarrow> 's peeking_conn option option" where
  "reality_peek rd conn lo hi =
     map_option (\<lambda>(buf, s). if length buf = 0 then None else Some \<lparr>pk_conn = s, peekBuf = buf, readIdx = 0\<rparr>)
       (peek_loop rd lo hi [] conn)"

definition is_reality_client_hello :: "bytes \<Rightarrow> bool" where
  "is_reality_client_hello peek \<longleftrightarrow>
     76 \<le> length peek \<and> peek ! 0 = 0x16 \<and> peek ! 5 = 0x01 \<and> peek ! 43 = 32"

definition reality_hour_fresh :: "time \<Rightarrow> int \<Rightarrow> bool" where
  "reality_hour_fresh now hour \<longleftrightarrow>
     (let h = unix_hour now in hour = h \<or> hour = h - 1 \<or> hour = h + 1)"

definition reality_match :: "reality_crypto \<Rightarrow> time \<Rightarrow> 'cert reality_dispatcher \<Rightarrow> bytes \<Rightarrow> bool" where
  "reality_match c now d peek =
     (if \<not> is_reality_client_hello peek then False
      else case x_ecdh c (rd_priv d) (take 32 (drop 44 peek)) of
        None \<Rightarrow> False
      | Some shared \<Rightarrow>
          (case reality_open c shared (take 32 (drop 11 peek)) of
             None \<Rightarrow> False
           | Some (sid, hour) \<Rightarrow> sid \<in> rd_allowed d \<and> reality_hour_fresh now hour))"

text \<open>\<^verbatim>\<open>accept\<close>: TLS with the cloned certificate on the peeked connection, or the fallback.\<close>

datatype ('s, 'cert) reality_accepted = RealityTLS 'cert "'s peeking_conn" | RealityFallback "'s peeking_conn"

definition reality_accept ::
  "reality_crypto \<Rightarrow> time \<Rightarrow> 'cert reality_dispatcher \<Rightarrow> 's peeking_conn \<Rightarrow> ('s, 'cert) reality_accepted" where
  "reality_accept c now d pconn =
     (if reality_match c now d (Peek pconn) then RealityTLS (rd_cert d) pconn else RealityFallback pconn)"

text \<open>\<^verbatim>\<open>net.JoinHostPort\<close>, and the address the fallback dials.\<close>

definition join_host_port :: "string \<Rightarrow> string \<Rightarrow> string" where
  "join_host_port host port =
     (if CHR '':'' \<in> set host then ''['' @ host @ '']:'' @ port else host @ '':'' @ port)"

definition fallback_addr :: "string \<Rightarrow> string" where
  "fallback_addr dest = (case split_host_port dest of Some _ \<Rightarrow> dest | None \<Rightarrow> join_host_port dest ''443'')"

text \<open>
  The fallback's two copies. The goroutine's copy closes the site's connection altogether when it ends, the other one
  the client's; a copy whose connection has been closed ends. One turn of a copy reads once and writes
  what it got; \<open>io.Copy\<close> uses 32 KiB.
\<close>

record fallback =
  fb_peer :: "conn_in peeking_conn"
  fb_peer_out :: conn_out
  fb_site :: endpoint
  fb_up :: bool
  fb_down :: bool

definition copy_size :: nat where "copy_size = 32 * 1024"

datatype fallback_turn = PeerTurn | SiteTurn

fun fallback_step :: "fallback_turn \<Rightarrow> fallback \<Rightarrow> fallback" where
  "fallback_step PeerTurn f =
     (if \<not> fb_up f then f
      else if \<not> fb_down f then f\<lparr>fb_up := False\<rparr>
      else case PeekingRead conn_read copy_size (fb_peer f) of
        (Fail e, p) \<Rightarrow> f\<lparr>fb_peer := p, fb_up := False\<rparr>
      | (Got d, p) \<Rightarrow>
          if d = [] then f\<lparr>fb_peer := p\<rparr>
          else (case ep_write d (fb_site f) of
             (None, site) \<Rightarrow> f\<lparr>fb_peer := p, fb_site := site\<rparr>
           | (Some e, site) \<Rightarrow> f\<lparr>fb_peer := p, fb_site := site, fb_up := False\<rparr>))"
| "fallback_step SiteTurn f =
     (if \<not> fb_down f then f
      else if \<not> fb_up f then f\<lparr>fb_down := False\<rparr>
      else case ep_read copy_size (fb_site f) of
        (Fail e, site) \<Rightarrow> f\<lparr>fb_site := site, fb_down := False\<rparr>
      | (Got d, site) \<Rightarrow>
          if d = [] then f\<lparr>fb_site := site\<rparr>
          else (case conn_write d (fb_peer_out f) of
             (None, w) \<Rightarrow> f\<lparr>fb_site := site, fb_peer_out := w\<rparr>
           | (Some e, w) \<Rightarrow> f\<lparr>fb_site := site, fb_peer_out := w, fb_down := False\<rparr>))"

text \<open>\<open>None\<close> is a site that cannot be dialled: the client's connection is closed.\<close>

definition fallback_start :: "endpoint option \<Rightarrow> conn_in peeking_conn \<Rightarrow> conn_out \<Rightarrow> fallback option" where
  "fallback_start up pconn out =
     map_option (\<lambda>site. \<lparr>fb_peer = pconn, fb_peer_out = out, fb_site = site, fb_up = True, fb_down = True\<rparr>) up"

definition fallback_run :: "fallback_turn list \<Rightarrow> fallback \<Rightarrow> fallback" where
  "fallback_run turns f = foldl (\<lambda>f t. fallback_step t f) f turns"

section \<open>Peeking\<close>

text \<open>The peek returns, shows a prefix of the stream of at least \<open>lo\<close> bytes if there are as many, and the connection
  it makes still delivers the whole stream.\<close>

context byte_reader
begin

lemma peek_loop_prefix:
  assumes "valid s" "lo \<le> hi"
  shows "\<exists>buf s'. peek_loop rd lo hi acc s = Some (buf, s') \<and> valid s' \<and> buf @ pending s' = acc @ pending s \<and>
    (lo \<le> length buf \<or> pending s' = []) \<and> fate s' = fate s"
  using assms(1)
proof (induction "weight s" arbitrary: s acc rule: less_induct)
  case less
  show ?case
  proof (cases "length acc < lo")
    case False
    then show ?thesis using less.prems by (subst peek_loop.simps) auto
  next
    case True
    then have k: "0 < hi - length acc" using assms(2) by simp
    obtain r s1 where r: "rd (hi - length acc) s = (r, s1)" by fastforce
    have v: "valid s1" by (rule valid_step [OF less.prems r])
    show ?thesis
    proof (cases r)
      case (Fail e)
      from fail_end [OF less.prems k r [unfolded Fail]] show ?thesis
        using True r Fail v by (subst peek_loop.simps) auto
    next
      case (Got d)
      note g = r [unfolded Got]
      have p: "pending s = d @ pending s1" "fate s1 = fate s"
        using got_pending [OF less.prems g] got_fate [OF less.prems g] by simp_all
      show ?thesis
      proof (cases "hi \<le> length (acc @ d)")
        case h: True
        then show ?thesis using True g p v assms(2) by (subst peek_loop.simps) auto
      next
        case False
        with less.hyps [OF got_progress [OF less.prems k g] v, of "acc @ d"] show ?thesis
          using True g p by (subst peek_loop.simps) auto
      qed
    qed
  qed
qed

lemma reality_peek_prefix:
  assumes "valid s" "lo \<le> hi" "pending s \<noteq> []" "0 < lo"
  shows "\<exists>pc. reality_peek rd s lo hi = Some (Some pc) \<and> valid (pk_conn pc) \<and>
    unpeeked pc = Peek pc \<and> Peek pc @ pending (pk_conn pc) = pending s \<and>
    (lo \<le> length (Peek pc) \<or> pending (pk_conn pc) = []) \<and> fate (pk_conn pc) = fate s"
proof -
  obtain buf s' where b: "peek_loop rd lo hi [] s = Some (buf, s')" "valid s'" "buf @ pending s' = pending s"
    "lo \<le> length buf \<or> pending s' = []" "fate s' = fate s"
    using peek_loop_prefix [OF assms(1,2), of "[]"] by auto
  then have "buf \<noteq> []" using assms(3,4) by auto
  then show ?thesis using b by (simp add: reality_peek_def Peek_def unpeeked_def)
qed

end

section \<open>The text of a key\<close>

lemma hex_decode_length: "hex_decode s = Some b \<Longrightarrow> length s = 2 * length b"
  by (induction s arbitrary: b rule: hex_decode.induct) (auto split: option.splits)

lemma hex_round_trip [simp]: "hex_decode (hex_encode bs) = Some bs"
proof (induction bs)
  case (Cons b bs)
  have "unat b div 16 < 16" using unat_byte_lt [of b] by linarith
  with Cons show ?case by (simp add: hex_encode_def)
qed (simp add: hex_encode_def)

lemma length_hex_encode [simp]: "length (hex_encode bs) = 2 * length bs"
  using hex_decode_length [OF hex_round_trip, of bs] .

lemma digit_char_plain: "d < 16 \<Longrightarrow> \<not> is_space (digit_char d) \<and> digit_char d \<noteq> CHR ''=''"
  by (auto simp: digit_char_def is_space_def of_char_of dest: arg_cong [of _ _ "of_char :: char \<Rightarrow> nat"])

lemma hex_chars:
  assumes "c \<in> set (hex_encode bs)"
  shows "\<not> is_space c \<and> c \<noteq> CHR ''=''"
proof -
  have "unat b div 16 < 16" for b :: byte using unat_byte_lt [of b] by linarith
  then show ?thesis using assms digit_char_plain by (auto simp: hex_encode_def)
qed

lemma b64_undigits_length: "b64_undigits ds = Some bs \<Longrightarrow> length bs = 3 * length ds div 4"
  by (induction ds arbitrary: bs rule: b64_undigits.induct) auto

lemma all_some_length: "all_some xs = Some ys \<Longrightarrow> length ys = length xs"
  by (induction xs arbitrary: ys rule: all_some.induct) auto

lemma all_some_None: "None \<in> set xs \<Longrightarrow> all_some xs = None"
  by (induction xs rule: all_some.induct) auto

lemma no_line_breaks: "\<forall>c \<in> set s. \<not> is_space c \<Longrightarrow> filter (\<lambda>c. c \<notin> {CHR 0x0A, CHR 0x0D}) s = s"
  by (rule filter_True) (auto simp: is_space_def)

lemma b64_raw_decode_length:
  "b64_raw_decode alpha s = Some b \<Longrightarrow> \<forall>c \<in> set s. \<not> is_space c \<Longrightarrow> length b = 3 * length s div 4"
  unfolding b64_raw_decode_def no_line_breaks
  by (auto split: option.splits dest!: all_some_length b64_undigits_length)

lemma b64_decode_length:
  assumes "b64_decode alpha s = Some b" "\<forall>c \<in> set s. \<not> is_space c" "CHR ''='' \<notin> set s"
  shows "length b = 3 * length s div 4"
proof -
  have "takeWhile (\<lambda>c. c = CHR ''='') (rev s) = []"
    using assms(3) by (cases s rule: rev_cases) auto
  then have "b64_raw_decode alpha s = Some b"
    using assms(1) unfolding b64_decode_def no_line_breaks [OF assms(2)] Let_def by (auto split: if_splits)
  then show ?thesis by (rule b64_raw_decode_length [OF _ assms(2)])
qed

text \<open>The alphabets agree on 62 digits and share nothing else.\<close>

lemma alphabets_agree:
  assumes "a \<in> {b64_std, b64_url}" "a' \<in> {b64_std, b64_url}" "d < 64"
  shows "index_of (a ! d) a' \<in> {Some d, None}"
proof -
  have "\<forall>d \<in> set [0..<64]. index_of (b64_std ! d) b64_url \<in> {Some d, None} \<and> index_of (b64_url ! d) b64_std \<in> {Some d, None}"
    by code_simp
  then have "index_of (b64_std ! d) b64_url \<in> {Some d, None}" "index_of (b64_url ! d) b64_std \<in> {Some d, None}"
    using assms(3) by auto
  moreover have "index_of (b64_std ! d) b64_std = Some d" "index_of (b64_url ! d) b64_url = Some d"
    using assms(3) by (simp_all add: index_of_nth)
  ultimately show ?thesis using assms(1,2) by auto
qed

lemma raw_text_chars:
  assumes "a \<in> {b64_std, b64_url}" "c \<in> set (b64_raw_encode a bs)"
  shows "\<not> is_space c \<and> c \<noteq> CHR ''=''"
proof -
  have "\<forall>x \<in> set (map unat bs). x < 256" by auto
  from b64_digits_bound [OF this] have "c \<in> set a" using assms by (auto simp: b64_raw_encode_def)
  moreover have "\<forall>c \<in> set b64_std \<union> set b64_url. \<not> is_space c \<and> c \<noteq> CHR ''=''"
    by (simp add: b64_std_def b64_url_def is_space_def)
  ultimately show ?thesis using assms(1) by blast
qed

lemma other_alphabet:
  assumes "a \<in> {b64_std, b64_url}" "a' \<in> {b64_std, b64_url}"
  shows "b64_raw_decode a' (b64_raw_encode a bs) \<in> {Some bs, None}"
proof -
  let ?ds = "b64_digits (map unat bs)" and ?t = "b64_raw_encode a bs"
  have lt: "\<forall>x \<in> set (map unat bs). x < 256" by auto
  have f: "filter (\<lambda>c. c \<notin> {CHR 0x0A, CHR 0x0D}) ?t = ?t"
    using raw_text_chars [OF assms(1)] by (intro no_line_breaks) blast
  have i: "index_of (a ! d) a' \<in> {Some d, None}" if "d \<in> set ?ds" for d
    using alphabets_agree [OF assms] b64_digits_bound [OF lt] that by blast
  show ?thesis
  proof (cases "\<exists>d \<in> set ?ds. index_of (a ! d) a' = None")
    case True
    then have "None \<in> set (map (\<lambda>c. index_of c a') ?t)" by (force simp: b64_raw_encode_def)
    then show ?thesis unfolding b64_raw_decode_def f by (simp add: all_some_None del: set_map)
  next
    case False
    then have "\<forall>d \<in> set ?ds. index_of (a ! d) a' = Some d" using i by (metis insertE singletonD)
    then have "all_some (map (\<lambda>c. index_of c a') ?t) = Some ?ds"
      by (simp add: b64_raw_encode_def comp_def all_some_map)
    then show ?thesis
      unfolding b64_raw_decode_def f using b64_undigits_digits [OF lt] by (simp add: comp_def map_idI)
  qed
qed

lemma b64_decode_padded:
  assumes "a \<in> {b64_std, b64_url}"
  shows "b64_decode a' (b64_raw_encode a bs @ replicate j CHR ''='') \<in>
    {b64_raw_decode a' (b64_raw_encode a bs), None}"
proof -
  let ?t = "b64_raw_encode a bs"
  have c: "\<forall>c \<in> set (?t @ replicate j CHR ''=''). \<not> is_space c"
    using raw_text_chars [OF assms] by (auto simp: is_space_def)
  have t: "takeWhile (\<lambda>c. c = CHR ''='') (rev (?t @ replicate j CHR ''='')) = replicate j CHR ''=''"
    using takeWhile_replicate [of "CHR ''=''" ?t j] raw_text_chars [OF assms] by auto
  show ?thesis
    unfolding b64_decode_def no_line_breaks [OF c] Let_def t by simp
qed

lemma raw_decode_padded:
  assumes "a \<in> {b64_std, b64_url}" "a' \<in> {b64_std, b64_url}" "0 < j"
  shows "b64_raw_decode a' (b64_raw_encode a bs @ replicate j CHR ''='') = None"
proof -
  let ?t = "b64_raw_encode a bs @ replicate j CHR ''=''"
  have c: "\<forall>c \<in> set ?t. \<not> is_space c"
    using raw_text_chars [OF assms(1)] by (auto simp: is_space_def)
  have "index_of CHR ''='' b64_std = None \<and> index_of CHR ''='' b64_url = None" by code_simp
  then have "None \<in> set (map (\<lambda>c. index_of c a') ?t)" using assms(2,3) by force
  then show ?thesis
    unfolding b64_raw_decode_def no_line_breaks [OF c] by (simp add: all_some_None del: set_map)
qed

lemma first_key_found:
  "\<forall>b. Some b \<in> set rs \<and> b \<noteq> key \<longrightarrow> length b \<noteq> 32 \<Longrightarrow> Some key \<in> set rs \<Longrightarrow> length key = 32 \<Longrightarrow>
   first_key rs = Some key"
  by (induction rs rule: first_key.induct) auto

definition key_texts :: "bytes \<Rightarrow> string list" where
  "key_texts key = [b64_raw_encode b64_url key, b64_encode b64_url key, b64_raw_encode b64_std key,
     b64_encode b64_std key, hex_encode key]"

lemma b64_texts_decode:
  assumes "length key = 32" "a \<in> {b64_std, b64_url}" "j \<in> {0, 1}" "t = b64_raw_encode a key @ replicate j CHR ''=''"
    and "dec \<in> set key_decoders" "dec t = Some b" "length b = 32"
  shows "b = key"
proof -
  have lt: "length (b64_raw_encode a key) = 43"
  proof -
    have "(3 - 32 mod 3) mod 3 = (1 :: nat)" "4 * ((32 + 2) div 3) = (44 :: nat)" by simp_all
    then show ?thesis
      using length_b64_digits [of "map unat key"] unfolding b64_raw_encode_def length_map assms(1) by linarith
  qed
  have raw: "b = key" if "a' \<in> {b64_std, b64_url}" "b64_raw_decode a' t = Some b" for a'
  proof (cases "j = 0")
    case True
    with that(2) other_alphabet [OF assms(2) that(1), of key] show ?thesis unfolding assms(4) by simp
  next
    case False
    with that(2) raw_decode_padded [OF assms(2) that(1), of j key] show ?thesis unfolding assms(4) by simp
  qed
  have padded: "b = key" if "a' \<in> {b64_std, b64_url}" "b64_decode a' t = Some b" for a'
    using that(2) b64_decode_padded [OF assms(2), of a' key j] other_alphabet [OF assms(2) that(1), of key]
    unfolding assms(4) by (metis insertE singletonD option.distinct(1) option.inject)
  have hex: "hex_decode t \<noteq> Some b"
    using hex_decode_length [of t b] assms(3,7) lt unfolding assms(4) by auto
  from assms(5) consider "dec = b64_raw_decode b64_url" | "dec = b64_decode b64_std"
    | "dec = b64_raw_decode b64_std" | "dec = b64_decode b64_url" | "dec = hex_decode"
    unfolding key_decoders_def by auto
  then show ?thesis
  proof cases
    case 1 then show ?thesis using assms(6) raw [of b64_url] by simp
  next
    case 2 then show ?thesis using assms(6) padded [of b64_std] by simp
  next
    case 3 then show ?thesis using assms(6) raw [of b64_std] by simp
  next
    case 4 then show ?thesis using assms(6) padded [of b64_url] by simp
  next
    case 5 then show ?thesis using assms(6) hex by simp
  qed
qed

lemma hex_text_decodes:
  assumes "length key = 32" "dec \<in> set key_decoders" "dec (hex_encode key) = Some b" "length b = 32"
  shows "b = key"
proof -
  have c: "\<forall>c \<in> set (hex_encode key). \<not> is_space c" "CHR ''='' \<notin> set (hex_encode key)"
    using hex_chars by blast+
  show ?thesis
    using assms b64_raw_decode_length [OF _ c(1)] b64_decode_length [OF _ c] hex_round_trip [of key]
    by (fastforce simp: key_decoders_def)
qed

lemma trim_space_inner:
  assumes "list_all is_space l" "list_all is_space r" "\<forall>c \<in> set t. \<not> is_space c"
  shows "trim_space (l @ t @ r) = t"
proof -
  have d: "dropWhile is_space (xs @ ys) = dropWhile is_space ys" if "list_all is_space xs" for xs ys
    using that by (induction xs) auto
  have k: "dropWhile is_space ys = ys" if "\<forall>c \<in> set ys. \<not> is_space c" for ys
    using that by (cases ys) auto
  show ?thesis
  proof (cases "t = []")
    case True
    have "dropWhile is_space r = []" using assms(2) by (simp add: list_all_iff)
    then have e: "dropWhile is_space (l @ r) = []" using d [OF assms(1), of r] by (simp only:)
    show ?thesis by (simp only: trim_space_def True append_Nil e rev.simps dropWhile.simps)
  next
    case False
    then have "dropWhile is_space (t @ r) = t @ r" using assms(3) by (cases t) auto
    moreover have "dropWhile is_space (rev r @ rev t) = rev t"
      using d [of "rev r" "rev t"] k [of "rev t"] assms(2,3) by simp
    ultimately show ?thesis using d [OF assms(1), of "t @ r"] by (simp add: trim_space_def)
  qed
qed

text \<open>A key survives every text it may be written in: for a key of 32 bytes, its base64 text (either alphabet, padded or
  not) and its hexadecimal text, with white space around, decode to the key and to nothing else; in particular
  the pair that is generated is read back by the server and its clients.\<close>

theorem key_texts_decode:
  assumes "length key = 32" "t \<in> set (key_texts key)" "list_all is_space l" "list_all is_space r"
  shows "decode_key_bytes (l @ t @ r) = Ok key"
proof -
  have pad: "b64_encode a key = b64_raw_encode a key @ replicate 1 CHR ''=''" for a
    using assms(1) by (simp add: b64_encode_def)
  have c: "\<forall>c \<in> set t. \<not> is_space c"
    using assms(2) raw_text_chars hex_chars by (auto simp: key_texts_def pad is_space_def) blast+
  have self: "b64_raw_decode b64_url (b64_raw_encode b64_url key) = Some key"
    "b64_raw_decode b64_std (b64_raw_encode b64_std key) = Some key"
    by (rule b64_raw_roundtrip; simp)+
  have padded: "b64_decode a (b64_encode a key) = Some key" if "a \<in> {b64_std, b64_url}" for a
  proof -
    have "CHR ''='' \<notin> set b64_url" by (simp add: b64_url_def)
    then show ?thesis using that by (auto intro!: b64_padded_roundtrip)
  qed
  have found: "\<exists>dec \<in> set key_decoders. dec t = Some key"
    using assms(2) self padded by (auto simp: key_texts_def key_decoders_def)
  have only: "\<forall>dec \<in> set key_decoders. \<forall>b. dec t = Some b \<longrightarrow> length b = 32 \<longrightarrow> b = key"
  proof (intro ballI allI impI)
    fix dec b assume b: "dec \<in> set key_decoders" "dec t = Some b" "length b = 32"
    consider (b64) a j where "a \<in> {b64_std, b64_url}" "j \<in> {0, 1}" "t = b64_raw_encode a key @ replicate j CHR ''=''"
      | (hex) "t = hex_encode key"
    proof -
      have "t = b64_raw_encode b64_url key @ replicate 0 CHR ''='' \<or> t = b64_raw_encode b64_url key @ replicate 1 CHR ''='' \<or>
          t = b64_raw_encode b64_std key @ replicate 0 CHR ''='' \<or> t = b64_raw_encode b64_std key @ replicate 1 CHR ''='' \<or>
          t = hex_encode key"
        using assms(2) unfolding key_texts_def pad by simp
      then show thesis using b64 hex by blast
    qed
    then show "b = key"
    proof cases
      case b64
      show ?thesis by (rule b64_texts_decode [OF assms(1) b64 b])
    next
      case hex
      show ?thesis by (rule hex_text_decodes [OF assms(1) b(1) b(2) [unfolded hex] b(3)])
    qed
  qed
  have only': "\<forall>b. Some b \<in> set (map (\<lambda>dec. dec t) key_decoders) \<and> b \<noteq> key \<longrightarrow> length b \<noteq> 32"
  proof (intro allI impI)
    fix b assume b: "Some b \<in> set (map (\<lambda>dec. dec t) key_decoders) \<and> b \<noteq> key"
    obtain dec where dec: "Some b = dec t" "dec \<in> set key_decoders"
      by (rule imageE [OF b [THEN conjunct1, unfolded set_map]])
    from only [THEN bspec, OF dec(2), THEN spec, of b] dec(1) b show "length b \<noteq> 32" by simp
  qed
  have found': "Some key \<in> set (map (\<lambda>dec. dec t) key_decoders)" using found by (metis image_eqI image_set)
  have "t \<noteq> ''''"
  proof
    assume "t = ''''"
    then have "\<forall>dec \<in> set key_decoders. dec t = Some []"
      by (simp add: key_decoders_def b64_raw_decode_def b64_decode_def)
    with found obtain dec where "dec t = Some key" "dec t = Some []" by blast
    then show False using assms(1) by simp
  qed
  then show ?thesis
    using first_key_found [OF only' found' assms(1)] trim_space_inner [OF assms(3,4) c]
    unfolding decode_key_bytes_def Let_def by (simp del: set_map)
qed

section \<open>Recognising a client\<close>

lemma length_plain [simp]: "length (reality_plain sid hour) = length sid + 8"
  by (simp add: reality_plain_def)

lemma sint_hour: "- (2 ^ 63) \<le> x \<Longrightarrow> x < 2 ^ 63 \<Longrightarrow> sint (word_of_int x :: u64) = x"
  by (simp add: sint_sbintrunc' signed_take_bit_int_eq_self)

lemma reality_open_iff:
  "reality_open c shared box = Some (sid, hour) \<longleftrightarrow>
     length sid = 8 \<and> - (2 ^ 63) \<le> hour \<and> hour < 2 ^ 63 \<and> reality_seal c shared sid hour = Some box"
    (is "?l \<longleftrightarrow> ?r")
proof -
  obtain key nonce where kn: "reality_derive c shared = (key, nonce)" by fastforce
  show ?thesis
  proof
    assume ?l
    then obtain pt where pt: "gcm_open key nonce box = Some pt" "length pt = 16"
      "sid = take 8 pt" "hour = sint (of_be64 (drop 8 pt))"
      by (auto simp: reality_open_def kn reality_short_id_len_def split: option.splits if_splits)
    have "reality_plain sid hour = pt"
      using pt(2) by (simp add: reality_plain_def pt(3,4) be64_of_be64)
    then show ?r
      using pt sint_greater_eq [of "of_be64 (drop 8 pt)"] sint_less [of "of_be64 (drop 8 pt)"]
      by (simp add: reality_seal_def kn Let_def gcm.length_seal gcm.unseal_iff)
  next
    assume r: ?r
    then have "gcm_open key nonce box = Some (reality_plain sid hour)"
      by (auto simp: reality_seal_def kn Let_def gcm.unseal_iff split: if_splits)
    moreover have "of_be64 (be64 (word_of_int hour)) = word_of_int hour"
      using of_be64_be64 [of "word_of_int hour" "[]"] by simp
    ultimately show ?l
      using r by (simp add: reality_open_def kn reality_short_id_len_def reality_plain_def sint_hour)
  qed
qed

text \<open>A hello on the wire: eleven bytes of headers (a handshake record, a client hello), the random, the session identifier
  with its length, and the rest.\<close>

definition hello_frame :: "bytes \<Rightarrow> bool" where
  "hello_frame fr \<longleftrightarrow> length fr = 11 \<and> fr ! 0 = 0x16 \<and> fr ! 5 = 0x01"

definition client_hello :: "bytes \<Rightarrow> bytes \<Rightarrow> bytes \<Rightarrow> bytes \<Rightarrow> bytes" where
  "client_hello fr random session rest = fr @ random @ 32 # session @ rest"

lemma client_hello_fields:
  assumes "hello_frame fr" "length random = 32" "length session = 32"
  shows "is_reality_client_hello (client_hello fr random session rest)"
    "take 32 (drop 11 (client_hello fr random session rest)) = random"
    "take 32 (drop 44 (client_hello fr random session rest)) = session"
  using assms by (auto simp: is_reality_client_hello_def client_hello_def hello_frame_def nth_append)

definition hour_in_range :: "time \<Rightarrow> bool" where
  "hour_in_range now \<longleftrightarrow> - (2 ^ 62) \<le> unix_hour now \<and> unix_hour now \<le> 2 ^ 62"

lemma fresh_iff: "reality_hour_fresh now hour \<longleftrightarrow> \<bar>hour - unix_hour now\<bar> \<le> 1"
  by (auto simp: reality_hour_fresh_def Let_def)

lemma match_iff:
  assumes "hello_frame fr" "length random = 32" "length session = 32" "hour_in_range now"
    and "\<forall>sid \<in> rd_allowed d. length sid = 8"
  shows "reality_match c now d (client_hello fr random session rest) \<longleftrightarrow>
    (\<exists>shared sid hour. x_ecdh c (rd_priv d) session = Some shared \<and> sid \<in> rd_allowed d \<and>
       \<bar>hour - unix_hour now\<bar> \<le> 1 \<and> reality_seal c shared sid hour = Some random)"
proof -
  have rng: "- (2 ^ 63) \<le> hour \<and> hour < 2 ^ 63" if "\<bar>hour - unix_hour now\<bar> \<le> 1" for hour
    using that assms(4) by (auto simp: hour_in_range_def)
  show ?thesis
  proof (cases "x_ecdh c (rd_priv d) session")
    case None
    then show ?thesis by (simp add: reality_match_def client_hello_fields [OF assms(1-3)])
  next
    case (Some shared)
    then have "reality_match c now d (client_hello fr random session rest) \<longleftrightarrow>
      (\<exists>sid hour. reality_open c shared random = Some (sid, hour) \<and> sid \<in> rd_allowed d \<and> reality_hour_fresh now hour)"
      by (auto simp: reality_match_def client_hello_fields [OF assms(1-3)] split: option.splits)
    then show ?thesis
      using assms(5) rng Some unfolding reality_open_iff fresh_iff by auto
  qed
qed

lemma plain_inj:
  assumes "length sid = length sid'" "- (2 ^ 63) \<le> h" "h < 2 ^ 63" "- (2 ^ 63) \<le> h'" "h' < 2 ^ 63"
  shows "reality_plain sid h = reality_plain sid' h' \<longleftrightarrow> sid = sid' \<and> h = h'"
proof -
  have "h = h'" if "be64 (word_of_int h) = be64 (word_of_int h')"
    using that assms(2-5) sint_hour of_be64_be64 [of "word_of_int h" "[]"] of_be64_be64 [of "word_of_int h'" "[]"]
    by (metis append_Nil2)
  then show ?thesis using assms(1) by (auto simp: reality_plain_def)
qed

lemma seal_exists:
  assumes "length sid = 8"
  obtains box where "reality_seal c shared sid hour = Some box" "length box = 32"
  using assms that
  by (cases "reality_derive c shared") (simp add: reality_seal_def gcm.length_seal)

lemma seal_same:
  assumes "reality_seal c shared sid h = Some box" "reality_seal c shared sid' h' = Some box"
    "- (2 ^ 63) \<le> h" "h < 2 ^ 63" "- (2 ^ 63) \<le> h'" "h' < 2 ^ 63"
  shows "sid = sid' \<and> h = h'"
proof -
  have "length sid = length sid' \<and> reality_plain sid h = reality_plain sid' h'"
    using assms(1,2) gcm.seal_inj
    by (auto simp: reality_seal_def Let_def gcm.length_seal split: prod.splits if_splits)
  then show ?thesis using plain_inj [OF _ assms(3-6)] by blast
qed

section \<open>The dispatcher of a configuration\<close>

lemma parse_short_id_length: "parse_short_id s = Ok sid \<Longrightarrow> length sid = 8"
  by (auto simp: parse_short_id_def reality_short_id_len_def Let_def split: if_splits option.splits)

lemma allow_ids_mono: "allow_ids ids A = Ok B \<Longrightarrow> A \<subseteq> B"
proof (induction ids arbitrary: A)
  case (Cons s ids)
  then show ?case by (cases "parse_short_id s") auto
qed simp

lemma allow_ids_all: "allow_ids ids A = Ok B \<Longrightarrow> s \<in> set ids \<Longrightarrow> parse_short_id s = Ok sid \<Longrightarrow> sid \<in> B"
proof (induction ids arbitrary: A)
  case (Cons t ids)
  show ?case
  proof (cases "s = t")
    case True
    then show ?thesis using Cons.prems allow_ids_mono [of ids "insert sid A" B] by simp
  next
    case False
    then show ?thesis using Cons by (cases "parse_short_id t") auto
  qed
qed simp

lemma allow_ids_length: "allow_ids ids A = Ok B \<Longrightarrow> \<forall>sid \<in> A. length sid = 8 \<Longrightarrow> \<forall>sid \<in> B. length sid = 8"
proof (induction ids arbitrary: A)
  case (Cons s ids)
  show ?case
  proof (cases "parse_short_id s")
    case (Ok sid)
    with Cons.prems parse_short_id_length [OF Ok] show ?thesis by (intro Cons.IH [of "insert sid A"]) simp_all
  qed (use Cons.prems in simp_all)
qed simp

lemma dispatcher_of_config:
  assumes "new_reality_dispatcher clone cfg = Ok d"
  shows "parse_x25519_private (rc_PrivateKey cfg) = Ok (rd_priv d)"
    "\<forall>sid \<in> rd_allowed d. length sid = 8" "rd_dest d = rc_Dest cfg" "rc_Dest cfg \<noteq> ''''"
    "s \<in> set (rc_ShortIDs cfg) \<or> s = rc_ShortID cfg \<and> s \<noteq> '''' \<Longrightarrow> parse_short_id s = Ok sid \<Longrightarrow> sid \<in> rd_allowed d"
  using assms allow_ids_length allow_ids_all [of _ _ _ s sid]
  by (auto simp: new_reality_dispatcher_def Let_def reality_short_id_len_def
      split: outcome.splits if_splits option.splits)

section \<open>Properties\<close>

text \<open>What the dispatcher relies on of X25519: keys are 32 bytes, and both sides agree.\<close>

definition key_agreement :: "reality_crypto \<Rightarrow> bool" where
  "key_agreement c \<longleftrightarrow> (\<forall>a. length a = 32 \<longrightarrow> length (x_public c a) = 32) \<and>
     (\<forall>a b. length a = 32 \<longrightarrow> length b = 32 \<longrightarrow> x_ecdh c a (x_public c b) = x_ecdh c b (x_public c a))"

text \<open>C11. REALITY lets its own clients in for an hour each way. A server configured with a generated private key and a
  short identifier recognises the hello of a client that has the public text of that key and that identifier
  exactly while the two clocks differ by at most one hour on the hour count, whatever surrounds the random and the
  session identifier in the hello.\<close>

theorem reality_clients_admitted:
  assumes "key_agreement c" "generate_reality_keypair c (Some priv) = Some (private_text, public_text)" "length priv = 32"
    and "rc_PrivateKey cfg = private_text" "new_reality_dispatcher clone cfg = Ok d"
    and "s \<in> set (rc_ShortIDs cfg) \<or> s = rc_ShortID cfg \<and> s \<noteq> ''''" "parse_short_id s = Ok sid"
    and "parse_x25519_public public_text = Ok pub" "rv_crypto env = c" "rv_key env = Some eph" "length eph = 32"
    and "reality_fields env pub sid = Ok (random, session)" "hello_frame fr"
    and "hour_in_range (rv_now env)" "hour_in_range now"
  shows "reality_match c now d (client_hello fr random session rest) \<longleftrightarrow>
    \<bar>unix_hour (rv_now env) - unix_hour now\<bar> \<le> 1"
proof -
  have texts: "private_text = b64_raw_encode b64_url priv" "public_text = b64_raw_encode b64_url (x_public c priv)"
    using assms(2) by (auto simp: generate_reality_keypair_def)
  have len: "length (x_public c priv) = 32" using assms(1,3) by (simp add: key_agreement_def)
  have "decode_key_bytes private_text = Ok priv" "decode_key_bytes public_text = Ok (x_public c priv)"
    using key_texts_decode [OF assms(3), of private_text "[]" "[]"] key_texts_decode [OF len, of public_text "[]" "[]"]
    by (simp_all add: key_texts_def texts)
  then have pub: "pub = x_public c priv" and priv: "rd_priv d = priv"
    using assms(4,8) dispatcher_of_config(1) [OF assms(5)] by (simp_all add: parse_x25519_public_def parse_x25519_private_def)
  from assms(9,10,12) obtain shared where sh: "x_ecdh c eph pub = Some shared"
    and seal: "reality_seal c shared sid (unix_hour (rv_now env)) = Some random" and se: "session = x_public c eph"
    by (auto simp: reality_fields_def split: option.splits)
  have agree: "x_ecdh c (rd_priv d) session = Some shared"
    using assms(1,3,11) sh unfolding pub priv se key_agreement_def by metis
  have lens: "length random = 32" "length session = 32"
    using seal assms(1,11) by (auto simp: reality_seal_def Let_def se key_agreement_def split: prod.splits if_splits)
  have allowed: "sid \<in> rd_allowed d" by (rule dispatcher_of_config(5) [OF assms(5,6,7)])
  show ?thesis
    unfolding match_iff [OF assms(13) lens assms(15) dispatcher_of_config(2) [OF assms(5)]]
  proof
    assume "\<bar>unix_hour (rv_now env) - unix_hour now\<bar> \<le> 1"
    with agree allowed seal show "\<exists>shared sid hour. x_ecdh c (rd_priv d) session = Some shared \<and> sid \<in> rd_allowed d \<and>
       \<bar>hour - unix_hour now\<bar> \<le> 1 \<and> reality_seal c shared sid hour = Some random" by blast
  next
    assume "\<exists>shared sid hour. x_ecdh c (rd_priv d) session = Some shared \<and> sid \<in> rd_allowed d \<and>
       \<bar>hour - unix_hour now\<bar> \<le> 1 \<and> reality_seal c shared sid hour = Some random"
    then obtain sid' hour where h: "\<bar>hour - unix_hour now\<bar> \<le> 1" "reality_seal c shared sid' hour = Some random"
      using agree by auto
    then show "\<bar>unix_hour (rv_now env) - unix_hour now\<bar> \<le> 1"
      using seal_same [OF seal h(2)] assms(14,15) by (auto simp: hour_in_range_def)
  qed
qed

text \<open>A key agreement for examples: public keys are the private ones, the shared secret is their sum.\<close>

definition sample_crypto :: reality_crypto where
  "sample_crypto = \<lparr>x_public = id, x_ecdh = (\<lambda>a b. Some (map2 (+) a b)), x_hkdf = (\<lambda>s i n. take n (s @ replicate n 0))\<rparr>"

definition sample_reality_env :: reality_env where
  "sample_reality_env = \<lparr>rv_crypto = sample_crypto, rv_key = Some (replicate 32 7), rv_now = 0, rv_text = '''',
     rv_tls = (\<lambda>_ _ _ _ _. Err '''')\<rparr>"

definition sample_reality_config :: reality_config where
  "sample_reality_config = \<lparr>rc_Enabled = True, rc_Dest = ''site:443'', rc_ServerName = '''',
     rc_PrivateKey = b64_raw_encode b64_url (replicate 32 1), rc_PublicKey = '''', rc_ShortID = ''ab'', rc_ShortIDs = []\<rparr>"

lemma sample_agreement: "key_agreement sample_crypto"
proof -
  have "map2 (+) a b = map2 (+) b a" for a b :: bytes
    by (rule nth_equalityI) (auto simp: add.commute)
  then show ?thesis by (simp add: key_agreement_def sample_crypto_def)
qed

lemma sample_private: "parse_x25519_private (b64_raw_encode b64_url (replicate 32 1)) = Ok (replicate 32 1)"
  using key_texts_decode [of "replicate 32 1" "b64_raw_encode b64_url (replicate 32 1)" "[]" "[]"]
  by (simp add: parse_x25519_private_def key_texts_def)

lemma sample_short_id: "parse_short_id ''ab'' = Ok (0xAB # replicate 7 0)"
  by (simp add: parse_short_id_def trim_space_def is_space_def hex_digit_def reality_short_id_len_def of_char_def)

lemma sample_dispatcher:
  obtains d where "new_reality_dispatcher (\<lambda>_ _. Some ()) sample_reality_config = Ok d"
    "rd_priv d = replicate 32 1"
  by (simp add: new_reality_dispatcher_def sample_reality_config_def sample_private sample_short_id)

theorem reality_clients_admitted_witness:
  "\<exists>d random session. new_reality_dispatcher (\<lambda>_ _. Some ()) sample_reality_config = Ok d \<and>
     reality_fields sample_reality_env (replicate 32 1) (0xAB # replicate 7 0) = Ok (random, session) \<and>
     reality_match sample_crypto 3600000000000 d (client_hello ([0x16, 3, 1, 2, 0, 1] @ replicate 5 0) random session []) \<and>
     \<not> reality_match sample_crypto 7200000000000 d (client_hello ([0x16, 3, 1, 2, 0, 1] @ replicate 5 0) random session [])"
proof -
  let ?sid = "0xAB # replicate 7 0 :: bytes" and ?fr = "[0x16, 3, 1, 2, 0, 1] @ replicate 5 0 :: bytes"
  obtain d where d: "new_reality_dispatcher (\<lambda>_ _. Some ()) sample_reality_config = Ok d"
    by (rule sample_dispatcher)
  obtain box where "reality_seal sample_crypto (map2 (+) (replicate 32 7) (replicate 32 1)) ?sid (unix_hour 0) = Some box"
    by (rule seal_exists [of ?sid]) simp
  then obtain random session where f: "reality_fields sample_reality_env (replicate 32 1) ?sid = Ok (random, session)"
    by (simp add: reality_fields_def sample_reality_env_def sample_crypto_def del: replicate.simps)
  have kp: "generate_reality_keypair sample_crypto (Some (replicate 32 1)) =
      Some (b64_raw_encode b64_url (replicate 32 1), b64_raw_encode b64_url (replicate 32 1))"
    by (simp add: generate_reality_keypair_def sample_crypto_def)
  have m: "reality_match sample_crypto now d (client_hello ?fr random session []) \<longleftrightarrow>
      \<bar>unix_hour (rv_now sample_reality_env) - unix_hour now\<bar> \<le> 1" if "hour_in_range now" for now
    by (rule reality_clients_admitted [where eph = "replicate 32 7", OF sample_agreement kp _ _ d _ sample_short_id _ _ _ _ f _ _ that])
       (simp_all add: sample_reality_config_def sample_reality_env_def sample_private [unfolded parse_x25519_private_def]
          parse_x25519_public_def hello_frame_def hour_in_range_def unix_hour_def signed_divide_int_def length_replicate)
  show ?thesis
    using d f m [of 3600000000000] m [of 7200000000000]
    by (auto simp: hour_in_range_def unix_hour_def sample_reality_env_def signed_divide_int_def)
qed

section \<open>The fallback\<close>

definition from_peer :: "fallback \<Rightarrow> bytes" where
  "from_peer f = unpeeked (fb_peer f) @ concat (arriving (pk_conn (fb_peer f)))"

definition from_site :: "fallback \<Rightarrow> bytes" where
  "from_site f = concat (arriving (ep_in (fb_site f)))"

definition to_site :: "fallback \<Rightarrow> bytes" where
  "to_site f = concat (taken (ep_out (fb_site f)))"

definition to_peer :: "fallback \<Rightarrow> bytes" where
  "to_peer f = concat (taken (fb_peer_out f))"

definition fallback_ok :: "fallback \<Rightarrow> fallback \<Rightarrow> bool" where
  "fallback_ok f0 f \<longleftrightarrow>
     lives (ep_out (fb_site f)) = None \<and> lives (fb_peer_out f) = None \<and>
     (\<exists>s. to_site f = to_site f0 @ s \<and> from_peer f0 = s @ from_peer f) \<and>
     (\<exists>p. to_peer f = to_peer f0 @ p \<and> from_site f0 = p @ from_site f) \<and>
     (\<not> fb_up f \<and> fb_down f \<longrightarrow> from_peer f = []) \<and> (fb_up f \<and> \<not> fb_down f \<longrightarrow> from_site f = [])"

lemma live_write: "lives w = None \<Longrightarrow> conn_write d w = (None, w\<lparr>taken := taken w @ [d]\<rparr>)"
  by (simp add: conn_write_def)

lemma fallback_closed:
  assumes "\<not> (fb_up f \<and> fb_down f)" "fallback_ok f0 f"
  shows "fallback_ok f0 (fallback_step t f)"
proof -
  have "fallback_step t f \<in> {f, f\<lparr>fb_up := False, fb_down := False\<rparr>}"
    using assms(1) by (cases t) auto
  moreover have "fallback_ok f0 (f\<lparr>fb_up := False, fb_down := False\<rparr>)"
    using assms(2) by (simp add: fallback_ok_def from_peer_def from_site_def to_site_def to_peer_def)
  ultimately show ?thesis using assms(2) by auto
qed

text \<open>One read moves a piece \<open>d\<close> from one side to the other, or finds its side ended.\<close>

lemma fallback_moved:
  assumes "fallback_ok f0 f" "lives (ep_out (fb_site f')) = None" "lives (fb_peer_out f') = None"
    and "to_site f' = to_site f @ s" "from_peer f = s @ from_peer f'"
    and "to_peer f' = to_peer f @ p" "from_site f = p @ from_site f'"
    and "\<not> fb_up f' \<longrightarrow> from_peer f' = []" "\<not> fb_down f' \<longrightarrow> from_site f' = []"
  shows "fallback_ok f0 f'"
proof -
  obtain s0 p0 where "to_site f = to_site f0 @ s0" "from_peer f0 = s0 @ from_peer f"
    "to_peer f = to_peer f0 @ p0" "from_site f0 = p0 @ from_site f"
    using assms(1) unfolding fallback_ok_def by blast
  then have "to_site f' = to_site f0 @ s0 @ s \<and> from_peer f0 = (s0 @ s) @ from_peer f'"
    "to_peer f' = to_peer f0 @ p0 @ p \<and> from_site f0 = (p0 @ p) @ from_site f'"
    using assms(4-7) by simp_all
  then show ?thesis unfolding fallback_ok_def using assms(2,3,8,9) by blast
qed

lemma fallback_step_ok:
  assumes ok: "fallback_ok f0 f"
  shows "fallback_ok f0 (fallback_step t f)"
proof (cases "fb_up f \<and> fb_down f")
  case False
  then show ?thesis using fallback_closed ok by blast
next
  case open_both: True
  have live: "lives (ep_out (fb_site f)) = None" "lives (fb_peer_out f) = None" using ok by (simp_all add: fallback_ok_def)
  note views = from_peer_def from_site_def to_site_def to_peer_def
  show ?thesis
  proof (cases t)
    case PeerTurn
    obtain r p where r: "PeekingRead conn_read copy_size (fb_peer f) = (r, p)" by fastforce
    show ?thesis
    proof (cases r)
      case (Got d)
      have "unpeeked (fb_peer f) @ concat (arriving (pk_conn (fb_peer f))) = d @ unpeeked p @ concat (arriving (pk_conn p))"
        using net_wrap.peeking.got_pending [OF TrueI r [unfolded Got]] .
      then show ?thesis
        using open_both PeerTurn r Got live
        by (intro fallback_moved [OF ok, where s = d and p = "[]"]) (simp_all add: ep_write_def live_write views)
    next
      case (Fail e)
      have "unpeeked (fb_peer f) @ concat (arriving (pk_conn (fb_peer f))) = []" "unpeeked p @ concat (arriving (pk_conn p)) = []"
        using net_wrap.peeking.fail_end [OF TrueI _ r [unfolded Fail]] by (simp_all add: copy_size_def)
      then show ?thesis
        using open_both PeerTurn r Fail live
        by (intro fallback_moved [OF ok, where s = "[]" and p = "[]"]) (simp_all add: views del: concat_eq_Nil_conv)
    qed
  next
    case SiteTurn
    obtain r s where r: "conn_read copy_size (ep_in (fb_site f)) = (r, s)" by fastforce
    show ?thesis
    proof (cases r)
      case (Got d)
      have "concat (arriving (ep_in (fb_site f))) = d @ concat (arriving s)"
        using net_in.got_pending [OF TrueI r [unfolded Got]] .
      then show ?thesis
        using open_both SiteTurn r Got live
        by (intro fallback_moved [OF ok, where s = "[]" and p = d]) (simp_all add: ep_read_def live_write views)
    next
      case (Fail e)
      have "concat (arriving (ep_in (fb_site f))) = []" "concat (arriving s) = []"
        using net_in.fail_end [OF TrueI _ r [unfolded Fail]] by (simp_all add: copy_size_def)
      then show ?thesis
        using open_both SiteTurn r Fail live
        by (intro fallback_moved [OF ok, where s = "[]" and p = "[]"])
          (simp_all add: ep_read_def views del: concat_eq_Nil_conv)
    qed
  qed
qed

lemma fallback_run_ok: "fallback_ok f0 f \<Longrightarrow> fallback_ok f0 (fallback_run turns f)"
  unfolding fallback_run_def by (induction turns arbitrary: f) (simp_all add: fallback_step_ok)

text \<open>C13. A stranger talks to the site itself. However the two copies of the fallback take turns, the site gets a prefix of what the
  stranger sent (from the very first byte, the peeked ones included) and the stranger a prefix of what the
  site sent; when only the site has ended, the stranger has all of its bytes, and when only the stranger has ended, the site has
  all of his. But the stranger's end closes the site's connection: one that closes its side after its
  request can be left without any answer.\<close>

theorem fallback_transparent:
  assumes "fallback_start (Some site) pconn out = Some f0" "lives (ep_out site) = None" "lives out = None"
    and "f = fallback_run turns f0"
  shows "(\<exists>s s'. to_site f = to_site f0 @ s \<and> from_peer f0 = s @ s' \<and> (\<not> fb_up f \<and> fb_down f \<longrightarrow> s' = [])) \<and>
    (\<exists>p p'. to_peer f = to_peer f0 @ p \<and> from_site f0 = p @ p' \<and> (fb_up f \<and> \<not> fb_down f \<longrightarrow> p' = [])) \<and>
    (pconn = \<lparr>pk_conn = \<lparr>arriving = [], ending = EOF\<rparr>, peekBuf = b, readIdx = 0\<rparr> \<and> b \<noteq> [] \<and> length b \<le> copy_size \<and>
       turns = [PeerTurn, PeerTurn, SiteTurn] \<longrightarrow>
     to_site f = to_site f0 @ b \<and> to_peer f = to_peer f0 \<and> \<not> fb_up f \<and> \<not> fb_down f)"
proof -
  have f0: "f0 = \<lparr>fb_peer = pconn, fb_peer_out = out, fb_site = site, fb_up = True, fb_down = True\<rparr>"
    using assms(1) by (simp add: fallback_start_def)
  have "fallback_ok f0 f"
    unfolding assms(4) by (rule fallback_run_ok) (use assms(2,3) in \<open>simp add: fallback_ok_def f0\<close>)
  then have "\<exists>s s'. to_site f = to_site f0 @ s \<and> from_peer f0 = s @ s' \<and> (\<not> fb_up f \<and> fb_down f \<longrightarrow> s' = [])"
    "\<exists>p p'. to_peer f = to_peer f0 @ p \<and> from_site f0 = p @ p' \<and> (fb_up f \<and> \<not> fb_down f \<longrightarrow> p' = [])"
    unfolding fallback_ok_def by blast+
  moreover have "to_site f = to_site f0 @ b \<and> to_peer f = to_peer f0 \<and> \<not> fb_up f \<and> \<not> fb_down f"
    if "pconn = \<lparr>pk_conn = \<lparr>arriving = [], ending = EOF\<rparr>, peekBuf = b, readIdx = 0\<rparr> \<and> b \<noteq> [] \<and> length b \<le> copy_size \<and>
       turns = [PeerTurn, PeerTurn, SiteTurn]"
    using that assms(2) by (auto simp: assms(4) f0 fallback_run_def PeekingRead_def conn_read_def ep_write_def live_write
        to_site_def to_peer_def)
  ultimately show ?thesis by blast
qed

theorem fallback_transparent_witness:
  "\<exists>f. fallback_start (Some (sample_conn [[9]])) \<lparr>pk_conn = \<lparr>arriving = [], ending = EOF\<rparr>, peekBuf = [1], readIdx = 0\<rparr>
      \<lparr>taken = [], lives = None\<rparr> = Some f \<and>
     to_site (fallback_run [PeerTurn, PeerTurn, SiteTurn] f) = [1] \<and> to_peer (fallback_run [PeerTurn, PeerTurn, SiteTurn] f) = []"
proof -
  let ?p = "\<lparr>pk_conn = \<lparr>arriving = [], ending = EOF\<rparr>, peekBuf = [1], readIdx = 0\<rparr> :: conn_in peeking_conn"
  obtain f where f: "fallback_start (Some (sample_conn [[9]])) ?p \<lparr>taken = [], lives = None\<rparr> = Some f"
    "to_site f = []" "to_peer f = []"
    by (simp add: fallback_start_def sample_conn_def to_site_def to_peer_def)
  have "lives (ep_out (sample_conn [[9]])) = None" "lives (\<lparr>taken = [], lives = None\<rparr> :: conn_out) = None"
    by (simp_all add: sample_conn_def)
  from fallback_transparent [OF f(1) this refl, of "[PeerTurn, PeerTurn, SiteTurn]" "[1]"] f show ?thesis
    by (simp add: copy_size_def)
qed

end
