(* ===== verification/Mirage.thy ===== *)
theory Mirage
  imports Reality
begin

text \<open>
  \<^verbatim>\<open>core/transport/mirage.go\<close>: a connection split over HTTP requests, the download as the body of one long \<^verbatim>\<open>GET\<close>, the
  upload as a \<^verbatim>\<open>POST\<close> per piece, both under a session name in the path. The HTTP client and server
  are parameters; the table of sessions, with the goroutines that share it, is a step relation.
\<close>

section \<open>Paths\<close>

definition mirage_default_path :: string where "mirage_default_path = ''/v2/media/segments''"
definition mirage_chunk_size :: nat where "mirage_chunk_size = 16 * 1024"
definition mirage_max_body :: nat where "mirage_max_body = 2 * 1024 * 1024"

definition trim_right :: "char \<Rightarrow> string \<Rightarrow> string" where
  "trim_right c s = rev (dropWhile (\<lambda>d. d = c) (rev s))"

definition trim_both :: "char \<Rightarrow> string \<Rightarrow> string" where
  "trim_both c s = trim_right c (dropWhile (\<lambda>d. d = c) s)"

definition mirage_normalize_path :: "string \<Rightarrow> string" where
  "mirage_normalize_path p =
     (if p = '''' then mirage_default_path
      else trim_right CHR ''/'' (if \<not> has_prefix p ''/'' then ''/'' @ p else p))"

definition random_session_id :: "bytes option \<Rightarrow> string option" where
  "random_session_id b = map_option hex_encode b"

section \<open>Requests\<close>

text \<open>What the handlers read of a request: the decoded path, the credentials, the peer's address as text, and the body,
  with whether reading it fails.\<close>

record http_request =
  rq_method :: string
  rq_path :: string
  rq_auth :: string
  rq_remote :: string
  rq_body :: bytes
  rq_fails :: bool

definition remoteAddrOf :: "'a http_request_scheme \<Rightarrow> net_addr" where
  "remoteAddrOf r =
     (let host = (case split_host_port (rq_remote r) of Some (h, _) \<Rightarrow> h | None \<Rightarrow> rq_remote r)
      in TCPAddr (case parse_ip host of Some i \<Rightarrow> i | None \<Rightarrow> []) 0)"

datatype mirage_route = Decoy | Downlink string | Uplink string

definition mirage_route :: "string \<Rightarrow> http_request \<Rightarrow> mirage_route" where
  "mirage_route path r =
     (if \<not> has_prefix (rq_path r) (path @ ''/'') then Decoy
      else
        let rest = trim_both CHR ''/'' (trim_prefix (rq_path r) path);
            parts = split_str rest ''/'' in
        if rq_method r = ''GET'' \<and> length parts = 1 \<and> parts ! 0 \<noteq> '''' then Downlink (parts ! 0)
        else if rq_method r = ''POST'' \<and> length parts = 2 \<and> parts ! 0 \<noteq> '''' then Uplink (parts ! 0)
        else Decoy)"

text \<open>The clocks and the order of the users are those of \<open>ValidateAuth\<close>; \<open>None\<close> is a refusal.\<close>

definition mirage_authenticate ::
  "string list \<Rightarrow> time \<Rightarrow> time \<Rightarrow> 'a http_request_scheme \<Rightarrow> auth_manager \<Rightarrow> auth_session option \<times> auth_manager" where
  "mirage_authenticate order t_rate now r am =
     (let token = trim_prefix (rq_auth r) ''Bearer '' in
      if token = '''' then (None, am)
      else case b64_decode b64_std token of
        None \<Rightarrow> (None, am)
      | Some data \<Rightarrow>
          if length data < 56 then (None, am)
          else (case ValidateAuth order t_rate now (take 56 data) (remoteAddrOf r) am of
             (Ok session, am') \<Rightarrow> (Some session, am')
           | (_, am') \<Rightarrow> (None, am')))"

section \<open>The handler\<close>

text \<open>
  A pump is the handler's end of the pipe of a session; \<open>mi_up\<close> are the bytes written into it for the session's
  connection, \<open>mi_closed\<close> the pumps of which either end has been closed. \<open>mi_running\<close> are the downloads being
  served, and \<open>mi_posts\<close> the uploads between looking up their pump and writing.
\<close>

record mirage_state =
  mi_path :: string
  mi_sessions :: "string \<rightharpoonup> nat"
  mi_up :: "nat \<Rightarrow> bytes"
  mi_closed :: "nat set"
  mi_next :: nat
  mi_running :: "nat \<rightharpoonup> string"
  mi_posts :: "nat \<rightharpoonup> nat \<times> bytes"

definition new_mirage_handler :: "string \<Rightarrow> mirage_state" where
  "new_mirage_handler path =
     \<lparr>mi_path = mirage_normalize_path path, mi_sessions = Map.empty, mi_up = (\<lambda>_. []), mi_closed = {},
      mi_next = 0, mi_running = Map.empty, mi_posts = Map.empty\<rparr>"

text \<open>A reply: the decoy page, a bare status, or a download whose session runs on the pump.\<close>

datatype mirage_reply = ReplyDecoy | ReplyStatus nat | ReplyStream nat auth_session

definition mirage_decoy_body :: string where
  "mirage_decoy_body =
     ''<html>'' @ crlf @ ''<head><title>404 Not Found</title></head>'' @ crlf @ ''<body>'' @ crlf @
     ''<center><h1>404 Not Found</h1></center>'' @ crlf @ ''<hr><center>nginx/1.24.0</center>'' @ crlf @
     ''</body>'' @ crlf @ ''</html>'' @ crlf"

text \<open>Status, headers and body of the decoy.\<close>

definition mirage_serve_decoy :: "nat \<times> (string \<times> string) list \<times> string" where
  "mirage_serve_decoy =
     (404, [(''Server'', ''nginx/1.24.0''), (''Content-Type'', ''text/html; charset=utf-8'')], mirage_decoy_body)"

text \<open>The start of a download; \<open>flush\<close> tells whether the response writer can flush.\<close>

definition handle_downlink ::
  "bool \<Rightarrow> auth_session option \<Rightarrow> string \<Rightarrow> mirage_state \<Rightarrow> mirage_reply \<times> mirage_state" where
  "handle_downlink flush auth session st =
     (case auth of
        None \<Rightarrow> (ReplyDecoy, st)
      | Some auth_session \<Rightarrow>
          if \<not> flush then (ReplyDecoy, st)
          else (case mi_sessions st session of
             Some _ \<Rightarrow> (ReplyDecoy, st)
           | None \<Rightarrow>
               (ReplyStream (mi_next st) auth_session,
                st\<lparr>mi_sessions := (mi_sessions st)(session \<mapsto> mi_next st), mi_next := mi_next st + 1,
                   mi_running := (mi_running st)(mi_next st \<mapsto> session)\<rparr>)))"

text \<open>Its deferred end, in two parts, and the loop that copies the session's output into the response.\<close>

definition downlink_deletes :: "nat \<Rightarrow> string \<Rightarrow> mirage_state \<Rightarrow> mirage_state" where
  "downlink_deletes k session st =
     st\<lparr>mi_sessions := (mi_sessions st)(session := None), mi_running := (mi_running st)(k := None)\<rparr>"

definition pump_closes :: "nat \<Rightarrow> mirage_state \<Rightarrow> mirage_state" where
  "pump_closes k st = st\<lparr>mi_closed := insert k (mi_closed st)\<rparr>"

definition downlink_copy :: "conn_in \<Rightarrow> conn_out \<Rightarrow> (io_error option \<times> conn_in \<times> conn_out) option" where
  "downlink_copy pump w = copy_loop conn_read conn_write mirage_chunk_size pump w"

text \<open>An upload: looking up the pump, then reading the body and writing it. A write into a closed pipe takes none of
  the body, or, when the close comes in between, the first \<open>n\<close> bytes.\<close>

definition uplink_write :: "nat \<Rightarrow> bytes \<Rightarrow> mirage_state \<Rightarrow> mirage_reply \<times> mirage_state" where
  "uplink_write k body st =
     (if body = [] then (ReplyStatus 200, st)
      else if k \<in> mi_closed st then (ReplyStatus 410, st)
      else (ReplyStatus 200, st\<lparr>mi_up := (mi_up st)(k := mi_up st k @ body)\<rparr>))"

definition uplink_interrupted :: "nat \<Rightarrow> bytes \<Rightarrow> nat \<Rightarrow> mirage_state \<Rightarrow> mirage_state" where
  "uplink_interrupted k body n st =
     (if k \<in> mi_closed st then st
      else st\<lparr>mi_up := (mi_up st)(k := mi_up st k @ take n body), mi_closed := insert k (mi_closed st)\<rparr>)"

definition handle_uplink :: "http_request \<Rightarrow> string \<Rightarrow> mirage_state \<Rightarrow> mirage_reply \<times> mirage_state" where
  "handle_uplink r session st =
     (case mi_sessions st session of
        None \<Rightarrow> (ReplyDecoy, st)
      | Some k \<Rightarrow>
          if rq_fails r then (ReplyStatus 400, st)
          else uplink_write k (take mirage_max_body (rq_body r)) st)"

text \<open>One request with nothing in between.\<close>

definition mirage_ServeHTTP ::
  "string list \<Rightarrow> time \<Rightarrow> time \<Rightarrow> bool \<Rightarrow> http_request \<Rightarrow> auth_manager \<times> mirage_state \<Rightarrow>
   mirage_reply \<times> auth_manager \<times> mirage_state" where
  "mirage_ServeHTTP order t_rate now flush r s =
     (case s of (am, st) \<Rightarrow>
        (case mirage_route (mi_path st) r of
           Decoy \<Rightarrow> (ReplyDecoy, am, st)
         | Downlink session \<Rightarrow>
             (case mirage_authenticate order t_rate now r am of (auth, am') \<Rightarrow>
                (case handle_downlink flush auth session st of (reply, st') \<Rightarrow> (reply, am', st')))
         | Uplink session \<Rightarrow>
             (case handle_uplink r session st of (reply, st') \<Rightarrow> (reply, am, st'))))"

text \<open>Any interleaving of the requests' goroutines.\<close>

inductive mirage_step :: "mirage_state \<Rightarrow> mirage_state \<Rightarrow> bool" where
  get: "mirage_step st (snd (handle_downlink True (Some auth) session st))"
| deletes: "mi_running st k = Some session \<Longrightarrow> mirage_step st (downlink_deletes k session st)"
| closes: "k < mi_next st \<Longrightarrow> mirage_step st (pump_closes k st)"
| looks_up: "mi_sessions st session = Some k \<Longrightarrow> mi_posts st j = None \<Longrightarrow>
    mirage_step st (st\<lparr>mi_posts := (mi_posts st)(j \<mapsto> (k, body))\<rparr>)"
| fails: "mi_posts st j = Some (k, body) \<Longrightarrow> mirage_step st (st\<lparr>mi_posts := (mi_posts st)(j := None)\<rparr>)"
| writes: "mi_posts st j = Some (k, body) \<Longrightarrow>
    mirage_step st ((snd (uplink_write k body st))\<lparr>mi_posts := (mi_posts st)(j := None)\<rparr>)"
| interrupted: "mi_posts st j = Some (k, body) \<Longrightarrow>
    mirage_step st ((uplink_interrupted k body n st)\<lparr>mi_posts := (mi_posts st)(j := None)\<rparr>)"

inductive_cases mirage_stepE: "mirage_step st st'"

section \<open>The client\<close>

text \<open>The upload loop: a piece per request, numbered, until the connection ends or a request is not answered with 200.
  \<open>post\<close> stands for the HTTP exchange.\<close>

partial_function (option) mirage_uplink_loop ::
  "(nat \<Rightarrow> 's \<Rightarrow> io_read \<times> 's) \<Rightarrow> (u64 \<Rightarrow> bytes \<Rightarrow> 'h \<Rightarrow> nat option \<times> 'h) \<Rightarrow> u64 \<Rightarrow> 's \<Rightarrow> 'h \<Rightarrow> ('s \<times> 'h) option"
where
  "mirage_uplink_loop rd post seq s h =
     (case rd mirage_chunk_size s of
        (Fail e, s') \<Rightarrow> Some (s', h)
      | (Got d, s') \<Rightarrow>
          if d = [] then mirage_uplink_loop rd post seq s' h
          else (case post seq d h of
             (Some status, h') \<Rightarrow>
               if status \<noteq> 200 then Some (s', h') else mirage_uplink_loop rd post (seq + 1) s' h'
           | (None, h') \<Rightarrow> Some (s', h')))"

text \<open>The requests, on the path under which the server is asked.\<close>

definition mirage_get :: "string \<Rightarrow> string \<Rightarrow> string \<Rightarrow> string \<Rightarrow> http_request" where
  "mirage_get path session auth_b64 remote =
     \<lparr>rq_method = ''GET'', rq_path = mirage_normalize_path path @ ''/'' @ session, rq_auth = ''Bearer '' @ auth_b64,
      rq_remote = remote, rq_body = [], rq_fails = False\<rparr>"

definition mirage_post :: "string \<Rightarrow> string \<Rightarrow> string \<Rightarrow> string \<Rightarrow> u64 \<Rightarrow> bytes \<Rightarrow> http_request" where
  "mirage_post path session auth_b64 remote seq d =
     \<lparr>rq_method = ''POST'', rq_path = mirage_normalize_path path @ ''/'' @ session @ ''/'' @ show_nat (unat seq),
      rq_auth = ''Bearer '' @ auth_b64, rq_remote = remote, rq_body = d, rq_fails = False\<rparr>"

text \<open>The dial: \<open>exchange\<close> stands for the HTTPS client (address, host, fingerprint), which answers the first request with a status and the body
  that follows; the connection's upload goes into the pipe of the loop.\<close>

record mirage_env =
  me_random :: "bytes option"
  me_exchange :: "string \<Rightarrow> string \<Rightarrow> hello_id \<Rightarrow> bool \<Rightarrow> http_request \<Rightarrow> (nat \<times> conn_in) option"
  me_pipe :: conn_out
  me_remote :: string
  me_text :: string
  me_now :: time

definition mirage_dial ::
  "mirage_env \<Rightarrow> string \<Rightarrow> string \<Rightarrow> string \<Rightarrow> string \<Rightarrow> string \<Rightarrow> bool \<Rightarrow> (string, endpoint) outcome" where
  "mirage_dial env target_addr host0 path fingerprint auth_b64 insecure =
     (case random_session_id (me_random env) of
        None \<Rightarrow> Err (me_text env)
      | Some session \<Rightarrow>
          let host = (if host0 = '''' then hostOnly target_addr else host0) in
          (case me_exchange env target_addr host (reality_hello_id fingerprint) insecure
              (mirage_get path session auth_b64 (me_remote env)) of
             None \<Rightarrow> Err (''mirage downlink failed: '' @ me_text env)
           | Some (status, body) \<Rightarrow>
               if status \<noteq> 200 then Err (''mirage downlink status '' @ show_nat status)
               else Ok \<lparr>ep_in = body, ep_out = me_pipe env, ep_kind = OtherConn, ep_write_closed = False\<rparr>))"

definition mirage_dial_vpn ::
  "mirage_env \<Rightarrow> bytes option \<Rightarrow> string \<Rightarrow> string \<Rightarrow> string \<Rightarrow> string \<Rightarrow> string \<Rightarrow> bool \<Rightarrow> byte \<Rightarrow> string \<Rightarrow> u16 \<Rightarrow>
   (vpn_error, endpoint) outcome option" where
  "mirage_dial_vpn env nonce target_addr host path fingerprint psk insecure addr_type addr port =
     (case GenerateAuthPayload psk (me_now env) nonce of
        None \<Rightarrow> Some (Err VpnAuthGeneration)
      | Some auth \<Rightarrow>
          (case mirage_dial env target_addr host path fingerprint (b64_encode b64_std auth) insecure of
             Ok conn \<Rightarrow>
               (case ep_write (EncodeAddress addr_type addr port) conn of
                  (Some e, _) \<Rightarrow> Some (Err (VpnAddressWrite e))
                | (None, conn1) \<Rightarrow> read_status conn1)
           | _ \<Rightarrow> Some (Err VpnDialFailed)))"

section \<open>Sessions\<close>

text \<open>A pump belongs to the one download that made it, and is known under that download's name alone.\<close>

definition sessions_ok :: "mirage_state \<Rightarrow> bool" where
  "sessions_ok st \<longleftrightarrow>
     (\<forall>session k. mi_sessions st session = Some k \<longleftrightarrow> mi_running st k = Some session) \<and>
     (\<forall>k. mi_next st \<le> k \<longrightarrow> mi_running st k = None \<and> mi_up st k = [] \<and> k \<notin> mi_closed st) \<and>
     (\<forall>j k body. mi_posts st j = Some (k, body) \<longrightarrow> k < mi_next st)"

lemma sessions_ok_new: "sessions_ok (new_mirage_handler path)"
  by (simp add: sessions_ok_def new_mirage_handler_def)

lemma sessions_running:
  assumes "sessions_ok st"
  shows "mi_sessions st session = Some k \<longleftrightarrow> mi_running st k = Some session" "mi_running st k = Some session \<Longrightarrow> k < mi_next st"
proof -
  show "mi_sessions st session = Some k \<longleftrightarrow> mi_running st k = Some session" using assms by (simp add: sessions_ok_def)
  show "k < mi_next st" if "mi_running st k = Some session"
    using assms that unfolding sessions_ok_def by (metis not_le option.distinct(1))
qed

lemma posts_below: "sessions_ok st \<Longrightarrow> mi_posts st j = Some (k, body) \<Longrightarrow> k < mi_next st"
  unfolding sessions_ok_def by blast

text \<open>What a step may do to the pumps that are there.\<close>

definition pumps_grow :: "mirage_state \<Rightarrow> mirage_state \<Rightarrow> bool" where
  "pumps_grow st st' \<longleftrightarrow>
     mi_next st \<le> mi_next st' \<and> mi_closed st \<subseteq> mi_closed st' \<and>
     (\<forall>k. \<exists>s. mi_up st' k = mi_up st k @ s) \<and> (\<forall>k\<in>mi_closed st. mi_up st' k = mi_up st k) \<and>
     (\<forall>k<mi_next st. mi_running st' k = None \<or> mi_running st' k = mi_running st k)"

lemma pumps_grow_refl: "pumps_grow st st"
  by (simp add: pumps_grow_def)

lemma pumps_grow_trans:
  assumes "pumps_grow st st1" "pumps_grow st1 st2"
  shows "pumps_grow st st2"
  unfolding pumps_grow_def
proof (intro conjI allI ballI impI)
  show "mi_next st \<le> mi_next st2" "mi_closed st \<subseteq> mi_closed st2" using assms by (auto simp: pumps_grow_def)
  show "\<exists>s. mi_up st2 k = mi_up st k @ s" for k using assms unfolding pumps_grow_def by (metis append_assoc)
  show "mi_up st2 k = mi_up st k" if "k \<in> mi_closed st" for k using assms that unfolding pumps_grow_def by (metis subsetD)
  show "mi_running st2 k = None \<or> mi_running st2 k = mi_running st k" if "k < mi_next st" for k
    using assms that unfolding pumps_grow_def by (metis less_le_trans)
qed

lemma uplink_write_grows:
  "mi_running (snd (uplink_write k body st)) = mi_running st" "mi_sessions (snd (uplink_write k body st)) = mi_sessions st"
  "mi_next (snd (uplink_write k body st)) = mi_next st" "mi_closed (snd (uplink_write k body st)) = mi_closed st"
  "mi_posts (snd (uplink_write k body st)) = mi_posts st"
  "mi_up (snd (uplink_write k body st)) = (if k \<in> mi_closed st then mi_up st else (mi_up st)(k := mi_up st k @ body))"
  by (auto simp: uplink_write_def)

lemma uplink_interrupted_grows:
  "mi_running (uplink_interrupted k body n st) = mi_running st" "mi_sessions (uplink_interrupted k body n st) = mi_sessions st"
  "mi_next (uplink_interrupted k body n st) = mi_next st" "mi_closed (uplink_interrupted k body n st) = insert k (mi_closed st)"
  "mi_posts (uplink_interrupted k body n st) = mi_posts st"
  "mi_up (uplink_interrupted k body n st) =
     (if k \<in> mi_closed st then mi_up st else (mi_up st)(k := mi_up st k @ take n body))"
  by (auto simp: uplink_interrupted_def insert_absorb)

lemmas post_effects = uplink_write_grows uplink_interrupted_grows

lemma handle_downlink_sessions:
  assumes "sessions_ok st"
  shows "sessions_ok (snd (handle_downlink flush auth session st)) \<and> pumps_grow st (snd (handle_downlink flush auth session st))"
proof (cases "auth = None \<or> \<not> flush \<or> mi_sessions st session \<noteq> None")
  case True
  then show ?thesis using assms by (auto simp: handle_downlink_def pumps_grow_refl split: option.splits)
next
  case False
  then obtain a where a: "auth = Some a" "flush" "mi_sessions st session = None" by auto
  have n: "mi_running st (mi_next st) = None" "\<And>s. mi_sessions st s \<noteq> Some (mi_next st)" "\<And>k. mi_running st k \<noteq> Some session"
    using assms a(3) unfolding sessions_ok_def by (metis le_refl option.distinct(1))+
  have "sessions_ok (snd (handle_downlink flush auth session st))"
    unfolding sessions_ok_def
  proof (intro conjI allI)
    fix s k
    show "mi_sessions (snd (handle_downlink flush auth session st)) s = Some k \<longleftrightarrow>
        mi_running (snd (handle_downlink flush auth session st)) k = Some s"
      using a n sessions_running(1) [OF assms, of s k] by (auto simp: handle_downlink_def)
  qed (use a assms in \<open>fastforce simp: handle_downlink_def sessions_ok_def\<close>)+
  then show ?thesis using a by (auto simp: handle_downlink_def pumps_grow_def)
qed

lemma mirage_step_sessions:
  assumes "mirage_step st st'" "sessions_ok st"
  shows "sessions_ok st' \<and> pumps_grow st st'"
  using assms(1)
proof (cases rule: mirage_step.cases)
  case (get auth session)
  then show ?thesis using handle_downlink_sessions [OF assms(2)] by simp
next
  case (deletes k session)
  have u: "mi_sessions st s = Some k' \<longleftrightarrow> mi_running st k' = Some s" for s k' by (rule sessions_running(1) [OF assms(2)])
  have "mi_sessions st' s = Some k' \<longleftrightarrow> mi_running st' k' = Some s" for s k'
    using u [of s k'] u [of session k] u [of s k] u [of session k'] deletes by (auto simp: downlink_deletes_def)
  then have "sessions_ok st'" using deletes assms(2) by (auto simp: sessions_ok_def downlink_deletes_def)
  then show ?thesis using deletes by (auto simp: pumps_grow_def downlink_deletes_def)
next
  case (closes k)
  then show ?thesis using assms(2) by (auto simp: sessions_ok_def pumps_grow_def pump_closes_def)
next
  case (looks_up session k j body)
  then have "k < mi_next st" using sessions_running [OF assms(2)] by blast
  then show ?thesis using looks_up assms(2) by (auto simp: sessions_ok_def pumps_grow_def)
next
  case (fails j k body)
  then show ?thesis using assms(2) by (auto simp: sessions_ok_def pumps_grow_def)
next
  case (writes j k body)
  have "k < mi_next st" using posts_below [OF assms(2)] writes by blast
  then show ?thesis using writes assms(2) by (auto simp: sessions_ok_def pumps_grow_def post_effects)
next
  case (interrupted j k body n)
  have "k < mi_next st" using posts_below [OF assms(2)] interrupted by blast
  then show ?thesis using interrupted assms(2) by (auto simp: sessions_ok_def pumps_grow_def post_effects)
qed

lemma mirage_steps_sessions: "mirage_step\<^sup>*\<^sup>* st st' \<Longrightarrow> sessions_ok st \<Longrightarrow> sessions_ok st' \<and> pumps_grow st st'"
  by (induction rule: rtranclp_induct) (auto simp: pumps_grow_refl dest: mirage_step_sessions intro: pumps_grow_trans)

lemma mirage_steps_path: "mirage_step\<^sup>*\<^sup>* st st' \<Longrightarrow> mi_path st' = mi_path st"
proof (induction rule: rtranclp_induct)
  case (step st' st'')
  from step(2) have "mi_path st'' = mi_path st'"
    by (cases rule: mirage_step.cases)
       (auto simp: handle_downlink_def downlink_deletes_def pump_closes_def uplink_write_def uplink_interrupted_def
          split: option.splits)
  with step show ?case by simp
qed simp



section \<open>Requests of the client at the server\<close>

lemma split_slash:
  "CHR ''/'' \<notin> set a \<Longrightarrow> split_loop ''/'' acc (a @ CHR ''/'' # r) = (rev acc @ a) # split_loop ''/'' [] r"
proof (induction a arbitrary: acc)
  case Nil
  show ?case by (subst split_loop.simps) (simp add: has_prefix_def)
next
  case (Cons c a)
  then show ?case by (subst split_loop.simps) (auto simp: has_prefix_def)
qed

lemma split_plain: "CHR ''/'' \<notin> set a \<Longrightarrow> split_loop ''/'' acc a = [rev acc @ a]"
proof (induction a arbitrary: acc)
  case Nil
  show ?case by (subst split_loop.simps) simp
next
  case (Cons c a)
  then show ?case by (subst split_loop.simps) (auto simp: has_prefix_def)
qed

lemma trim_both_plain:
  assumes "a \<noteq> []" "CHR ''/'' \<notin> set a" "b \<noteq> []" "CHR ''/'' \<notin> set b"
  shows "trim_both CHR ''/'' (CHR ''/'' # a) = a" "trim_both CHR ''/'' (CHR ''/'' # a @ CHR ''/'' # b) = a @ CHR ''/'' # b"
proof -
  have front: "dropWhile (\<lambda>d. d = CHR ''/'') (x @ r) = x @ r" if "x \<noteq> []" "CHR ''/'' \<notin> set x" for x r
    using that by (cases x) auto
  have rear: "trim_right CHR ''/'' (r @ x) = r @ x" if "x \<noteq> []" "CHR ''/'' \<notin> set x" for x r
    using front [of "rev x" "rev r"] that by (simp add: trim_right_def)
  show "trim_both CHR ''/'' (CHR ''/'' # a) = a"
    using front [OF assms(1,2), of "[]"] rear [OF assms(1,2), of "[]"] by (simp add: trim_both_def)
  show "trim_both CHR ''/'' (CHR ''/'' # a @ CHR ''/'' # b) = a @ CHR ''/'' # b"
    using front [OF assms(1,2), of "CHR ''/'' # b"] rear [OF assms(3,4), of "a @ [CHR ''/'']"] by (simp add: trim_both_def)
qed

lemma digit_no_slash: "d < 16 \<Longrightarrow> digit_char d \<noteq> CHR ''/''"
  by (auto simp: digit_char_def of_char_of dest!: arg_cong [where f = "of_char :: char \<Rightarrow> nat"])

lemma show_nat_no_slash: "CHR ''/'' \<notin> set (show_nat n)"
  by (induction n rule: show_nat.induct) (subst show_nat.simps, auto dest!: digit_no_slash [OF order.strict_trans2] simp: digit_no_slash [symmetric])

lemma hex_encode_no_slash: "CHR ''/'' \<notin> set (hex_encode bs)"
  by (induction bs) (auto simp: hex_encode_def digit_no_slash [symmetric] less_mult_imp_div_less)

text \<open>A request on the handler's own path is taken for what it is.\<close>

definition session_name :: "string \<Rightarrow> bool" where
  "session_name s \<longleftrightarrow> s \<noteq> '''' \<and> CHR ''/'' \<notin> set s"

lemma random_session_name: "random_session_id (Some b) = Some s \<Longrightarrow> b \<noteq> [] \<Longrightarrow> session_name s"
  using hex_encode_no_slash [of b] by (cases b) (auto simp: random_session_id_def session_name_def hex_encode_def)

lemma below_path: "has_prefix (p @ ''/'' @ r) (p @ ''/'')" "trim_prefix (p @ ''/'' @ r) p = CHR ''/'' # r"
  using has_prefix_append [of "p @ ''/''" r] trim_prefix_append [of p "''/'' @ r"] by simp_all

lemma route_get:
  "session_name s \<Longrightarrow> mirage_route (mirage_normalize_path path) (mirage_get path s auth remote) = Downlink s"
  using trim_both_plain(1) [of s s]
  by (simp add: mirage_route_def mirage_get_def below_path [simplified] session_name_def split_str_def split_plain Let_def)

lemma route_post:
  "session_name s \<Longrightarrow> mirage_route (mirage_normalize_path path) (mirage_post path s auth remote seq d) = Uplink s"
  using trim_both_plain(2) [of s "show_nat (unat seq)"] show_nat_no_slash [of "unat seq"]
  by (simp add: mirage_route_def mirage_post_def below_path [simplified] session_name_def split_str_def split_slash
      split_plain Let_def)

lemma bearer_authenticated:
  assumes "credentials_current psk t0 nonce env am" "GenerateAuthPayload psk t0 (Some nonce) = Some d"
    and "en_addr env = remoteAddrOf r" "rq_auth r = ''Bearer '' @ b64_encode b64_std d"
  shows "\<exists>session am'. mirage_authenticate (en_order env) (en_rate env) (en_now env) r am = (Some session, am')"
proof -
  obtain session am' where v: "length d = 56"
    "ValidateAuth (en_order env) (en_rate env) (en_now env) d (remoteAddrOf r) am = (Ok session, am')"
    using credentials_accepted [OF assms(1,2)] assms(3) by metis
  have "b64_encode b64_std d \<noteq> []" using length_b64_encode [of b64_std d] v(1) by auto
  moreover have "trim_prefix (rq_auth r) ''Bearer '' = b64_encode b64_std d"
    unfolding assms(4) by (rule trim_prefix_append)
  moreover have "b64_decode b64_std (b64_encode b64_std d) = Some d" by (simp add: b64_padded_roundtrip)
  ultimately show ?thesis using v by (simp add: mirage_authenticate_def)
qed

section \<open>The upload\<close>

text \<open>The HTTP exchange of the upload with the handler itself, and the statuses of its replies.\<close>

fun reply_status :: "mirage_reply \<Rightarrow> nat" where
  "reply_status ReplyDecoy = 404"
| "reply_status (ReplyStatus n) = n"
| "reply_status (ReplyStream _ _) = 200"

definition post_to_handler ::
  "request_env \<Rightarrow> string \<Rightarrow> string \<Rightarrow> string \<Rightarrow> string \<Rightarrow> u64 \<Rightarrow> bytes \<Rightarrow> auth_manager \<times> mirage_state \<Rightarrow>
   nat option \<times> auth_manager \<times> mirage_state" where
  "post_to_handler env path session auth remote seq d h =
     (case mirage_ServeHTTP (en_order env) (en_rate env) (en_now env) True (mirage_post path session auth remote seq d) h of
        (reply, h') \<Rightarrow> (Some (reply_status reply), h'))"

definition into_pump :: "nat \<Rightarrow> bytes \<Rightarrow> mirage_state \<Rightarrow> mirage_state" where
  "into_pump k d st = st\<lparr>mi_up := (mi_up st)(k := mi_up st k @ d)\<rparr>"

lemma into_pump_simps [simp]:
  "into_pump k [] st = st" "into_pump k e (into_pump k d st) = into_pump k (d @ e) st"
  "mi_sessions (into_pump k d st) = mi_sessions st" "mi_closed (into_pump k d st) = mi_closed st"
  "mi_path (into_pump k d st) = mi_path st"
  by (simp_all add: into_pump_def)

lemma post_taken:
  assumes "mi_path st = mirage_normalize_path path" "session_name s" "mi_sessions st s = Some k" "k \<notin> mi_closed st"
    and "d \<noteq> []" "length d \<le> mirage_chunk_size"
  shows "post_to_handler env path s auth remote seq d (am, st) = (Some 200, am, into_pump k d st)"
proof -
  have "take mirage_max_body d = d" using assms(6) by (simp add: mirage_max_body_def mirage_chunk_size_def)
  then show ?thesis
    using assms route_post [OF assms(2), of path auth remote seq d]
    by (simp add: post_to_handler_def mirage_ServeHTTP_def handle_uplink_def uplink_write_def mirage_post_def into_pump_def)
qed

context byte_reader
begin

lemma uplink_loop_delivers:
  assumes "valid s" "I h"
    and post: "\<And>seq d h. I h \<Longrightarrow> d \<noteq> [] \<Longrightarrow> length d \<le> mirage_chunk_size \<Longrightarrow> post seq d h = (Some 200, put d h)"
    and put: "\<And>d h. I h \<Longrightarrow> I (put d h)" "\<And>d e h. put e (put d h) = put (d @ e) h" "\<And>h. put [] h = h"
  shows "\<exists>s'. mirage_uplink_loop rd post seq s h = Some (s', put (pending s) h) \<and> pending s' = []"
  using assms(1,2)
proof (induction "weight s" arbitrary: s h seq rule: less_induct)
  case less
  obtain r s1 where r: "rd mirage_chunk_size s = (r, s1)" by fastforce
  have pos: "0 < mirage_chunk_size" by (simp add: mirage_chunk_size_def)
  have v1: "valid s1" using valid_step [OF less.prems(1) r] .
  show ?case
  proof (cases r)
    case (Fail e)
    then show ?thesis
      using fail_end [OF less.prems(1) pos r [unfolded Fail]] r by (subst mirage_uplink_loop.simps) (simp add: put(3))
  next
    case (Got d)
    note rd = r [unfolded Got]
    have p: "pending s = d @ pending s1" and l: "length d \<le> mirage_chunk_size" and w: "weight s1 < weight s"
      using got_pending [OF less.prems(1) rd] got_length [OF less.prems(1) rd] got_progress [OF less.prems(1) pos rd] by simp_all
    have "\<exists>s'. mirage_uplink_loop rd post seq s1 h = Some (s', put (pending s1) h) \<and> pending s' = []" if "I h" for seq h
      using less.hyps [OF w v1 that] .
    from this [OF less.prems(2)] this [OF put(1) [OF less.prems(2), of d]] show ?thesis
      using rd p put(1,2) less.prems(2) post [OF less.prems(2) _ l] by (subst mirage_uplink_loop.simps) (cases "d = []"; simp)
  qed
qed

end

text \<open>C15. An upload arrives whole, in order, and nowhere else. The download of a client with current credentials, under the
  random name it drew, is answered with a stream on a pump of its own, unless the name is in use; and then the
  upload loop, however its input is cut, puts exactly the bytes the client writes into that pump, and changes
  nothing else, as long as the download runs.\<close>

theorem mirage_upload_delivers:
  assumes "random_session_id (Some b) = Some s" "length b = 16"
    and "credentials_current psk t0 nonce env am" "GenerateAuthPayload psk t0 (Some nonce) = Some d"
    and "get = mirage_get path s (b64_encode b64_std d) remote" "en_addr env = remoteAddrOf get"
    and "mirage_step\<^sup>*\<^sup>* (new_mirage_handler path) st" "mi_sessions st s = None"
    and "en_order env = order" "en_rate env = t_rate" "en_now env = now"
  shows "\<exists>k session am' st'. mirage_ServeHTTP order t_rate now True get (am, st) = (ReplyStream k session, am', st') \<and>
    mi_sessions st' = (mi_sessions st)(s \<mapsto> k) \<and> (\<forall>s'. mi_sessions st s' \<noteq> Some k) \<and> mi_up st' k = [] \<and>
    (\<forall>c seq auth. \<exists>c'. mirage_uplink_loop conn_read (post_to_handler env path s auth remote) seq c (am', st') =
       Some (c', am', st'\<lparr>mi_up := (mi_up st')(k := concat (arriving c))\<rparr>) \<and> concat (arriving c') = [])"
proof -
  have ok: "sessions_ok st" using mirage_steps_sessions [OF assms(7) sessions_ok_new] by blast
  have path: "mi_path st = mirage_normalize_path path"
    using mirage_steps_path [OF assms(7)] by (simp add: new_mirage_handler_def)
  have name: "session_name s" by (rule random_session_name [OF assms(1)]) (use assms(2) in auto)
  obtain session am' where a: "mirage_authenticate order t_rate now get am = (Some session, am')"
       using bearer_authenticated [OF assms(3,4,6)] assms(5,9-11) by (auto simp: mirage_get_def)
  define k where "k = mi_next st"
  define st' where "st' = snd (handle_downlink True (Some session) s st)"
  have st': "handle_downlink True (Some session) s st = (ReplyStream k session, st')" "mi_sessions st' = (mi_sessions st)(s \<mapsto> k)"
    "mi_up st' = mi_up st" "mi_closed st' = mi_closed st" "mi_path st' = mi_path st"
    using assms(8) by (simp_all add: st'_def k_def handle_downlink_def)
  have fresh: "mi_up st k = []" "k \<notin> mi_closed st" using ok by (simp_all add: sessions_ok_def k_def)
  have own: "mi_sessions st s' \<noteq> Some k" for s'
    using sessions_running [OF ok] by (auto simp: k_def)
  have serve: "mirage_ServeHTTP order t_rate now True get (am, st) = (ReplyStream k session, am', st')"
    using a st'(1) route_get [OF name, of path "b64_encode b64_std d" remote] by (simp add: mirage_ServeHTTP_def assms(5) path)
  have "\<exists>c'. mirage_uplink_loop conn_read (post_to_handler env path s auth remote) seq c (am', st') =
      Some (c', am', into_pump k (concat (arriving c)) st') \<and> concat (arriving c') = []" for c seq auth
  proof -
    let ?I = "\<lambda>(a, x). a = am' \<and> mi_path x = mirage_normalize_path path \<and> mi_sessions x s = Some k \<and> k \<notin> mi_closed x"
    have "\<exists>c'. mirage_uplink_loop conn_read (post_to_handler env path s auth remote) seq c (am', st') =
        Some (c', (\<lambda>e (a, x). (a, into_pump k e x)) (concat (arriving c)) (am', st')) \<and> concat (arriving c') = []"
      by (rule net_in.uplink_loop_delivers [where I = ?I])
         (use st' path fresh name in \<open>auto simp: post_taken split: prod.splits\<close>)
    then show ?thesis by simp
  qed
  then show ?thesis
    using serve st' fresh own by (auto simp: into_pump_def)
qed

theorem mirage_upload_delivers_witness:
  "\<exists>s d k session am' st'. random_session_id (Some (replicate 16 0)) = Some s \<and>
     GenerateAuthPayload ''k'' 59000000000 (Some (replicate 24 7)) = Some d \<and>
     mirage_ServeHTTP (en_order sample_request) (en_rate sample_request) (en_now sample_request) True
       (mirage_get ''v'' s (b64_encode b64_std d) ''peer'') (sample_manager, new_mirage_handler ''v'') =
       (ReplyStream k session, am', st') \<and>
     (\<exists>c'. mirage_uplink_loop conn_read
         (post_to_handler (sample_request\<lparr>en_addr := TCPAddr [] 0\<rparr>) ''v'' s '''' ''peer'') 0
         \<lparr>arriving = [[1, 2], [3]], ending = EOF\<rparr> (am', st') =
       Some (c', am', st'\<lparr>mi_up := (mi_up st')(k := [1, 2, 3])\<rparr>))"
proof -
  obtain s where s: "random_session_id (Some (replicate 16 0)) = Some s" by (simp add: random_session_id_def)
  obtain d where d: "GenerateAuthPayload ''k'' 59000000000 (Some (replicate 24 7)) = Some d"
    by (simp add: GenerateAuthPayload_def)
  have addr: "TCPAddr [] 0 = remoteAddrOf (mirage_get ''v'' s (b64_encode b64_std d) ''peer'')"
    by (simp add: remoteAddrOf_def mirage_get_def split_host_port_def parse_ip_def index_of.simps)
  have "\<exists>k session am' st'. mirage_ServeHTTP (en_order sample_request) (en_rate sample_request) (en_now sample_request) True
      (mirage_get ''v'' s (b64_encode b64_std d) ''peer'') (sample_manager, new_mirage_handler ''v'') =
      (ReplyStream k session, am', st') \<and>
    mi_sessions st' = (mi_sessions (new_mirage_handler ''v''))(s \<mapsto> k) \<and>
    (\<forall>s'. mi_sessions (new_mirage_handler ''v'') s' \<noteq> Some k) \<and> mi_up st' k = [] \<and>
    (\<forall>c seq auth. \<exists>c'. mirage_uplink_loop conn_read
       (post_to_handler (sample_request\<lparr>en_addr := TCPAddr [] 0\<rparr>) ''v'' s auth ''peer'') seq c (am', st') =
       Some (c', am', st'\<lparr>mi_up := (mi_up st')(k := concat (arriving c))\<rparr>) \<and> concat (arriving c') = [])"
    by (rule mirage_upload_delivers [OF s _ sample_current d refl])
       (simp_all add: addr new_mirage_handler_def)
  then obtain k session am' st' where k: "mirage_ServeHTTP (en_order sample_request) (en_rate sample_request) (en_now sample_request) True
      (mirage_get ''v'' s (b64_encode b64_std d) ''peer'') (sample_manager, new_mirage_handler ''v'') =
      (ReplyStream k session, am', st')"
    and up: "\<forall>c seq auth. \<exists>c'. mirage_uplink_loop conn_read
       (post_to_handler (sample_request\<lparr>en_addr := TCPAddr [] 0\<rparr>) ''v'' s auth ''peer'') seq c (am', st') =
       Some (c', am', st'\<lparr>mi_up := (mi_up st')(k := concat (arriving c))\<rparr>) \<and> concat (arriving c') = []" by blast
  from up [rule_format, of "''''" 0 "\<lparr>arriving = [[1, 2], [3]], ending = EOF\<rparr>"] s d k show ?thesis by auto
qed

end
