(* ===== verification/Masque.thy ===== *)
theory Masque
  imports Mirage
begin

text \<open>
  \<^verbatim>\<open>core/transport/masque.go\<close>: a connection as the stream of an extended CONNECT request of HTTP/3. QUIC and the
  HTTP/3 package are parameters; the credentials travel in the request's header, the address header and the
  status byte on the stream.
\<close>

section \<open>Requests\<close>

definition masque_default_path :: string where "masque_default_path = ''/.well-known/masque/udp/''"
definition masque_proto :: string where "masque_proto = ''connect-udp''"

definition masque_normalize_path :: "string \<Rightarrow> string" where
  "masque_normalize_path p =
     (if p = '''' then masque_default_path
      else if \<not> has_prefix p ''/'' then ''/'' @ p else p)"

record masque_request = http_request +
  rq_host :: string
  rq_proto :: string
  rq_capsule :: string

definition masque_connect_request :: "string \<Rightarrow> string \<Rightarrow> string \<Rightarrow> string \<Rightarrow> masque_request" where
  "masque_connect_request sni path auth_b64 remote =
     \<lparr>rq_method = ''CONNECT'', rq_path = masque_normalize_path path, rq_auth = ''Bearer '' @ auth_b64, rq_remote = remote,
      rq_body = [], rq_fails = False, rq_host = sni, rq_proto = masque_proto, rq_capsule = ''?1''\<rparr>"

section \<open>The client\<close>

datatype masque_error =
    MasqueResolve | MasqueListen | MasqueQUIC | MasqueSettings | MasqueNoConnect
  | MasqueStream | MasqueSend | MasqueResponse | MasqueRejected nat | MasqueVpn vpn_error

text \<open>The connection to the HTTP/3 server: \<open>h3_settings\<close> is its setting for extended CONNECT, if it sends its settings in time.\<close>

record 'q h3_env =
  h3_resolve :: "string \<Rightarrow> net_addr option"
  h3_listen :: bool
  h3_dial :: "net_addr \<Rightarrow> string \<Rightarrow> bool \<Rightarrow> 'q option"
  h3_settings :: "'q \<Rightarrow> bool option"

definition masque_new_client_conn ::
  "'q h3_env \<Rightarrow> string \<Rightarrow> string \<Rightarrow> bool \<Rightarrow> (masque_error, 'q) outcome" where
  "masque_new_client_conn env server_addr sni insecure =
     (case h3_resolve env server_addr of
        None \<Rightarrow> Err MasqueResolve
      | Some udp_addr \<Rightarrow>
          if \<not> h3_listen env then Err MasqueListen
          else (case h3_dial env udp_addr sni insecure of
             None \<Rightarrow> Err MasqueQUIC
           | Some qconn \<Rightarrow>
               (case h3_settings env qconn of
                  None \<Rightarrow> Err MasqueSettings
                | Some extended \<Rightarrow> if \<not> extended then Err MasqueNoConnect else Ok qconn)))"

text \<open>One stream: whether it opens, whether the header goes out, and the response to it with the stream that follows.\<close>

record h3_stream =
  hs_opens :: bool
  hs_sends :: bool
  hs_answer :: "masque_request \<Rightarrow> (nat \<times> endpoint) option"

definition masque_open_stream ::
  "h3_stream \<Rightarrow> string \<Rightarrow> time \<Rightarrow> bytes option \<Rightarrow> string \<Rightarrow> string \<Rightarrow> string \<Rightarrow> byte \<Rightarrow> string \<Rightarrow> u16 \<Rightarrow>
   (masque_error, endpoint) outcome option" where
  "masque_open_stream hs remote now nonce sni path psk addr_type addr port =
     (if \<not> hs_opens hs then Some (Err MasqueStream)
      else case GenerateAuthPayload psk now nonce of
        None \<Rightarrow> Some (Err (MasqueVpn VpnAuthGeneration))
      | Some auth \<Rightarrow>
          if \<not> hs_sends hs then Some (Err MasqueSend)
          else (case hs_answer hs (masque_connect_request sni path (b64_encode b64_std auth) remote) of
             None \<Rightarrow> Some (Err MasqueResponse)
           | Some (status, conn) \<Rightarrow>
               if status \<noteq> 200 then Some (Err (MasqueRejected status))
               else (case ep_write (EncodeAddress addr_type addr port) conn of
                  (Some e, _) \<Rightarrow> Some (Err (MasqueVpn (VpnAddressWrite e)))
                | (None, conn1) \<Rightarrow>
                    map_option (\<lambda>r. case r of Ok c \<Rightarrow> Ok c | Err e \<Rightarrow> Err (MasqueVpn e) | Panic \<Rightarrow> Panic) (read_status conn1))))"

section \<open>The server\<close>

definition masque_authenticate ::
  "string list \<Rightarrow> time \<Rightarrow> time \<Rightarrow> 'a http_request_scheme \<Rightarrow> auth_manager \<Rightarrow> auth_session option \<times> auth_manager" where
  "masque_authenticate order t_rate now r am =
     (let token = trim_prefix (rq_auth r) ''Bearer '' in
      if token = '''' then (None, am)
      else case b64_decode b64_std token of
        None \<Rightarrow> (None, am)
      | Some data \<Rightarrow>
          if length data < 56 then (None, am)
          else (case ValidateAuth order t_rate now (take 56 data) (remoteAddrOf r) am of
             (Ok session, am') \<Rightarrow> (Some session, am')
           | (_, am') \<Rightarrow> (None, am')))"

text \<open>The decoy, a status, or a session on the request's stream; \<open>streams\<close> tells whether the response writer
  gives access to the stream.\<close>

datatype masque_reply = MasqueDecoy | MasqueStatus nat | MasqueSession auth_session

definition masque_ServeHTTP ::
  "string list \<Rightarrow> time \<Rightarrow> time \<Rightarrow> bool \<Rightarrow> 'a http_request_scheme \<Rightarrow> auth_manager \<Rightarrow> masque_reply \<times> auth_manager" where
  "masque_ServeHTTP order t_rate now streams r am =
     (if rq_method r \<noteq> ''CONNECT'' then (MasqueDecoy, am)
      else case masque_authenticate order t_rate now r am of
        (None, am') \<Rightarrow> (MasqueDecoy, am')
      | (Some session, am') \<Rightarrow> if \<not> streams then (MasqueStatus 500, am') else (MasqueSession session, am'))"

fun masque_status :: "masque_reply \<Rightarrow> nat" where
  "masque_status MasqueDecoy = fst mirage_serve_decoy"
| "masque_status (MasqueStatus n) = n"
| "masque_status (MasqueSession _) = 200"

section \<open>Both ends\<close>

text \<open>The two handlers check credentials alike.\<close>

lemma masque_mirage_authenticate: "masque_authenticate = mirage_authenticate"
  by (simp add: fun_eq_iff masque_authenticate_def mirage_authenticate_def)

text \<open>C16. A stream over HTTP/3 opens. The request a client with current credentials sends is answered with 200 and a session, for
  whatever path and protocol it names; the client then writes exactly the address header and reads the
  status byte: 0 gives the connection, positioned after the status, and any other byte the error it stands for. A request that is
  not a CONNECT, or whose token is not accepted, gets the decoy, and the client reports its status.\<close>

theorem masque_stream_opens:
  assumes "credentials_current psk t0 nonce env am" "GenerateAuthPayload psk t0 (Some nonce) = Some d"
    and "req = masque_connect_request sni path (b64_encode b64_std d) remote" "en_addr env = remoteAddrOf req"
    and "hs_opens hs" "hs_sends hs"
    and "hs_answer hs = (\<lambda>r. Some (masque_status (fst (masque_ServeHTTP (en_order env) (en_rate env) (en_now env) True r am)), conn))"
    and "lives (ep_out conn) = None" "concat (arriving (ep_in conn)) = b # bs"
  shows "(\<exists>session am'. \<forall>path' proto. masque_ServeHTTP (en_order env) (en_rate env) (en_now env) True
      (req\<lparr>rq_path := path', rq_proto := proto\<rparr>) am = (MasqueSession session, am')) \<and>
    (\<exists>conn'. masque_open_stream hs remote t0 (Some nonce) sni path psk addr_type addr port =
        Some (case dial_status b of Ok _ \<Rightarrow> Ok conn' | Err e \<Rightarrow> Err (MasqueVpn (VpnStatus e)) | Panic \<Rightarrow> Panic) \<and>
      taken (ep_out conn') = taken (ep_out conn) @ [EncodeAddress addr_type addr port] \<and>
      concat (arriving (ep_in conn')) = bs) \<and>
    (\<forall>r. rq_method r \<noteq> ''CONNECT'' \<or> fst (masque_authenticate (en_order env) (en_rate env) (en_now env) r am) = None \<longrightarrow>
      hs_answer hs r = Some (404, conn))"
proof (intro conjI allI impI)
  have auth: "rq_auth req = ''Bearer '' @ b64_encode b64_std d" by (simp add: assms(3) masque_connect_request_def)
  obtain session am' where a: "mirage_authenticate (en_order env) (en_rate env) (en_now env) req am = (Some session, am')"
    using bearer_authenticated [OF assms(1,2,4) auth] by blast
  have s: "masque_ServeHTTP (en_order env) (en_rate env) (en_now env) True
      (req\<lparr>rq_path := path', rq_proto := proto\<rparr>) am = (MasqueSession session, am')" for path' proto
  proof -
    have same: "rq_remote (req\<lparr>rq_path := path', rq_proto := proto\<rparr>) = rq_remote req"
      "rq_auth (req\<lparr>rq_path := path', rq_proto := proto\<rparr>) = rq_auth req" by simp_all
    have "mirage_authenticate (en_order env) (en_rate env) (en_now env) (req\<lparr>rq_path := path', rq_proto := proto\<rparr>) am =
        (Some session, am')"
      using a unfolding mirage_authenticate_def remoteAddrOf_def same .
    then show ?thesis
      by (simp add: masque_ServeHTTP_def masque_mirage_authenticate) (simp add: assms(3) masque_connect_request_def)
  qed
  then show "\<exists>session am'. \<forall>path' proto. masque_ServeHTTP (en_order env) (en_rate env) (en_now env) True
      (req\<lparr>rq_path := path', rq_proto := proto\<rparr>) am = (MasqueSession session, am')" by blast
  have "hs_answer hs req = Some (200, conn)"
    using s [where path' = "rq_path req" and proto = "rq_proto req"] by (simp add: assms(7))
  moreover obtain ep1 conn' where "ep_write (EncodeAddress addr_type addr port) conn = (None, ep1)"
    "read_status ep1 = Some (case dial_status b of Ok _ \<Rightarrow> Ok conn' | Err e \<Rightarrow> Err (VpnStatus e) | Panic \<Rightarrow> Panic)"
    "taken (ep_out conn') = taken (ep_out conn) @ [EncodeAddress addr_type addr port]" "concat (arriving (ep_in conn')) = bs"
    using header_answered [OF assms(8,9), of "EncodeAddress addr_type addr port"] by blast
  ultimately show "\<exists>conn'. masque_open_stream hs remote t0 (Some nonce) sni path psk addr_type addr port =
        Some (case dial_status b of Ok _ \<Rightarrow> Ok conn' | Err e \<Rightarrow> Err (MasqueVpn (VpnStatus e)) | Panic \<Rightarrow> Panic) \<and>
      taken (ep_out conn') = taken (ep_out conn) @ [EncodeAddress addr_type addr port] \<and>
      concat (arriving (ep_in conn')) = bs"
    using assms(2,5,6) by (intro exI [of _ conn']) (simp add: masque_open_stream_def assms(3) split: outcome.splits)
  show "hs_answer hs r = Some (404, conn)" if "rq_method r \<noteq> ''CONNECT'' \<or>
      fst (masque_authenticate (en_order env) (en_rate env) (en_now env) r am) = None" for r
    using that by (auto simp: assms(7) masque_ServeHTTP_def mirage_serve_decoy_def split: prod.splits option.splits)
qed

theorem masque_stream_opens_witness:
  "\<exists>conn'. masque_open_stream
     \<lparr>hs_opens = True, hs_sends = True, hs_answer = (\<lambda>r. Some (masque_status (fst (masque_ServeHTTP [''alice''] 0 60000000000 True r sample_manager)),
        sample_conn [[0, 9], [8]]))\<rparr> ''peer'' 59000000000 (Some (replicate 24 7)) ''example.org'' ''m'' ''k'' 1 ''h'' 80 =
     Some (Ok conn') \<and> concat (arriving (ep_in conn')) = [9, 8]"
proof -
  let ?env = "sample_request\<lparr>en_addr := TCPAddr [] 0\<rparr>"
  let ?hs = "\<lparr>hs_opens = True, hs_sends = True, hs_answer = (\<lambda>r. Some (masque_status (fst (masque_ServeHTTP [''alice''] 0 60000000000 True r sample_manager)),
        sample_conn [[0, 9], [8]]))\<rparr>"
  obtain d where d: "GenerateAuthPayload ''k'' 59000000000 (Some (replicate 24 7)) = Some d"
    by (simp add: GenerateAuthPayload_def)
  have e: "en_order ?env = [''alice'']" "en_rate ?env = 0" "en_now ?env = 60000000000"
    by (simp_all add: sample_request_def sample_env_def)
  have "en_addr ?env = remoteAddrOf (masque_connect_request ''example.org'' ''m'' (b64_encode b64_std d) ''peer'')"
    by (simp add: remoteAddrOf_def masque_connect_request_def split_host_port_def parse_ip_def)
  from masque_stream_opens [OF sample_current d refl this, where hs = ?hs and conn = "sample_conn [[0, 9], [8]]" and b = 0
      and bs = "[9, 8]" and addr_type = 1 and addr = "''h''" and port = 80, unfolded e]
  show ?thesis by (simp add: sample_conn_def dial_status_def) blast
qed

end
