(* ===== verification/WebRTC.thy ===== *)
theory WebRTC
  imports Masque
begin

text \<open>
  \<^verbatim>\<open>core/transport/webrtc.go\<close>: connections as data channels of one WebRTC peer connection, signalled by an authenticated
  HTTP request. A data channel carries messages; \<open>webrtc_conn\<close> makes a byte stream of it. The locale
  \<open>message_channel\<close> states what it relies on, and a sublocale that the result is a reader like any other. The WebRTC and JSON
  packages are parameters.
\<close>

section \<open>Names\<close>

definition webrtc_default_path :: string where "webrtc_default_path = ''/rtc/o''"
definition webrtc_chunk_size :: nat where "webrtc_chunk_size = 16 * 1024"
definition webrtc_scratch :: nat where "webrtc_scratch = 64 * 1024"
definition webrtc_default_stun :: "string list" where "webrtc_default_stun = [''stun:stun.l.google.com:19302'']"

definition webrtc_normalize_path :: "string \<Rightarrow> string" where
  "webrtc_normalize_path p =
     (if p = '''' then webrtc_default_path
      else if \<not> has_prefix p ''/'' then ''/'' @ p else p)"

text \<open>One list of URLs for every server that is named.\<close>

definition webrtc_ice_servers :: "string list \<Rightarrow> string list list" where
  "webrtc_ice_servers stun = map (\<lambda>s. [s]) (filter (\<lambda>s. s \<noteq> '''') stun)"

section \<open>A stream over messages\<close>

record 's webrtc_conn =
  wc_dc :: 's
  wc_rbuf :: bytes
  wc_out :: conn_out

definition new_webrtc_conn :: "'s \<Rightarrow> conn_out \<Rightarrow> 's webrtc_conn" where
  "new_webrtc_conn dc w = \<lparr>wc_dc = dc, wc_rbuf = [], wc_out = w\<rparr>"

text \<open>The next message that is not empty; \<open>rd\<close> reads one message into a buffer of the given size.\<close>

partial_function (option) webrtc_fill :: "(nat \<Rightarrow> 's \<Rightarrow> io_read \<times> 's) \<Rightarrow> 's \<Rightarrow> (io_read \<times> 's) option" where
  "webrtc_fill rd s =
     (case rd webrtc_scratch s of
        (Fail e, s') \<Rightarrow> Some (Fail e, s')
      | (Got d, s') \<Rightarrow> if d = [] then webrtc_fill rd s' else Some (Got d, s'))"

definition webrtc_Read ::
  "(nat \<Rightarrow> 's \<Rightarrow> io_read \<times> 's) \<Rightarrow> nat \<Rightarrow> 's webrtc_conn \<Rightarrow> (io_read \<times> 's webrtc_conn) option" where
  "webrtc_Read rd p c =
     (if wc_rbuf c \<noteq> [] then Some (Got (take p (wc_rbuf c)), c\<lparr>wc_rbuf := drop p (wc_rbuf c)\<rparr>)
      else map_option (\<lambda>(r, s). case r of
          Fail e \<Rightarrow> (Fail e, c\<lparr>wc_dc := s\<rparr>)
        | Got d \<Rightarrow> (Got (take p d), c\<lparr>wc_dc := s, wc_rbuf := drop p d\<rparr>)) (webrtc_fill rd (wc_dc c)))"

text \<open>The bytes written so far, the error if there was one, and the channel.\<close>

function webrtc_write_loop :: "nat \<Rightarrow> bytes \<Rightarrow> conn_out \<Rightarrow> nat \<times> io_error option \<times> conn_out" where
  "webrtc_write_loop n p w =
     (if \<not> 0 < length p then (n, None, w)
      else
        let chunk = (if webrtc_chunk_size < length p then take webrtc_chunk_size p else p) in
        (case conn_write chunk w of
           (Some e, w') \<Rightarrow> (n, Some e, w')
         | (None, w') \<Rightarrow> webrtc_write_loop (n + length chunk) (drop (length chunk) p) w'))"
  by pat_completeness auto
termination by (relation "measure (\<lambda>(_, p, _). length p)") (auto simp: webrtc_chunk_size_def)

declare webrtc_write_loop.simps [simp del]

definition webrtc_Write :: "bytes \<Rightarrow> 's webrtc_conn \<Rightarrow> nat \<times> io_error option \<times> 's webrtc_conn" where
  "webrtc_Write p c = (case webrtc_write_loop 0 p (wc_out c) of (n, e, w) \<Rightarrow> (n, e, c\<lparr>wc_out := w\<rparr>))"

text \<open>What a channel promises a reader with the connection's buffer: message after message, then its end.\<close>

locale message_channel =
  fixes rd :: "nat \<Rightarrow> 's \<Rightarrow> io_read \<times> 's"
    and valid :: "'s \<Rightarrow> bool"
    and messages :: "'s \<Rightarrow> bytes list"
    and fate :: "'s \<Rightarrow> io_error"
  assumes got_message: "valid s \<Longrightarrow> rd webrtc_scratch s = (Got d, s') \<Longrightarrow>
      messages s = d # messages s' \<and> fate s' = fate s \<and> valid s'"
    and channel_end: "valid s \<Longrightarrow> rd webrtc_scratch s = (Fail e, s') \<Longrightarrow>
      messages s = [] \<and> messages s' = [] \<and> e = fate s \<and> fate s' = fate s \<and> valid s'"
begin

lemma fill_next:
  assumes "valid s"
  shows "\<exists>s'. valid s' \<and> fate s' = fate s \<and>
    ((concat (messages s) = [] \<and> concat (messages s') = [] \<and> webrtc_fill rd s = Some (Fail (fate s), s')) \<or>
     (\<exists>d. d \<noteq> [] \<and> concat (messages s) = d @ concat (messages s') \<and> webrtc_fill rd s = Some (Got d, s')))"
  using assms
proof (induction "messages s" arbitrary: s)
  case Nil
  obtain r s' where r: "rd webrtc_scratch s = (r, s')" by fastforce
  show ?case
  proof (cases r)
    case (Got d)
    then show ?thesis using got_message [OF Nil(2) r [unfolded Got]] Nil(1) by simp
  next
    case (Fail e)
    then show ?thesis using channel_end [OF Nil(2) r [unfolded Fail]] r by (subst webrtc_fill.simps) auto
  qed
next
  case (Cons m ms)
  obtain r s1 where r: "rd webrtc_scratch s = (r, s1)" by fastforce
  show ?case
  proof (cases r)
    case (Fail e)
    then show ?thesis using channel_end [OF Cons(3) r [unfolded Fail]] Cons(2) by simp
  next
    case (Got d)
    have g: "messages s = d # messages s1" "fate s1 = fate s" "valid s1" using got_message [OF Cons(3) r [unfolded Got]] by simp_all
    show ?thesis
    proof (cases "d = []")
      case True
      have "webrtc_fill rd s = webrtc_fill rd s1" using r Got True by (subst webrtc_fill.simps) simp
      then show ?thesis using Cons(1) [of s1] Cons(2) g True by simp
    next
      case False
      have "webrtc_fill rd s = Some (Got d, s1)" using r Got False by (subst webrtc_fill.simps) simp
      then show ?thesis using g False by auto
    qed
  qed
qed

definition stream :: "'s webrtc_conn \<Rightarrow> bytes" where
  "stream c = wc_rbuf c @ concat (messages (wc_dc c))"

lemma read_stream:
  assumes "valid (wc_dc c)"
  shows "\<exists>r c'. webrtc_Read rd p c = Some (r, c') \<and> valid (wc_dc c') \<and> fate (wc_dc c') = fate (wc_dc c) \<and> wc_out c' = wc_out c \<and>
    ((r = Fail (fate (wc_dc c)) \<and> stream c = [] \<and> stream c' = []) \<or>
     (\<exists>d. r = Got d \<and> stream c = d @ stream c' \<and> length d \<le> p \<and> (0 < p \<longrightarrow> d \<noteq> [])))"
proof (cases "wc_rbuf c = []")
  case False
  then show ?thesis using assms by (auto simp: webrtc_Read_def stream_def)
next
  case True
  then show ?thesis using fill_next [OF assms] by (fastforce simp: webrtc_Read_def stream_def)
qed

end

sublocale message_channel \<subseteq> stream: byte_reader "\<lambda>p c. the (webrtc_Read rd p c)" "\<lambda>c. valid (wc_dc c)" stream
  "\<lambda>c. fate (wc_dc c)" "\<lambda>c. length (stream c)"
proof unfold_locales
  fix c c' :: "'s webrtc_conn" and p d e r
  assume v: "valid (wc_dc c)"
  show "stream c = d @ stream c'" "length d \<le> p" "fate (wc_dc c') = fate (wc_dc c)" if "the (webrtc_Read rd p c) = (Got d, c')"
    using read_stream [OF v, of p] that by auto
  show "length (stream c') < length (stream c)" if "0 < p" "the (webrtc_Read rd p c) = (Got d, c')"
    using read_stream [OF v, of p] that by auto
  show "stream c = [] \<and> stream c' = [] \<and> e = fate (wc_dc c) \<and> fate (wc_dc c') = fate (wc_dc c)"
    if "0 < p" "the (webrtc_Read rd p c) = (Fail e, c')"
    using read_stream [OF v, of p] that by auto
  show "valid (wc_dc c')" if "the (webrtc_Read rd p c) = (r, c')"
    using read_stream [OF v, of p] that by auto
qed

context message_channel
begin

text \<open>Reading leaves the other direction alone.\<close>

lemma read_full_out:
  assumes "valid (wc_dc c)" "read_full (\<lambda>p c. the (webrtc_Read rd p c)) n c = Some (r, c')"
  shows "wc_out c' = wc_out c"
proof -
  have "read_loop (\<lambda>p c. the (webrtc_Read rd p c)) n acc c = Some (r, c') \<Longrightarrow> valid (wc_dc c) \<Longrightarrow> wc_out c' = wc_out c" for acc
  proof (induction "length (stream c)" arbitrary: c acc rule: less_induct)
    case less
    show ?case
    proof (cases "n \<le> length acc")
      case True
      then show ?thesis using less.prems(1) by (subst (asm) read_loop.simps) simp
    next
      case False
      obtain x c1 where x: "webrtc_Read rd (n - length acc) c = Some (x, c1)" "valid (wc_dc c1)" "wc_out c1 = wc_out c"
        "\<And>d. x = Got d \<Longrightarrow> length (stream c1) < length (stream c)"
        using read_stream [OF less.prems(2), of "n - length acc"] False by fastforce
      show ?thesis
        using less.prems(1) False x less.hyps [OF x(4) _ x(2)]
        by (subst (asm) read_loop.simps) (cases x; fastforce)
    qed
  qed
  then show ?thesis using assms by (simp add: read_full_def)
qed

end

text \<open>The channel itself: the messages to come; a message that does not fit into the buffer is an error.\<close>

definition dc_read :: "nat \<Rightarrow> conn_in \<Rightarrow> io_read \<times> conn_in" where
  "dc_read n c =
     (case arriving c of
        [] \<Rightarrow> (Fail (ending c), c)
      | m # ms \<Rightarrow> (if length m \<le> n then Got m else Fail (IOFail 2), c\<lparr>arriving := ms\<rparr>))"

definition small_messages :: "conn_in \<Rightarrow> bool" where
  "small_messages c \<longleftrightarrow> list_all (\<lambda>m. length m \<le> webrtc_scratch) (arriving c)"

interpretation dc: message_channel dc_read small_messages arriving ending
  by unfold_locales (auto simp: dc_read_def small_messages_def split: list.splits if_splits)

section \<open>The client\<close>

datatype webrtc_error =
    RtcPeer | RtcChannel | RtcOffer | RtcLocal | RtcRemote | RtcTimeout
  | RtcMarshal | RtcSignalling | RtcSignalStatus nat | RtcAnswerDecode
  | RtcOpen | RtcOpenTimeout | RtcVpn vpn_error

text \<open>The signalling request: \<open>sg_marshal\<close> and \<open>sg_decode\<close> are \<^verbatim>\<open>encoding/json\<close> on session descriptions, \<open>sg_exchange\<close> the
  HTTPS client of \<^verbatim>\<open>mirage_http_client\<close> (address, host, fingerprint).\<close>

record 'd signal_env =
  sg_marshal :: "'d \<Rightarrow> bytes option"
  sg_decode :: "bytes \<Rightarrow> 'd option"
  sg_exchange :: "string \<Rightarrow> string \<Rightarrow> hello_id \<Rightarrow> bool \<Rightarrow> http_request \<Rightarrow> (nat \<times> bytes) option"
  sg_remote :: string
  sg_now :: time
  sg_nonce :: "bytes option"

definition webrtc_request :: "string \<Rightarrow> bytes \<Rightarrow> string \<Rightarrow> bytes \<Rightarrow> http_request" where
  "webrtc_request path auth remote body =
     \<lparr>rq_method = ''POST'', rq_path = webrtc_normalize_path path, rq_auth = ''Bearer '' @ b64_encode b64_std auth,
      rq_remote = remote, rq_body = body, rq_fails = False\<rparr>"

definition webrtc_signal ::
  "'d signal_env \<Rightarrow> string \<Rightarrow> string \<Rightarrow> string \<Rightarrow> string \<Rightarrow> string \<Rightarrow> 'd \<Rightarrow> bool \<Rightarrow> (webrtc_error, 'd) outcome" where
  "webrtc_signal env server_addr sni path fingerprint psk offer insecure =
     (case sg_marshal env offer of
        None \<Rightarrow> Err RtcMarshal
      | Some body \<Rightarrow>
          (case GenerateAuthPayload psk (sg_now env) (sg_nonce env) of
             None \<Rightarrow> Err (RtcVpn VpnAuthGeneration)
           | Some auth \<Rightarrow>
               (case sg_exchange env server_addr sni (reality_hello_id fingerprint) insecure
                   (webrtc_request path auth (sg_remote env) body) of
                  None \<Rightarrow> Err RtcSignalling
                | Some (status, reply) \<Rightarrow>
                    if status \<noteq> 200 then Err (RtcSignalStatus status)
                    else (case sg_decode env reply of None \<Rightarrow> Err RtcAnswerDecode | Some answer \<Rightarrow> Ok answer))))"

text \<open>The peer connection: what each of its steps gives. The result is an error, or a client, with whether a
  peer connection is left open.\<close>

record 'd peer_steps =
  ps_new :: "string list list \<Rightarrow> bool"
  ps_channel :: bool
  ps_offer :: "'d option"
  ps_local :: "'d \<Rightarrow> bool"
  ps_gathered :: 'd
  ps_remote :: "'d \<Rightarrow> bool"
  ps_connected :: bool

definition webrtc_dial ::
  "'d peer_steps \<Rightarrow> 'd signal_env \<Rightarrow> string \<Rightarrow> string \<Rightarrow> string \<Rightarrow> string \<Rightarrow> string \<Rightarrow> string list \<Rightarrow> bool \<Rightarrow>
   (webrtc_error, unit) outcome \<times> bool" where
  "webrtc_dial ps env server_addr sni path fingerprint psk stun insecure =
     (if \<not> ps_new ps (webrtc_ice_servers stun) then (Err RtcPeer, False)
      else if \<not> ps_channel ps then (Err RtcChannel, False)
      else case ps_offer ps of
        None \<Rightarrow> (Err RtcOffer, False)
      | Some offer \<Rightarrow>
          if \<not> ps_local ps offer then (Err RtcLocal, False)
          else (case webrtc_signal env server_addr sni path fingerprint psk (ps_gathered ps) insecure of
             Err e \<Rightarrow> (Err e, False)
           | Panic \<Rightarrow> (Panic, False)
           | Ok answer \<Rightarrow>
               if \<not> ps_remote ps answer then (Err RtcRemote, False)
               else if \<not> ps_connected ps then (Err RtcTimeout, False)
               else (Ok (), True)))"

text \<open>One connection through the client: what becomes of the channel it creates.\<close>

datatype channel_open = ChannelReady conn_in conn_out | ChannelFailed | ChannelSlow

definition webrtc_read_status :: "conn_in webrtc_conn \<Rightarrow> (webrtc_error, conn_in webrtc_conn) outcome option" where
  "webrtc_read_status conn =
     (case read_full (\<lambda>p c. the (webrtc_Read dc_read p c)) 1 conn of
        None \<Rightarrow> None
      | Some (Err e, _) \<Rightarrow> Some (Err (RtcVpn (VpnStatusRead e)))
      | Some (Panic, _) \<Rightarrow> Some Panic
      | Some (Ok status, conn') \<Rightarrow>
          Some (case dial_status (hd status) of
             Ok _ \<Rightarrow> Ok conn' | Err e \<Rightarrow> Err (RtcVpn (VpnStatus e)) | Panic \<Rightarrow> Panic))"

definition webrtc_open ::
  "channel_open option \<Rightarrow> byte \<Rightarrow> string \<Rightarrow> u16 \<Rightarrow> (webrtc_error, conn_in webrtc_conn) outcome option" where
  "webrtc_open dc addr_type addr port =
     (case dc of
        None \<Rightarrow> Some (Err RtcChannel)
      | Some ChannelFailed \<Rightarrow> Some (Err RtcOpen)
      | Some ChannelSlow \<Rightarrow> Some (Err RtcOpenTimeout)
      | Some (ChannelReady raw w) \<Rightarrow>
          (case webrtc_Write (EncodeAddress addr_type addr port) (new_webrtc_conn raw w) of
             (_, Some e, _) \<Rightarrow> Some (Err (RtcVpn (VpnAddressWrite e)))
           | (_, None, conn) \<Rightarrow> webrtc_read_status conn))"

section \<open>The server\<close>

record webrtc_handler =
  wh_path :: string
  wh_stun :: "string list"

text \<open>What the signalling handler meets: decoding the offer from the request's body, whose reading may fail; and its own peer
  connection.\<close>

record 'd answer_steps =
  an_decode :: "bytes \<Rightarrow> bool \<Rightarrow> 'd option"
  an_new :: "string list list \<Rightarrow> bool"
  an_remote :: "'d \<Rightarrow> bool"
  an_answer :: "'d option"
  an_local :: "'d \<Rightarrow> bool"
  an_description :: bytes

text \<open>The decoy, a status, or the answer with the session for the channels to come.\<close>

datatype webrtc_reply = RtcDecoy | RtcStatus nat | RtcAnswer bytes auth_session

definition webrtc_ServeHTTP ::
  "webrtc_handler \<Rightarrow> 'd answer_steps \<Rightarrow> string list \<Rightarrow> time \<Rightarrow> time \<Rightarrow> 'a http_request_scheme \<Rightarrow> auth_manager \<Rightarrow>
   webrtc_reply \<times> auth_manager" where
  "webrtc_ServeHTTP h an order t_rate now r am =
     (if rq_method r \<noteq> ''POST'' \<or> rq_path r \<noteq> wh_path h then (RtcDecoy, am)
      else case masque_authenticate order t_rate now r am of
        (None, am') \<Rightarrow> (RtcDecoy, am')
      | (Some session, am') \<Rightarrow>
          (case an_decode an (take (256 * 1024) (rq_body r)) (rq_fails r) of
             None \<Rightarrow> (RtcStatus 400, am')
           | Some offer \<Rightarrow>
               if \<not> an_new an (webrtc_ice_servers (wh_stun h)) then (RtcStatus 500, am')
               else if \<not> an_remote an offer then (RtcStatus 400, am')
               else (case an_answer an of
                  None \<Rightarrow> (RtcStatus 500, am')
                | Some answer \<Rightarrow>
                    if \<not> an_local an answer then (RtcStatus 500, am')
                    else (RtcAnswer (an_description an) session, am'))))"

fun webrtc_status :: "webrtc_reply \<Rightarrow> nat" where
  "webrtc_status RtcDecoy = fst mirage_serve_decoy"
| "webrtc_status (RtcStatus n) = n"
| "webrtc_status (RtcAnswer _ _) = 200"

fun webrtc_body :: "webrtc_reply \<Rightarrow> bytes" where
  "webrtc_body RtcDecoy = str_bytes mirage_decoy_body"
| "webrtc_body (RtcStatus _) = []"
| "webrtc_body (RtcAnswer d _) = d @ [10]"

text \<open>A channel the peer opens, with the detached channel if that works: the connection that is handed on.\<close>

definition on_data_channel ::
  "auth_session \<Rightarrow> string \<Rightarrow> ('s \<times> conn_out) option \<Rightarrow> ('s webrtc_conn \<times> auth_session) option" where
  "on_data_channel session label detached =
     (if label = ''keepalive'' then None
      else map_option (\<lambda>(raw, w). (new_webrtc_conn raw w, session)) detached)"

datatype peer_state = PeerNew | PeerConnecting | PeerConnected | PeerDisconnected | PeerFailed | PeerClosed

text \<open>The states in which the server closes its peer connection.\<close>

definition peer_ends :: "peer_state \<Rightarrow> bool" where
  "peer_ends state \<longleftrightarrow> state \<in> {PeerFailed, PeerClosed, PeerDisconnected}"

section \<open>Streams arrive\<close>

lemma write_loop_chunks:
  "webrtc_write_loop n p w = (m, e, w') \<Longrightarrow>
   \<exists>ms. taken w' = taken w @ ms \<and> n \<le> m \<and> concat ms = take (m - n) p \<and> (\<forall>c\<in>set ms. length c \<le> webrtc_chunk_size) \<and>
     m \<le> n + length p \<and> (e = None \<longrightarrow> m = n + length p) \<and> (lives w = None \<longrightarrow> e = None \<and> lives w' = None)"
proof (induction n p w arbitrary: m e w' rule: webrtc_write_loop.induct)
  case (1 n p w)
  show ?case
  proof (cases "p = []")
    case True
    with "1.prems" show ?thesis by (subst (asm) webrtc_write_loop.simps) auto
  next
    case False
    let ?chunk = "if webrtc_chunk_size < length p then take webrtc_chunk_size p else p"
    have len: "length ?chunk \<le> webrtc_chunk_size" "length ?chunk \<le> length p" "?chunk @ drop (length ?chunk) p = p" by auto
    obtain r w1 where r: "conn_write ?chunk w = (r, w1)" by fastforce
    show ?thesis
    proof (cases r)
      case (Some x)
      have "m = n \<and> e = Some x \<and> w' = w1" using "1.prems" False r Some by (subst (asm) webrtc_write_loop.simps) (auto simp: Let_def)
      moreover have "taken w1 = taken w" "lives w \<noteq> None" using r Some by (auto simp: conn_write_def split: option.splits nat.splits)
      ultimately show ?thesis by auto
    next
      case None
      have w1: "taken w1 = taken w @ [?chunk]" "lives w = None \<Longrightarrow> lives w1 = None"
        using r None by (auto simp: conn_write_def split: option.splits nat.splits)
      have "webrtc_write_loop (n + length ?chunk) (drop (length ?chunk) p) w1 = (m, e, w')"
        using "1.prems" False r None by (subst (asm) webrtc_write_loop.simps) (auto simp: Let_def)
      from "1.IH" [OF _ refl r [symmetric] None this] False obtain ms where
        ms: "taken w' = taken w1 @ ms" "n + length ?chunk \<le> m" "concat ms = take (m - (n + length ?chunk)) (drop (length ?chunk) p)"
          "\<forall>c\<in>set ms. length c \<le> webrtc_chunk_size" "m \<le> n + length ?chunk + length (drop (length ?chunk) p)"
          "e = None \<longrightarrow> m = n + length ?chunk + length (drop (length ?chunk) p)" "lives w1 = None \<longrightarrow> e = None \<and> lives w' = None"
        by auto
      have t: "take (m - n) p = ?chunk @ take (m - (n + length ?chunk)) (drop (length ?chunk) p)"
        using arg_cong [OF len(3), of "take (m - n)"] ms(2) by (simp only: take_append) simp
      have "taken w' = taken w @ (?chunk # ms)" using w1(1) ms(1) by simp
      moreover have "concat (?chunk # ms) = take (m - n) p" unfolding t using ms(3) by simp
      moreover have "\<forall>c\<in>set (?chunk # ms). length c \<le> webrtc_chunk_size" using ms(4) len(1) by simp
      moreover have "n \<le> m" "m \<le> n + length p" "e = None \<longrightarrow> m = n + length p" using ms(2,5,6) len(2) by (auto split: if_splits)
      moreover have "lives w = None \<longrightarrow> e = None \<and> lives w' = None" using ms(7) w1(2) by simp
      ultimately show ?thesis by meson
    qed
  qed
qed

lemma webrtc_Write_chunks:
  assumes "webrtc_Write p c = (m, e, c')"
  shows "\<exists>ms. taken (wc_out c') = taken (wc_out c) @ ms \<and> concat ms = take m p \<and> (\<forall>x\<in>set ms. length x \<le> webrtc_chunk_size) \<and>
    m \<le> length p \<and> (e = None \<longrightarrow> m = length p) \<and> (lives (wc_out c) = None \<longrightarrow> e = None \<and> lives (wc_out c') = None)"
    "wc_dc c' = wc_dc c" "wc_rbuf c' = wc_rbuf c"
  using assms write_loop_chunks [of 0 p "wc_out c"] by (auto simp: webrtc_Write_def split: prod.splits)

fun webrtc_writes :: "bytes list \<Rightarrow> 's webrtc_conn \<Rightarrow> (nat \<times> io_error option) list \<times> 's webrtc_conn" where
  "webrtc_writes [] c = ([], c)"
| "webrtc_writes (p # ps) c =
     (case webrtc_Write p c of (n, e, c1) \<Rightarrow>
        (case webrtc_writes ps c1 of (rs, c2) \<Rightarrow> ((n, e) # rs, c2)))"

lemma webrtc_writes_chunks:
  "webrtc_writes ps c = (rs, c') \<Longrightarrow> lives (wc_out c) = None \<Longrightarrow>
   \<exists>ms. taken (wc_out c') = taken (wc_out c) @ ms \<and> concat ms = concat ps \<and> (\<forall>x\<in>set ms. length x \<le> webrtc_chunk_size) \<and>
     rs = map (\<lambda>p. (length p, None)) ps"
proof (induction ps arbitrary: c rs)
  case (Cons p ps)
  obtain n e c1 where w: "webrtc_Write p c = (n, e, c1)" by (cases "webrtc_Write p c")
  obtain rs' where r: "webrtc_writes ps c1 = (rs', c')" "rs = (n, e) # rs'"
    using Cons.prems(1) w by (auto split: prod.splits)
  obtain ms where ms: "taken (wc_out c1) = taken (wc_out c) @ ms" "concat ms = p" "\<forall>x\<in>set ms. length x \<le> webrtc_chunk_size"
    "n = length p" "e = None" "lives (wc_out c1) = None"
    using webrtc_Write_chunks(1) [OF w] Cons.prems(2) by auto
  obtain ms' where "taken (wc_out c') = taken (wc_out c1) @ ms'" "concat ms' = concat ps"
    "\<forall>x\<in>set ms'. length x \<le> webrtc_chunk_size" "rs' = map (\<lambda>p. (length p, None)) ps"
    using Cons.IH [OF r(1) ms(6)] by blast
  then show ?case using ms r(2) by (intro exI [of _ "ms @ ms'"]) auto
qed simp



section \<open>Connections open\<close>

lemma dial_open_iff: "snd (webrtc_dial ps env server_addr sni path fingerprint psk stun insecure) \<longleftrightarrow>
    fst (webrtc_dial ps env server_addr sni path fingerprint psk stun insecure) = Ok ()"
  by (simp add: webrtc_dial_def split: option.splits outcome.splits)

lemma open_answered:
  assumes "small_messages raw" "concat (arriving raw) = b # bs" "lives w = None"
  shows "\<exists>conn. webrtc_open (Some (ChannelReady raw w)) addr_type addr port =
      Some (case dial_status b of Ok _ \<Rightarrow> Ok conn | Err e \<Rightarrow> Err (RtcVpn (VpnStatus e)) | Panic \<Rightarrow> Panic) \<and>
    concat (taken (wc_out conn)) = concat (taken w) @ EncodeAddress addr_type addr port \<and> dc.stream conn = bs"
proof -
  let ?hdr = "EncodeAddress addr_type addr port"
  obtain m x c where c: "webrtc_Write ?hdr (new_webrtc_conn raw w) = (m, x, c)" by (cases "webrtc_Write ?hdr (new_webrtc_conn raw w)")
  then have w: "x = None" "concat (taken (wc_out c)) = concat (taken w) @ ?hdr" "wc_dc c = raw" "wc_rbuf c = []"
    using webrtc_Write_chunks [OF c] assms(3) by (auto simp: new_webrtc_conn_def)
  have s: "dc.stream c = b # bs" using w assms(2) by (simp add: dc.stream_def)
  have "small_messages (wc_dc c)" using w assms(1) by simp
  then obtain c' where r: "read_full (\<lambda>p c. the (webrtc_Read dc_read p c)) 1 c = Some (Ok [b], c')" "dc.stream c' = bs"
    by (rule dc.stream.read_full_take [where n = 1]) (simp add: s take_full_def)
  have "wc_out c' = wc_out c"
    using dc.read_full_out [OF _ r(1)] \<open>small_messages (wc_dc c)\<close> by simp
  then show ?thesis using c w r by (auto simp: webrtc_open_def webrtc_read_status_def)
qed

text \<open>The two ends of the signalling: the exchange of the client is the handler's answer, and the handler's description
  decodes at the client.\<close>

definition signalled ::
  "webrtc_handler \<Rightarrow> 'd answer_steps \<Rightarrow> request_env \<Rightarrow> auth_manager \<Rightarrow> http_request \<Rightarrow> (nat \<times> bytes) option" where
  "signalled h an env am r =
     (let reply = fst (webrtc_ServeHTTP h an (en_order env) (en_rate env) (en_now env) r am)
      in Some (webrtc_status reply, webrtc_body reply))"

text \<open>A WebRTC client gets through. With current credentials in its signalling request and WebRTC working on both
  sides, the client has its peer connection, and the server a session, which every data channel the client
  opens but the keepalive channel is handed on with; opening a channel sends exactly the address header and follows the
  status byte. A dial that fails leaves no peer connection open.\<close>

theorem webrtc_session_opens:
  assumes "credentials_current psk t0 nonce env am" "GenerateAuthPayload psk t0 (Some nonce) = Some d"
    and "sg_now sg = t0" "sg_nonce sg = Some nonce" "sg_marshal sg (ps_gathered ps) = Some body" "length body \<le> 256 * 1024"
    and "req = webrtc_request path d (sg_remote sg) body" "en_addr env = remoteAddrOf req"
    and "h = \<lparr>wh_path = webrtc_normalize_path path, wh_stun = stuns\<rparr>"
    and "an_decode an body False = Some o1" "an_new an (webrtc_ice_servers stuns)" "an_remote an o1" "an_answer an = Some a1" "an_local an a1"
    and "sg_exchange sg server sni (reality_hello_id fp) insecure = signalled h an env am"
    and "sg_decode sg (an_description an @ [10]) = Some o2"
    and "ps_new ps (webrtc_ice_servers stun)" "ps_channel ps" "ps_offer ps = Some o3" "ps_local ps o3" "ps_remote ps o2" "ps_connected ps"
  shows "webrtc_dial ps sg server sni path fp psk stun insecure = (Ok (), True) \<and>
    (\<exists>session am'. webrtc_ServeHTTP h an (en_order env) (en_rate env) (en_now env) req am =
        (RtcAnswer (an_description an) session, am') \<and>
      on_data_channel session ''t'' (Some (raw, w)) = Some (new_webrtc_conn raw w, session) \<and>
      on_data_channel session ''keepalive'' (Some (raw, w)) = None) \<and>
    (\<forall>raw w b bs. small_messages raw \<and> concat (arriving raw) = b # bs \<and> lives w = None \<longrightarrow>
      (\<exists>conn. webrtc_open (Some (ChannelReady raw w)) addr_type addr port =
          Some (case dial_status b of Ok _ \<Rightarrow> Ok conn | Err e \<Rightarrow> Err (RtcVpn (VpnStatus e)) | Panic \<Rightarrow> Panic) \<and>
        concat (taken (wc_out conn)) = concat (taken w) @ EncodeAddress addr_type addr port \<and> dc.stream conn = bs)) \<and>
    (\<forall>ps (sg :: 'd signal_env) server sni path fp psk stun insecure.
      fst (webrtc_dial ps sg server sni path fp psk stun insecure) \<noteq> Ok () \<longrightarrow>
      \<not> snd (webrtc_dial ps sg server sni path fp psk stun insecure))"
proof -
  have auth: "rq_auth req = ''Bearer '' @ b64_encode b64_std d" by (simp add: assms(7) webrtc_request_def)
  obtain session am' where a: "mirage_authenticate (en_order env) (en_rate env) (en_now env) req am = (Some session, am')"
    using bearer_authenticated [OF assms(1,2,8) auth] by blast
  have req: "rq_method req = ''POST''" "rq_path req = wh_path h" "rq_body req = body" "\<not> rq_fails req"
    by (simp_all add: assms(7,9) webrtc_request_def)
  have s: "webrtc_ServeHTTP h an (en_order env) (en_rate env) (en_now env) req am = (RtcAnswer (an_description an) session, am')"
    unfolding webrtc_ServeHTTP_def masque_mirage_authenticate a req
    using req(4) assms(6,10-14) by (simp add: assms(9))
  then have "webrtc_signal sg server sni path fp psk (ps_gathered ps) insecure = Ok o2"
    using assms(2-5,15,16) by (simp add: webrtc_signal_def assms(7) [symmetric] signalled_def)
  then have "webrtc_dial ps sg server sni path fp psk stun insecure = (Ok (), True)"
    using assms(17-22) by (simp add: webrtc_dial_def)
  then show ?thesis
    using s open_answered by (auto simp: on_data_channel_def dial_open_iff)
qed

theorem webrtc_session_opens_witness:
  "\<exists>ps sg. fst (webrtc_dial ps (sg :: unit signal_env) ''s'' ''n'' ''r'' ''f'' ''k'' [] True) = Ok () \<and>
    (\<exists>conn. webrtc_open (Some (ChannelReady \<lparr>arriving = [[0, 9], [8]], ending = EOF\<rparr> \<lparr>taken = [], lives = None\<rparr>)) 1 ''h'' 80 =
      Some (Ok conn) \<and> dc.stream conn = [9, 8])"
proof -
  let ?w = "\<lparr>taken = [], lives = None\<rparr>"
  let ?env = "sample_request\<lparr>en_addr := TCPAddr [] 0\<rparr>" and ?h = "\<lparr>wh_path = webrtc_normalize_path ''r'', wh_stun = []\<rparr>"
  let ?an = "\<lparr>an_decode = \<lambda>_ _. Some (), an_new = \<lambda>_. True, an_remote = \<lambda>_. True, an_answer = Some (), an_local = \<lambda>_. True,
      an_description = [5]\<rparr>"
  let ?ps = "\<lparr>ps_new = \<lambda>_. True, ps_channel = True, ps_offer = Some (), ps_local = \<lambda>_. True, ps_gathered = (), ps_remote = \<lambda>_. True,
      ps_connected = True\<rparr>"
  let ?sg = "\<lparr>sg_marshal = \<lambda>_. Some [1], sg_decode = \<lambda>_. Some (), sg_exchange = \<lambda>_ _ _ _. signalled ?h ?an ?env sample_manager,
      sg_remote = ''peer'', sg_now = 59000000000, sg_nonce = Some (replicate 24 7)\<rparr>"
  obtain d where d: "GenerateAuthPayload ''k'' 59000000000 (Some (replicate 24 7)) = Some d"
    by (simp add: GenerateAuthPayload_def)
  have addr: "en_addr ?env = remoteAddrOf (webrtc_request ''r'' d (sg_remote ?sg) [1])"
    by (simp add: remoteAddrOf_def webrtc_request_def split_host_port_def parse_ip_def)
  have "webrtc_dial ?ps ?sg ''s'' ''n'' ''r'' ''f'' ''k'' [] True = (Ok (), True) \<and>
    (\<exists>session am'. webrtc_ServeHTTP ?h ?an (en_order ?env) (en_rate ?env) (en_now ?env)
          (webrtc_request ''r'' d (sg_remote ?sg) [1]) sample_manager = (RtcAnswer (an_description ?an) session, am') \<and>
      on_data_channel session ''t'' (Some ((), ?w)) = Some (new_webrtc_conn () ?w, session) \<and>
      on_data_channel session ''keepalive'' (Some ((), ?w)) = None) \<and>
    (\<forall>raw w b bs. small_messages raw \<and> concat (arriving raw) = b # bs \<and> lives w = None \<longrightarrow>
      (\<exists>conn. webrtc_open (Some (ChannelReady raw w)) 1 ''h'' 80 =
          Some (case dial_status b of Ok _ \<Rightarrow> Ok conn | Err e \<Rightarrow> Err (RtcVpn (VpnStatus e)) | Panic \<Rightarrow> Panic) \<and>
        concat (taken (wc_out conn)) = concat (taken w) @ EncodeAddress 1 ''h'' 80 \<and> dc.stream conn = bs)) \<and>
    (\<forall>ps (sg :: unit signal_env) server sni path fp psk stun insecure.
      fst (webrtc_dial ps sg server sni path fp psk stun insecure) \<noteq> Ok () \<longrightarrow>
      \<not> snd (webrtc_dial ps sg server sni path fp psk stun insecure))"
    by (rule webrtc_session_opens [OF sample_current d _ _ _ _ refl addr refl]) simp_all
  then have dial: "fst (webrtc_dial ?ps ?sg ''s'' ''n'' ''r'' ''f'' ''k'' [] True) = Ok ()"
    and op: "\<forall>raw w b bs. small_messages raw \<and> concat (arriving raw) = b # bs \<and> lives w = None \<longrightarrow>
      (\<exists>conn. webrtc_open (Some (ChannelReady raw w)) 1 ''h'' 80 =
          Some (case dial_status b of Ok _ \<Rightarrow> Ok conn | Err e \<Rightarrow> Err (RtcVpn (VpnStatus e)) | Panic \<Rightarrow> Panic) \<and>
        concat (taken (wc_out conn)) = concat (taken w) @ EncodeAddress 1 ''h'' 80 \<and> dc.stream conn = bs)" by simp_all
  have "small_messages \<lparr>arriving = [[0, 9], [8]], ending = EOF\<rparr>" by (simp add: small_messages_def webrtc_scratch_def)
  with op [rule_format, of "\<lparr>arriving = [[0, 9], [8]], ending = EOF\<rparr>" 0 "[9, 8]" ?w] have
    "\<exists>conn. webrtc_open (Some (ChannelReady \<lparr>arriving = [[0, 9], [8]], ending = EOF\<rparr> ?w)) 1 ''h'' 80 = Some (Ok conn) \<and>
      dc.stream conn = [9, 8]" by (auto simp: dial_status_def)
  with dial show ?thesis by blast
qed

end
