(* ===== verification/UQuic.thy ===== *)
theory UQuic
  imports Client Server
begin

text \<open>
  \<^verbatim>\<open>core/transport/uquic.go\<close>: QUIC with a browser's fingerprint. The uQUIC package (fingerprints, dials, streams) is a
  parameter; the frames of the authentication and the header of a target are those of plain QUIC, and the properties of
  this theory hold both clients against the server's side of both.
\<close>

section \<open>Sessions\<close>

datatype quic_id = QUICFirefox_116 | QUICChrome_115_IPv4

definition quic_id_of :: "string \<Rightarrow> quic_id" where
  "quic_id_of fingerprint =
     (if to_lower (trim_space fingerprint) = ''firefox'' then QUICFirefox_116 else QUICChrome_115_IPv4)"

definition uquic_spec :: "(quic_id \<Rightarrow> 'spec option) \<Rightarrow> string \<Rightarrow> 'spec option" where
  "uquic_spec id2spec fingerprint = id2spec (quic_id_of fingerprint)"

text \<open>The parts of a session that are open.\<close>

record 'c uquic_session =
  uq_conn :: "'c option"
  uq_transport :: bool
  uq_udp :: bool

definition uquic_close :: "'c uquic_session \<Rightarrow> 'c uquic_session" where
  "uquic_close u = u\<lparr>uq_conn := None, uq_transport := False, uq_udp := False\<rparr>"

record ('c, 'spec) uquic_env =
  uv_text :: string
  uv_resolve :: "string \<Rightarrow> net_addr option"
  uv_listen :: bool
  uv_id2spec :: "quic_id \<Rightarrow> 'spec option"
  uv_dial :: "net_addr \<Rightarrow> string \<Rightarrow> bool \<Rightarrow> 'spec \<Rightarrow> 'c option"

text \<open>The result, with the session as it is left behind: an error closes what was opened.\<close>

definition uquic_dial ::
  "('c, 'spec) uquic_env \<Rightarrow> string \<Rightarrow> string \<Rightarrow> string \<Rightarrow> bool \<Rightarrow> (string, 'c) outcome \<times> 'c uquic_session" where
  "uquic_dial env server_addr sni fingerprint insecure =
     (let nothing = \<lparr>uq_conn = None, uq_transport = False, uq_udp = False\<rparr> in
      case uv_resolve env server_addr of
        None \<Rightarrow> (Err (''udp resolve failed: '' @ uv_text env), nothing)
      | Some udp_addr \<Rightarrow>
          if \<not> uv_listen env then (Err (''udp listen failed: '' @ uv_text env), nothing)
          else
            let bound = nothing\<lparr>uq_udp := True\<rparr> in
            (case uquic_spec (uv_id2spec env) fingerprint of
               None \<Rightarrow> (Err (''quic fingerprint failed: '' @ uv_text env), bound\<lparr>uq_udp := False\<rparr>)
             | Some spec \<Rightarrow>
                 let ready = bound\<lparr>uq_transport := True\<rparr> in
                 (case uv_dial env udp_addr sni insecure spec of
                    None \<Rightarrow> (Err (''uquic dial failed: '' @ uv_text env), ready\<lparr>uq_transport := False, uq_udp := False\<rparr>)
                  | Some conn \<Rightarrow> (Ok conn, ready\<lparr>uq_conn := Some conn\<rparr>))))"

text \<open>\<open>stream\<close> is what opening the next stream gives. The result is the text of the error, if any.\<close>

definition uquic_authenticate ::
  "string \<Rightarrow> time \<Rightarrow> bytes option \<Rightarrow> endpoint option \<Rightarrow> string \<Rightarrow> (string option \<times> endpoint option) option" where
  "uquic_authenticate errtext now nonce stream psk =
     (case stream of
        None \<Rightarrow> Some (Some (''auth stream open failed: '' @ errtext), None)
      | Some st \<Rightarrow>
          (case EncodeAuthFrame psk now nonce of
             None \<Rightarrow> Some (Some (''auth frame creation failed: '' @ errtext), Some st)
           | Some auth_frame \<Rightarrow>
               let fw1 = snd (WriteTypedFrame conn_write auth_frame (NewFrameWriter (ep_out st)));
                   fw2 = snd (Flush conn_write fw1); st1 = st\<lparr>ep_out := fw_w fw2\<rparr> in
               (case ReadTypedFrame conn_read \<lparr>idle = [], fresh = 0\<rparr> (ep_in st1) of
                  None \<Rightarrow> None
                | Some (r, _, s) \<Rightarrow>
                    let st2 = st1\<lparr>ep_in := s\<rparr> in
                    (case r of
                       Ok f \<Rightarrow>
                         if frame_type f \<noteq> FrameAuthResp then Some (Some ''auth response failed'', Some st2)
                         else if length (frame_payload f) < 1 \<or> hd (frame_payload f) \<noteq> AuthStatusOK
                         then Some (Some ''auth denied'', Some st2)
                         else Some (None, Some st2)
                     | _ \<Rightarrow> Some (Some ''auth response failed'', Some st2)))))"

definition uquic_open_target ::
  "string \<Rightarrow> (io_error \<Rightarrow> string) \<Rightarrow> endpoint option \<Rightarrow> byte \<Rightarrow> string \<Rightarrow> u16 \<Rightarrow> (string, endpoint) outcome option" where
  "uquic_open_target errtext io_text stream addr_type addr port =
     (case stream of
        None \<Rightarrow> Some (Err (''stream open failed: '' @ errtext))
      | Some st \<Rightarrow>
          (case ep_write (EncodeAddress addr_type addr port) st of
             (Some e, _) \<Rightarrow> Some (Err (''address write failed: '' @ io_text e))
           | (None, st1) \<Rightarrow>
               (case ep_read_full 1 st1 of
                  None \<Rightarrow> None
                | Some (Ok ack, st2) \<Rightarrow>
                    Some (if hd ack \<noteq> 0x00 then Err (''connect rejected: status='' @ show_nat (unat (hd ack))) else Ok st2)
                | Some (Err e, _) \<Rightarrow> Some (Err (''ack read failed: '' @ io_text e))
                | Some (Panic, _) \<Rightarrow> Some Panic)))"

section \<open>The authentication exchange\<close>

text \<open>A failed dial leaves nothing open, and a session that is closed neither.\<close>

lemma uquic_dial_open:
  "uquic_dial env a sni fp insecure = (r, u) \<Longrightarrow>
   (case r of Ok c \<Rightarrow> u = \<lparr>uq_conn = Some c, uq_transport = True, uq_udp = True\<rparr> | _ \<Rightarrow> u = uquic_close u)"
  by (auto simp: uquic_dial_def uquic_close_def Let_def split: option.splits if_splits)

text \<open>With a fingerprint or without, the client says the same.\<close>

lemma uquic_like_quic:
  "uquic_authenticate (ce_text env) (ce_now env) (ce_nonce env) (Some st) psk =
     map_option (\<lambda>(r, st'). (case r of Err e \<Rightarrow> Some e | _ \<Rightarrow> None, Some st')) (quic_auth_exchange env psk st)"
  by (auto simp: uquic_authenticate_def quic_auth_exchange_def Let_def Suc_le_eq split: option.splits outcome.splits)

lemma quic_auth_no_panic: "quic_auth_exchange env psk st \<noteq> Some (Panic, st')"
  by (auto simp: quic_auth_exchange_def Let_def split: option.splits outcome.splits)

lemma auth_frame_written:
  assumes "EncodeAuthFrame psk now nonce = Some f" "lives w = None" "length (frame_payload f) \<le> 1000"
  shows "fw_w (snd (Flush conn_write (snd (WriteTypedFrame conn_write f (NewFrameWriter w))))) = w\<lparr>taken := taken w @ [enc_frame f]\<rparr>"
  using assms by (simp add: fw_eval)

lemma frame_fits: "length (frame_payload f) \<le> 1000 \<Longrightarrow> fits f"
  by (simp add: fits_def MaxFrameSize_def)

lemma frame_arrives:
  assumes "concat (arriving c) = enc_frame f @ r" "length (frame_payload f) \<le> 1000" "pool_ok p"
  shows "\<exists>p' c'. ReadTypedFrame conn_read p c = Some (Ok f, p', c')"
proof -
  obtain p' c' where "ReadTypedFrame conn_read p c = Some (frame_result (dec_frame (ending c) (concat (arriving c))), p', c')"
    using net_frames.ReadTypedFrame_dec [OF TrueI assms(3), of c] by blast
  moreover have "dec_frame (ending c) (concat (arriving c)) = Ok (f, r)"
    unfolding assms(1) by (rule wire_frame.dec_enc [OF frame_fits [OF assms(2)]])
  ultimately show ?thesis by (simp add: frame_result_def)
qed

text \<open>The stream of the authentication, seen from the client and from the server.\<close>

lemma client_authenticates:
  assumes "EncodeAuthFrame psk now nonce = Some f" "length (frame_payload f) \<le> 1000" "lives (ep_out st) = None"
    and "concat (arriving (ep_in st)) = enc_frame (EncodeAuthResponse status []) @ r"
  shows "\<exists>st'. uquic_authenticate errtext now nonce (Some st) psk =
      Some (if status = AuthStatusOK then None else Some ''auth denied'', Some st') \<and>
    taken (ep_out st') = taken (ep_out st) @ [enc_frame f]"
proof -
  let ?st1 = "st\<lparr>ep_out := (ep_out st)\<lparr>taken := taken (ep_out st) @ [enc_frame f]\<rparr>\<rparr>"
  obtain p' c' where "ReadTypedFrame conn_read \<lparr>idle = [], fresh = 0\<rparr> (ep_in st) = Some (Ok (EncodeAuthResponse status []), p', c')"
    using frame_arrives [OF assms(4), of "\<lparr>idle = [], fresh = 0\<rparr>"] by (auto simp: EncodeAuthResponse_def pool_ok_def)
  then show ?thesis
    using assms(1) auth_frame_written [OF assms(1,3,2)]
    by (simp add: uquic_authenticate_def EncodeAuthResponse_def Let_def)
qed

lemma server_authenticates:
  assumes "credentials_current psk t0 nonce env (sv_auth sv)" "EncodeAuthFrame psk t0 (Some nonce) = Some f" "pool_ok p"
    and "concat (arriving c) = enc_frame f @ r"
  shows "\<exists>session sv'. quic_authenticate (en_order env) (en_rate env) (en_now env) (en_addr env) p c sv =
    Some ([EncodeAuthResponse AuthStatusOK []], Some session, sv')"
proof -
  obtain d where d: "GenerateAuthPayload psk t0 (Some nonce) = Some d" "f = \<lparr>frame_type = FrameAuth, frame_payload = d\<rparr>"
    using assms(2) by (auto simp: EncodeAuthFrame_def)
  obtain s am where v: "length d = 56"
    "ValidateAuth (en_order env) (en_rate env) (en_now env) d (en_addr env) (sv_auth sv) = (Ok s, am)"
    using credentials_accepted [OF assms(1) d(1)] by blast
  have "length (frame_payload f) \<le> 1000" using v(1) d(2) by simp
  then obtain p' c' where "ReadTypedFrame conn_read p c = Some (Ok f, p', c')" using frame_arrives [OF assms(4) _ assms(3)] by blast
  then show ?thesis using d(2) v(2) by (simp add: quic_authenticate_def)
qed

section \<open>A QUIC connection from end to end\<close>

lemma stream_relayed:
  assumes "known_addr_type t" "concat (arriving (ep_in conn)) = EncodeAddress t a p @ rest" "lives (ep_out conn) = None"
    and "os_dial os (norm_address t a) p = Some target" "lives (ep_out target) = None"
    and "fst (CheckConnection (u_id (as_user session)) (norm_address t a) p (Some (as_user session)) (sv_firewall sv))"
  shows "\<exists>target' conn' sv'. handleQUICStream os conn session sv = Some (QuicDirect (Some target'), conn', sv') \<and>
    concat (taken (ep_out target')) = concat (taken (ep_out target)) @ rest \<and>
    concat (taken (ep_out conn')) = concat (taken (ep_out conn)) @ 0 # concat (arriving (ep_in target)) \<and>
    (\<forall>v. conn_count v (sv_firewall sv') = conn_count v (sv_firewall sv))"
proof -
  let ?uid = "u_id (as_user session)"
  obtain h where h: "EncodeAddress t a p = t # h" using EncodeAddress_head by blast
  have t: "t \<noteq> 0" using assms(1) by (auto simp: known_addr_type_def addr_type_defs)
  obtain c where c: "ep_read_full 1 conn = Some (Ok [t], conn\<lparr>ep_in := c\<rparr>)" "concat (arriving c) = h @ rest"
    using status_read [of conn t "h @ rest"] assms(2) h by auto
  obtain r c' where r: "ReadAddressHeaderWithFirstByte t conn_read c = Some (r, c')"
    and a: "header_agrees (t # concat (arriving c)) r (concat (arriving c'))"
    using net_header.header_first_byte [OF TrueI, of t c] by blast
  have r': "r = Ok (t, norm_address t a, p)" "concat (arriving c') = rest"
    using a c(2) h decode_encode_norm [OF assms(1), of a p rest] by (simp_all add: header_agrees_def)
  obtain fw where ck: "CheckConnection ?uid (norm_address t a) p (Some (as_user session)) (sv_firewall sv) = (True, fw)"
    using assms(6) by (metis prod.collapse)
  have fw: "conn_count v fw = conn_count v (sv_firewall sv)" for v
    using check_count [of v ?uid "norm_address t a" p "Some (as_user session)" "sv_firewall sv"] ck by simp
  let ?conn = "ep_send [0x00] (conn\<lparr>ep_in := c'\<rparr>)"
  obtain ci to where ci: "copy_half ?conn target = Some (ci, to)" "concat (taken to) = concat (taken (ep_out target)) @ rest"
    using copy_half_delivers [OF assms(5), of ?conn] assms(3) r'(2) by auto
  obtain ti co where ti: "copy_half target ?conn = Some (ti, co)"
    "concat (taken co) = concat (taken (ep_out conn)) @ 0 # concat (arriving (ep_in target))"
    using copy_half_delivers [of ?conn target] assms(3) by auto
  show ?thesis
    using c r r' ck t assms(4) ci ti fw by (simp add: handleQUICStream_def Let_def OnConnect_def OnDisconnect_def)
qed



end
