(* ===== verification/Cert.thy ===== *)
theory Cert
  imports Reality
begin

text \<open>
  \<^verbatim>\<open>core/transport/cert.go\<close>: self-signed certificates, made up for a name or modelled on the certificate a real site
  presents. Key generation, the encodings and signatures of \<^verbatim>\<open>crypto/x509\<close> and the TLS connection to the site are
  parameters; SHA-1, which identifies the key, is computed.
\<close>

section \<open>SHA-1\<close>

definition rotl32 :: "nat \<Rightarrow> u32 \<Rightarrow> u32" where
  "rotl32 n w = push_bit n w OR drop_bit (32 - n) w"

fun sha1_schedule :: "nat \<Rightarrow> u32 list \<Rightarrow> u32 list" where
  "sha1_schedule 0 ws = ws"
| "sha1_schedule (Suc n) ws =
     (let t = length ws in
      sha1_schedule n (ws @ [rotl32 1 (ws ! (t - 3) XOR ws ! (t - 8) XOR ws ! (t - 14) XOR ws ! (t - 16))]))"

definition sha1_mix :: "nat \<Rightarrow> u32 \<Rightarrow> u32 \<Rightarrow> u32 \<Rightarrow> u32" where
  "sha1_mix t b c d =
     (if t < 20 then ((b AND c) OR (NOT b AND d)) + 1518500249
      else if t < 40 then (b XOR c XOR d) + 1859775393
      else if t < 60 then ((b AND c) OR (b AND d) OR (c AND d)) + 2400959708
      else (b XOR c XOR d) + 3395469782)"

fun sha1_round :: "u32 list \<Rightarrow> nat \<times> u32 \<Rightarrow> u32 list" where
  "sha1_round [a, b, c, d, e] (t, w) = [rotl32 5 a + sha1_mix t b c d + e + w, a, rotl32 30 b, c, d]"
| "sha1_round s _ = s"

definition sha1_block :: "u32 list \<Rightarrow> bytes \<Rightarrow> u32 list" where
  "sha1_block hs blk = map2 (+) hs (foldl sha1_round hs (zip [0..<80] (sha1_schedule 64 (be_words blk))))"

function sha1_blocks :: "u32 list \<Rightarrow> bytes \<Rightarrow> u32 list" where
  "sha1_blocks hs bs = (if length bs < 64 then hs else sha1_blocks (sha1_block hs (take 64 bs)) (drop 64 bs))"
  by pat_completeness auto
termination by (relation "measure (\<lambda>(_, bs). length bs)") auto

declare sha1_blocks.simps [simp del]

text \<open>The padding is that of SHA-256.\<close>

definition sha1 :: "bytes \<Rightarrow> bytes" where
  "sha1 m = concat (map (\<lambda>w. be_bytes 4 w)
     (sha1_blocks [1732584193, 4023233417, 2562383102, 271733878, 3285377520] (sha_pad m)))"

lemma length_sha1_round: "length (sha1_round s x) = length s"
  by (cases "(s, x)" rule: sha1_round.cases) auto

lemma length_sha1_blocks: "length (sha1_blocks hs bs) = length hs"
proof -
  have "length (foldl sha1_round s xs) = length s" for s xs
    by (induction xs arbitrary: s) (auto simp: length_sha1_round)
  then show ?thesis
    by (induction hs bs rule: sha1_blocks.induct) (subst sha1_blocks.simps, simp add: sha1_block_def)
qed

lemma length_sha1 [simp]: "length (sha1 m) = 20"
  by (simp only: sha1_def length_concat_be4 length_sha1_blocks) simp

section \<open>Certificates\<close>

text \<open>A name: its common name and its other fields. A public key with its size, or its curve.\<close>

record x509_name =
  xn_common :: string
  xn_rest :: "(string \<times> string) list"

datatype 'c public_key = RSAPublic nat | ECPublic 'c | OtherPublic

record 'c leaf_cert =
  lf_subject :: x509_name
  lf_dns :: "string list"
  lf_before :: time
  lf_after :: time
  lf_rsa :: bool
  lf_key :: "'c public_key"

record cert_template =
  tp_serial :: "nat option"
  tp_subject :: x509_name
  tp_dns :: "string list"
  tp_before :: time
  tp_after :: time
  tp_usage :: "string list"
  tp_ext_usage :: "string list"
  tp_constraints :: bool
  tp_key_id :: bytes

record ('c, 'k, 'cert) x509_env =
  xe_rsa :: "nat \<Rightarrow> 'k option"
  xe_ec :: "'c \<Rightarrow> 'k option"
  xe_p256 :: 'c
  xe_serial :: "nat option"
  xe_now :: time
  xe_pkix :: "'k \<Rightarrow> bytes option"
  xe_create :: "cert_template \<Rightarrow> 'k \<Rightarrow> bytes option"
  xe_pkcs8 :: "'k \<Rightarrow> bytes option"
  xe_pair :: "bytes \<Rightarrow> bytes \<Rightarrow> 'cert option"
  xe_dial :: "string \<Rightarrow> string \<Rightarrow> 'c leaf_cert list option"

definition hour_ns :: int where "hour_ns = 3600 * 1000000000"

definition baseLeafTemplate :: "('c, 'k, 'cert) x509_env \<Rightarrow> string \<Rightarrow> cert_template" where
  "baseLeafTemplate env sni =
     \<lparr>tp_serial = xe_serial env, tp_subject = \<lparr>xn_common = sni, xn_rest = []\<rparr>, tp_dns = [sni],
      tp_before = xe_now env - 1 * hour_ns, tp_after = xe_now env + 90 * 24 * hour_ns,
      tp_usage = [''digital_signature'', ''key_encipherment''], tp_ext_usage = [''server_auth''],
      tp_constraints = True, tp_key_id = []\<rparr>"

definition subjectKeyID :: "('c, 'k, 'cert) x509_env \<Rightarrow> 'k \<Rightarrow> bytes option" where
  "subjectKeyID env key = map_option sha1 (xe_pkix env key)"

definition selfSign :: "('c, 'k, 'cert) x509_env \<Rightarrow> cert_template \<Rightarrow> 'k \<Rightarrow> 'cert option" where
  "selfSign env tmpl0 key =
     (let tmpl = (case subjectKeyID env key of Some skid \<Rightarrow> tmpl0\<lparr>tp_key_id := skid\<rparr> | None \<Rightarrow> tmpl0) in
      case xe_create env tmpl key of
        None \<Rightarrow> None
      | Some certDER \<Rightarrow>
          (case xe_pkcs8 env key of
             None \<Rightarrow> None
           | Some keyDER \<Rightarrow> xe_pair env certDER keyDER))"

definition GenerateStealthCert :: "('c, 'k, 'cert) x509_env \<Rightarrow> string \<Rightarrow> 'cert option" where
  "GenerateStealthCert env sni0 =
     (let sni = (if sni0 = '''' then ''localhost'' else sni0) in
      case xe_ec env (xe_p256 env) of
        None \<Rightarrow> None
      | Some key \<Rightarrow> selfSign env (baseLeafTemplate env sni) key)"

definition fetchLeafCert :: "('c, 'k, 'cert) x509_env \<Rightarrow> string \<Rightarrow> 'c leaf_cert option" where
  "fetchLeafCert env dest =
     (let addr = (case split_host_port dest of None \<Rightarrow> join_host_port dest ''443'' | Some _ \<Rightarrow> dest) in
      case xe_dial env addr (hostOnly dest) of
        None \<Rightarrow> None
      | Some certs \<Rightarrow> (if length certs = 0 then None else Some (certs ! 0)))"

definition keyMatchingLeaf :: "('c, 'k, 'cert) x509_env \<Rightarrow> 'c leaf_cert \<Rightarrow> 'k option" where
  "keyMatchingLeaf env leaf =
     (if lf_rsa leaf then
        xe_rsa env (case lf_key leaf of RSAPublic n \<Rightarrow> if 3072 \<le> n then n else 2048 | _ \<Rightarrow> 2048)
      else xe_ec env (case lf_key leaf of ECPublic c \<Rightarrow> c | _ \<Rightarrow> xe_p256 env))"

definition clone_template :: "('c, 'k, 'cert) x509_env \<Rightarrow> string \<Rightarrow> 'c leaf_cert \<Rightarrow> cert_template" where
  "clone_template env host leaf =
     (let tmpl = \<lparr>tp_serial = xe_serial env, tp_subject = lf_subject leaf, tp_dns = lf_dns leaf,
            tp_before = lf_before leaf, tp_after = lf_after leaf,
            tp_usage = [''digital_signature'', ''key_encipherment''], tp_ext_usage = [''server_auth''],
            tp_constraints = True, tp_key_id = []\<rparr>;
          tmpl1 = (if length (tp_dns tmpl) = 0 then tmpl\<lparr>tp_dns := [host]\<rparr> else tmpl)
      in (if xn_common (tp_subject tmpl1) = '''' then tmpl1\<lparr>tp_subject := (tp_subject tmpl1)\<lparr>xn_common := host\<rparr>\<rparr> else tmpl1))"

definition CloneCertFromTarget :: "('c, 'k, 'cert) x509_env \<Rightarrow> string \<Rightarrow> string \<Rightarrow> 'cert option" where
  "CloneCertFromTarget env dest fallbackSNI0 =
     (let host = hostOnly dest; fallbackSNI = (if fallbackSNI0 = '''' then host else fallbackSNI0) in
      case fetchLeafCert env dest of
        None \<Rightarrow> GenerateStealthCert env fallbackSNI
      | Some leaf \<Rightarrow>
          (case keyMatchingLeaf env leaf of
             None \<Rightarrow> GenerateStealthCert env fallbackSNI
           | Some key \<Rightarrow>
               (case selfSign env (clone_template env host leaf) key of
                  None \<Rightarrow> GenerateStealthCert env fallbackSNI
                | Some cert \<Rightarrow> Some cert)))"

section \<open>What a clone has of its model\<close>

lemma decode_key_fails: "decode_key_bytes s \<noteq> Err CertFailed"
  by (auto simp: decode_key_bytes_def Let_def split: option.splits)

lemma allow_ids_fails: "allow_ids ids a \<noteq> Err CertFailed"
  by (induction ids a rule: allow_ids.induct)
     (auto simp: parse_short_id_def Let_def split: outcome.splits option.splits if_splits)

lemma clone_falls_back:
  assumes "CloneCertFromTarget env dest sni = None"
  shows "GenerateStealthCert env (if sni = '''' then hostOnly dest else sni) = None"
  using assms by (auto simp: CloneCertFromTarget_def Let_def split: option.splits if_splits)

text \<open>A clone is made to be taken for its model. When the site presents a certificate, the clone carries its
  subject, its names (the host, where it has none) and its validity, is made for a key of the same kind (RSA of
  the same size from 3072 bits on and of 2048 bits below, or the same curve), and identifies it by its SHA-1; the made-up certificate is
  only used when a step of that fails, and only when it cannot be made either is there no dispatcher.\<close>

theorem clone_matches_target:
  assumes "xe_dial env (fallback_addr dest) (hostOnly dest) = Some (leaf # certs)"
    and "key = (if lf_rsa leaf then xe_rsa env (case lf_key leaf of RSAPublic n \<Rightarrow> if n < 3072 then 2048 else n | _ \<Rightarrow> 2048)
      else xe_ec env (case lf_key leaf of ECPublic c \<Rightarrow> c | _ \<Rightarrow> xe_p256 env))"
    and "key = Some k" "xe_pkix env k = Some spki" "xe_pkcs8 env k = Some der"
    and "xe_create env \<lparr>tp_serial = xe_serial env,
        tp_subject = (if xn_common (lf_subject leaf) = '''' then (lf_subject leaf)\<lparr>xn_common := hostOnly dest\<rparr> else lf_subject leaf),
        tp_dns = (if lf_dns leaf = [] then [hostOnly dest] else lf_dns leaf), tp_before = lf_before leaf, tp_after = lf_after leaf,
        tp_usage = [''digital_signature'', ''key_encipherment''], tp_ext_usage = [''server_auth''],
        tp_constraints = True, tp_key_id = sha1 spki\<rparr> k = Some made"
    and "xe_pair env made der = Some cert"
  shows "CloneCertFromTarget env dest sni = Some cert \<and>
    (\<forall>(env' :: ('c, 'k, 'cert) x509_env) cfg. new_reality_dispatcher (CloneCertFromTarget env') cfg = Err CertFailed \<longrightarrow>
      GenerateStealthCert env' (if rc_ServerName cfg = '''' then hostOnly (rc_Dest cfg) else rc_ServerName cfg) = None)"
proof
  have f: "fetchLeafCert env dest = Some leaf"
    using assms(1) by (simp add: fetchLeafCert_def fallback_addr_def Let_def split: option.splits)
  have "keyMatchingLeaf env leaf = Some k"
    unfolding assms(3) [symmetric] assms(2) by (simp add: keyMatchingLeaf_def not_le split: public_key.splits)
  moreover have "selfSign env (clone_template env (hostOnly dest) leaf) k = Some cert"
    using assms(4-7) by (cases "lf_dns leaf = []"; cases "xn_common (lf_subject leaf) = ''''")
      (simp_all add: selfSign_def subjectKeyID_def clone_template_def Let_def)
  ultimately show "CloneCertFromTarget env dest sni = Some cert" using f by (simp add: CloneCertFromTarget_def Let_def)
  show "\<forall>(env' :: ('c, 'k, 'cert) x509_env) cfg. new_reality_dispatcher (CloneCertFromTarget env') cfg = Err CertFailed \<longrightarrow>
      GenerateStealthCert env' (if rc_ServerName cfg = '''' then hostOnly (rc_Dest cfg) else rc_ServerName cfg) = None"
  proof (intro allI impI)
    fix env' :: "('c, 'k, 'cert) x509_env" and cfg
    assume "new_reality_dispatcher (CloneCertFromTarget env') cfg = Err CertFailed"
    then have "CloneCertFromTarget env' (rc_Dest cfg)
        (if rc_ServerName cfg = '''' then hostOnly (rc_Dest cfg) else rc_ServerName cfg) = None"
      using decode_key_fails allow_ids_fails
      by (auto simp: new_reality_dispatcher_def parse_x25519_private_def Let_def split: outcome.splits option.splits if_splits)
    from clone_falls_back [OF this] show "GenerateStealthCert env'
        (if rc_ServerName cfg = '''' then hostOnly (rc_Dest cfg) else rc_ServerName cfg) = None"
      by (simp split: if_splits)
  qed
qed

text \<open>A site with an RSA key of 4096 bits; a certificate stands for its template and its key.\<close>

definition sample_x509 :: "(unit, nat, nat) x509_env" where
  "sample_x509 = \<lparr>xe_rsa = Some, xe_ec = (\<lambda>_. Some 0), xe_p256 = (), xe_serial = Some 1, xe_now = 0, xe_pkix = (\<lambda>k. Some [1]),
     xe_create = (\<lambda>t k. Some (str_bytes (concat (tp_dns t)))), xe_pkcs8 = (\<lambda>k. Some (replicate k 0)),
     xe_pair = (\<lambda>c k. Some (length k)),
     xe_dial = (\<lambda>addr sni. if addr = ''site:443'' then Some [\<lparr>lf_subject = \<lparr>xn_common = ''site'', xn_rest = []\<rparr>,
        lf_dns = [''site'', ''www.site''], lf_before = 0, lf_after = 9, lf_rsa = True, lf_key = RSAPublic 4096\<rparr>] else None)\<rparr>"

theorem clone_matches_target_witness: "CloneCertFromTarget sample_x509 ''site:443'' '''' = Some 4096"
proof -
  let ?leaf = "\<lparr>lf_subject = \<lparr>xn_common = ''site'', xn_rest = []\<rparr>, lf_dns = [''site'', ''www.site''], lf_before = 0, lf_after = 9,
     lf_rsa = True, lf_key = RSAPublic 4096\<rparr> :: unit leaf_cert"
  have a: "fallback_addr ''site:443'' = ''site:443''" by code_simp
  have d: "xe_dial sample_x509 (fallback_addr ''site:443'') (hostOnly ''site:443'') = Some (?leaf # [])"
    unfolding a by (simp add: sample_x509_def)
  have k: "Some 4096 = (if lf_rsa ?leaf then xe_rsa sample_x509 (case lf_key ?leaf of RSAPublic n \<Rightarrow> if n < 3072 then 2048 else n | _ \<Rightarrow> 2048)
      else xe_ec sample_x509 (case lf_key ?leaf of ECPublic c \<Rightarrow> c | _ \<Rightarrow> xe_p256 sample_x509))"
    by (simp add: sample_x509_def)
  have e: "xe_pkix sample_x509 4096 = Some [1]" "xe_pkcs8 sample_x509 4096 = Some (replicate 4096 0)"
    by (simp_all add: sample_x509_def)
  have "CloneCertFromTarget sample_x509 ''site:443'' '''' = Some 4096 \<and>
      (\<forall>(env' :: (unit, nat, nat) x509_env) cfg. new_reality_dispatcher (CloneCertFromTarget env') cfg = Err CertFailed \<longrightarrow>
        GenerateStealthCert env' (if rc_ServerName cfg = '''' then hostOnly (rc_Dest cfg) else rc_ServerName cfg) = None)"
    by (rule clone_matches_target [OF d k refl e]) (simp_all add: sample_x509_def)
  then show ?thesis ..
qed

end
