(* ===== verification/Transports.thy ===== *)
theory Transports
  imports UQuic WebRTC Cert Config
begin

text \<open>
  The transports in their places. For \<^verbatim>\<open>core/transport/client.go\<close>: connecting over REALITY, MIRAGE, MASQUE, Redstone, WebRTC
  and QUIC with a fingerprint, each of which installs its dialer in the SOCKS proxy; they supply the parameter of \<open>connect\<close>.
  For \<^verbatim>\<open>core/transport/server.go\<close>: what each listener serves, and how the connections of the transports reach the
  handlers of the server.
\<close>

section \<open>Connections as the proxy sees them\<close>

text \<open>A stream over a data channel as an endpoint: its messages are the pieces that arrive.\<close>

definition webrtc_endpoint :: "conn_in webrtc_conn \<Rightarrow> endpoint" where
  "webrtc_endpoint c =
     \<lparr>ep_in = \<lparr>arriving = filter (\<lambda>m. m \<noteq> []) (wc_rbuf c # arriving (wc_dc c)), ending = ending (wc_dc c)\<rparr>,
      ep_out = wc_out c, ep_kind = OtherConn, ep_write_closed = False\<rparr>"

lemma dc_fill:
  "small_messages s \<Longrightarrow>
   webrtc_fill dc_read s = Some (case filter (\<lambda>m. m \<noteq> []) (arriving s) of
     [] \<Rightarrow> (Fail (ending s), s\<lparr>arriving := []\<rparr>)
   | m # _ \<Rightarrow> (Got m, s\<lparr>arriving := tl (dropWhile (\<lambda>m. m = []) (arriving s))\<rparr>))"
proof (induction "arriving s" arbitrary: s)
  case Nil
  then show ?case by (subst webrtc_fill.simps) (simp add: dc_read_def)
next
  case (Cons m ms)
  have "webrtc_fill dc_read (s\<lparr>arriving := ms\<rparr>) = Some (case filter (\<lambda>m. m \<noteq> []) ms of
     [] \<Rightarrow> (Fail (ending s), s\<lparr>arriving := []\<rparr>)
   | m # _ \<Rightarrow> (Got m, s\<lparr>arriving := tl (dropWhile (\<lambda>m. m = []) ms)\<rparr>))"
    using Cons(1) [of "s\<lparr>arriving := ms\<rparr>"] Cons(2) [symmetric] Cons(3) by (simp add: small_messages_def split: list.split)
  then show ?case
    using Cons(2) [symmetric] Cons(3)
    by (subst webrtc_fill.simps) (simp add: dc_read_def small_messages_def split: list.split)
qed

text \<open>Reading from the connection is reading from its endpoint.\<close>

lemma webrtc_endpoint_reads:
  assumes "small_messages (wc_dc c)" "webrtc_Read dc_read p c = Some (r, c')"
  shows "conn_read p (ep_in (webrtc_endpoint c)) = (r, ep_in (webrtc_endpoint c'))"
proof (cases "wc_rbuf c = []")
  case True
  have skip: "filter (\<lambda>m. m \<noteq> []) xs = m # ms \<Longrightarrow> filter (\<lambda>m. m \<noteq> []) (tl (dropWhile (\<lambda>m. m = []) xs)) = ms" for xs :: "bytes list" and m ms
    by (induction xs) (auto split: if_splits)
  show ?thesis
    using assms(2) True dc_fill [OF assms(1)] skip [of "arriving (wc_dc c)"]
    by (auto simp: webrtc_Read_def webrtc_endpoint_def conn_read_def split: list.splits)
next
  case False
  then show ?thesis using assms(2) by (auto simp: webrtc_Read_def webrtc_endpoint_def conn_read_def)
qed

definition as_dialer :: "(byte \<Rightarrow> string \<Rightarrow> u16 \<Rightarrow> ('e, endpoint) outcome option) \<Rightarrow> dialer" where
  "as_dialer f = (\<lambda>addrType addr port. map_option (\<lambda>r. case r of Ok ep \<Rightarrow> Some ep | _ \<Rightarrow> None) (f addrType addr port))"

section \<open>The client's transports\<close>

text \<open>
  What the transports meet outside. A connection of uQUIC is what opening its first and its next stream gives;
  \<open>te_h3_raw\<close> is a stream of the QUIC connection under HTTP/3; \<open>te_plain\<close> is the plain side of a Redstone tunnel as an
  endpoint.
\<close>

record ('q, 'd, 'spec) transports_env =
  te_client :: client_env
  te_error :: "reality_error \<Rightarrow> string"
  te_reality :: reality_env
  te_mirage :: mirage_env
  te_h3 :: "'q h3_env"
  te_h3_stream :: "'q \<Rightarrow> h3_stream"
  te_h3_raw :: "'q \<Rightarrow> endpoint option"
  te_peer :: "'d peer_steps"
  te_signal :: "'d signal_env"
  te_channel :: "channel_open option"
  te_uquic :: "(endpoint option \<times> endpoint option, 'spec) uquic_env"
  te_tcp :: "string \<Rightarrow> endpoint option"
  te_port :: "string \<Rightarrow> u16 option"
  te_random :: bytes
  te_plain :: "conn_in mc_conn \<Rightarrow> conn_out \<Rightarrow> endpoint"

text \<open>What all of them do in the end.\<close>

definition connected_with :: "dialer \<Rightarrow> server_entry \<Rightarrow> string \<Rightarrow> client \<Rightarrow> client" where
  "connected_with d server psk cl =
     (setActiveServerLocked (Some server) psk (cl\<lparr>cl_proxy := SetDialer (Some d) (cl_proxy cl)\<rparr>))\<lparr>cl_connected := True\<rparr>"

definition reality_dialer ::
  "('q, 'd, 'spec) transports_env \<Rightarrow> string \<Rightarrow> string \<Rightarrow> string \<Rightarrow> string \<Rightarrow> bytes \<Rightarrow> bytes \<Rightarrow> dialer" where
  "reality_dialer te serverAddr sni fingerprint psk pub sid =
     as_dialer (reality_dial_vpn (te_reality te) (ce_nonce (te_client te)) serverAddr sni fingerprint psk pub sid)"

definition connectReality :: "('q, 'd, 'spec) transports_env \<Rightarrow> server_entry \<Rightarrow> string \<Rightarrow> client \<Rightarrow> attempt" where
  "connectReality te server psk cl =
     (let c = cl_config cl; sni = effective_sni c server in
      case parse_x25519_public (cc_RealityPublicKey c) of
        Ok pub \<Rightarrow>
          (case parse_short_id (cc_RealityShortID c) of
             Ok sid \<Rightarrow>
               let fingerprint = effective_fingerprint c server in
               (case reality_dial (te_reality te) (se_address server) sni fingerprint pub sid of
                  Ok probe \<Rightarrow>
                    Some (None, connected_with (reality_dialer te (se_address server) sni fingerprint psk pub sid) server psk cl)
                | Err e \<Rightarrow> Some (Some e, cl)
                | Panic \<Rightarrow> None)
           | Err e \<Rightarrow> Some (Some (te_error te e), cl)
           | Panic \<Rightarrow> None)
      | Err e \<Rightarrow> Some (Some (''reality public key: '' @ te_error te e), cl)
      | Panic \<Rightarrow> None)"

definition mirage_dialer ::
  "('q, 'd, 'spec) transports_env \<Rightarrow> string \<Rightarrow> string \<Rightarrow> string \<Rightarrow> string \<Rightarrow> string \<Rightarrow> bool \<Rightarrow> dialer" where
  "mirage_dialer te target sni path fingerprint psk insecure =
     as_dialer (mirage_dial_vpn (te_mirage te) (ce_nonce (te_client te)) target sni path fingerprint psk insecure)"

definition connectMirage :: "('q, 'd, 'spec) transports_env \<Rightarrow> server_entry \<Rightarrow> string \<Rightarrow> client \<Rightarrow> attempt" where
  "connectMirage te server psk cl =
     (let c = cl_config cl; sni = effective_sni c server; path = cc_MiragePath c; insecure = cc_InsecureSkip c;
          target = se_address server; fingerprint = effective_fingerprint c server in
      case GenerateAuthPayload psk (me_now (te_mirage te)) (ce_nonce (te_client te)) of
        None \<Rightarrow> Some (Some (ce_text (te_client te)), cl)
      | Some authProbe \<Rightarrow>
          (case mirage_dial (te_mirage te) target sni path fingerprint (b64_encode b64_std authProbe) insecure of
             Ok probe \<Rightarrow> Some (None, connected_with (mirage_dialer te target sni path fingerprint psk insecure) server psk cl)
           | Err e \<Rightarrow> Some (Some e, cl)
           | Panic \<Rightarrow> None))"

fun masque_error_text :: "string \<Rightarrow> masque_error \<Rightarrow> string" where
  "masque_error_text t MasqueResolve = ''udp resolve failed: '' @ t"
| "masque_error_text t MasqueListen = ''udp listen failed: '' @ t"
| "masque_error_text t MasqueQUIC = ''quic dial failed: '' @ t"
| "masque_error_text t MasqueSettings = ''h3 settings timeout''"
| "masque_error_text t MasqueNoConnect = ''server did not enable extended connect''"
| "masque_error_text t _ = t"

definition masque_dialer ::
  "('q, 'd, 'spec) transports_env \<Rightarrow> 'q \<Rightarrow> string \<Rightarrow> string \<Rightarrow> string \<Rightarrow> dialer" where
  "masque_dialer te cc sni path psk =
     as_dialer (masque_open_stream (te_h3_stream te cc) '''' (ce_now (te_client te)) (ce_nonce (te_client te)) sni path psk)"

definition connectMasque :: "('q, 'd, 'spec) transports_env \<Rightarrow> server_entry \<Rightarrow> string \<Rightarrow> client \<Rightarrow> attempt" where
  "connectMasque te server psk cl =
     (let c = cl_config cl; sni = effective_sni c server; path = cc_MasquePath c; insecure = cc_InsecureSkip c in
      case masque_new_client_conn (te_h3 te) (se_address server) sni insecure of
        Ok cc \<Rightarrow>
          Some (None, (connected_with (masque_dialer te cc sni path psk) server psk cl)\<lparr>cl_quic := Some (te_h3_raw te cc)\<rparr>)
      | Err e \<Rightarrow> Some (Some (masque_error_text (ce_text (te_client te)) e), cl)
      | Panic \<Rightarrow> None)"

text \<open>\<^verbatim>\<open>redstone_dial\<close> from its start: the connection, and the port named in the handshake.\<close>

definition redstone_port :: "(string \<Rightarrow> u16 option) \<Rightarrow> string \<Rightarrow> u16" where
  "redstone_port lookup server_addr =
     (case split_host_port server_addr of
        Some (_, portStr) \<Rightarrow> (case lookup portStr of Some p \<Rightarrow> p | None \<Rightarrow> 25565)
      | None \<Rightarrow> 25565)"

definition redstone_dialer :: "('q, 'd, 'spec) transports_env \<Rightarrow> string \<Rightarrow> string \<Rightarrow> string \<Rightarrow> dialer" where
  "redstone_dialer te target sni psk = (\<lambda>addr_type addr port.
     (case te_tcp te target of
        None \<Rightarrow> Some None
      | Some raw \<Rightarrow>
          map_option (\<lambda>(r, w). case r of Ok c \<Rightarrow> Some (te_plain te c w) | _ \<Rightarrow> None)
            (redstone_dial conn_read conn_write sni (redstone_port (te_port te) target) psk (ce_now (te_client te)) (te_random te)
              (ce_nonce (te_client te)) addr_type addr port (ep_in raw) (ep_out raw))))"

definition connectRedstone :: "('q, 'd, 'spec) transports_env \<Rightarrow> server_entry \<Rightarrow> string \<Rightarrow> client \<Rightarrow> attempt" where
  "connectRedstone te server psk cl =
     (let sni = effective_sni (cl_config cl) server; target = se_address server
      in Some (None, connected_with (redstone_dialer te target sni psk) server psk cl))"

fun webrtc_error_text :: "string \<Rightarrow> webrtc_error \<Rightarrow> string" where
  "webrtc_error_text t RtcPeer = ''peer connection failed: '' @ t"
| "webrtc_error_text t RtcTimeout = ''webrtc connection timeout''"
| "webrtc_error_text t RtcSignalling = ''signaling failed: '' @ t"
| "webrtc_error_text t (RtcSignalStatus n) = ''signaling status '' @ show_nat n"
| "webrtc_error_text t RtcAnswerDecode = ''answer decode failed: '' @ t"
| "webrtc_error_text t _ = t"

definition webrtc_dialer :: "('q, 'd, 'spec) transports_env \<Rightarrow> dialer" where
  "webrtc_dialer te = as_dialer (\<lambda>addr_type addr port.
     map_option (map_outcome webrtc_endpoint) (webrtc_open (te_channel te) addr_type addr port))"

definition connectWebRTC :: "('q, 'd, 'spec) transports_env \<Rightarrow> server_entry \<Rightarrow> string \<Rightarrow> client \<Rightarrow> attempt" where
  "connectWebRTC te server psk cl =
     (let c = cl_config cl; sni = effective_sni c server; fingerprint = effective_fingerprint c server;
          stun = (if length (cc_WebRTCSTUN c) = 0 then webrtc_default_stun else cc_WebRTCSTUN c) in
      case fst (webrtc_dial (te_peer te) (te_signal te) (se_address server) sni (cc_WebRTCPath c) fingerprint psk stun
          (cc_InsecureSkip c)) of
        Ok () \<Rightarrow> Some (None, (connected_with (webrtc_dialer te) server psk cl)\<lparr>cl_closer := True\<rparr>)
      | Err e \<Rightarrow> Some (Some (webrtc_error_text (ce_text (te_client te)) e), cl)
      | Panic \<Rightarrow> None)"

definition uquic_dialer :: "('q, 'd, 'spec) transports_env \<Rightarrow> endpoint option \<Rightarrow> dialer" where
  "uquic_dialer te later = as_dialer (uquic_open_target (ce_text (te_client te)) (ce_io_text (te_client te)) later)"

text \<open>A failed authentication closes the session.\<close>

definition connectQUICUTLS :: "('q, 'd, 'spec) transports_env \<Rightarrow> server_entry \<Rightarrow> string \<Rightarrow> client \<Rightarrow> attempt" where
  "connectQUICUTLS te server psk cl =
     (let c = cl_config cl; sni = effective_sni c server; fingerprint = effective_fingerprint c server in
      case fst (uquic_dial (te_uquic te) (se_address server) sni fingerprint (cc_InsecureSkip c)) of
        Ok sess \<Rightarrow>
          (case uquic_authenticate (ce_text (te_client te)) (ce_now (te_client te)) (ce_nonce (te_client te)) (fst sess) psk of
             None \<Rightarrow> None
           | Some (Some e, _) \<Rightarrow> Some (Some e, cl)
           | Some (None, _) \<Rightarrow>
               Some (None, (connected_with (uquic_dialer te (snd sess)) server psk cl)\<lparr>cl_closer := True\<rparr>))
      | Err e \<Rightarrow> Some (Some e, cl)
      | Panic \<Rightarrow> None)"

definition other_transports ::
  "('q, 'd, 'spec) transports_env \<Rightarrow> string \<Rightarrow> server_entry \<Rightarrow> string \<Rightarrow> client \<Rightarrow> attempt" where
  "other_transports te transport server psk cl =
     (if transport = ''reality'' then connectReality te server psk cl
      else if transport = ''mirage'' then connectMirage te server psk cl
      else if transport = ''masque'' then connectMasque te server psk cl
      else if transport = ''redstone'' then connectRedstone te server psk cl
      else if transport = ''webrtc'' then connectWebRTC te server psk cl
      else connectQUICUTLS te server psk cl)"

lemmas transport_defs = connectReality_def connectMirage_def connectMasque_def connectRedstone_def connectWebRTC_def
  connectQUICUTLS_def

section \<open>What the server's listeners serve\<close>

record transport_sections =
  ts_Reality :: reality_config
  ts_MiragePath :: string
  ts_MasquePath :: string
  ts_WebRTCPath :: string
  ts_WebRTCSTUN :: "string list"

datatype 'cert service =
    ServeReality "'cert reality_dispatcher"
  | ServeMirage "'cert \<times> string list" mirage_state
  | ServeMasque "'cert \<times> string list"
  | ServeWebRTC "'cert \<times> string list" webrtc_handler
  | ServeRedstone redstone_config
  | ServeCamouflage "'cert camouflage"
  | ServeTLS bool "'cert \<times> string list"
  | ServeQUIC "bloom replay_filter option" "'cert \<times> string list"

text \<open>\<open>le_tls\<close> is \<open>generateTLSConfigForTransport\<close>, \<open>le_camouflage\<close> is \<open>NewCamouflageServer\<close>, both with their parameters; the flag of
  \<open>ServeTLS\<close> tells whether connections go through the replay filter.\<close>

record 'cert listen_env =
  le_tcp :: "string \<Rightarrow> bool"
  le_udp :: "string \<Rightarrow> bool"
  le_tls :: "server_config \<Rightarrow> string \<Rightarrow> ('cert \<times> string list) option"
  le_camouflage :: "camouflage_config \<Rightarrow> auth_manager \<Rightarrow> bloom replay_filter option \<Rightarrow> 'cert camouflage option"
  le_clone :: "string \<Rightarrow> string \<Rightarrow> 'cert option"

definition start_camouflage :: "'cert listen_env \<Rightarrow> server \<Rightarrow> 'cert service option" where
  "start_camouflage le s =
     (case le_camouflage le (svc_Camouflage (sv_config s)) (sv_auth s) (sv_replay s) of
        None \<Rightarrow> None
      | Some cs \<Rightarrow>
          let cs' = SetVPNHandler cs in
          if le_tcp le (svc_BindAddress (sv_config s)) then Some (ServeCamouflage cs') else None)"

definition startTLS :: "'cert listen_env \<Rightarrow> server \<Rightarrow> 'cert service option" where
  "startTLS le s =
     (let c = sv_config s in
      if cf_Enabled (svc_Camouflage c) then start_camouflage le s
      else if \<not> le_tcp le (svc_BindAddress c) then None
      else map_option (ServeTLS True) (le_tls le c ''tls''))"

definition startTLSFallback :: "'cert listen_env \<Rightarrow> server \<Rightarrow> 'cert service option" where
  "startTLSFallback le s =
     (let c = sv_config s in
      if cf_Enabled (svc_Camouflage c) then start_camouflage le s
      else (case le_tls le c ''tls'' of
          None \<Rightarrow> None
        | Some tlsConfig \<Rightarrow> if le_tcp le (svc_BindAddress c) then Some (ServeTLS False tlsConfig) else None))"

definition startWebRTC :: "'cert listen_env \<Rightarrow> transport_sections \<Rightarrow> server \<Rightarrow> 'cert service option" where
  "startWebRTC le ts s =
     (let c = sv_config s in
      case le_tls le c ''tls'' of
        None \<Rightarrow> None
      | Some tlsConfig \<Rightarrow>
          if \<not> le_tcp le (svc_BindAddress c) then None
          else Some (ServeWebRTC tlsConfig \<lparr>wh_path = webrtc_normalize_path (ts_WebRTCPath ts), wh_stun = ts_WebRTCSTUN ts\<rparr>))"

definition startRedstone :: "'cert listen_env \<Rightarrow> server \<Rightarrow> 'cert service option" where
  "startRedstone le s =
     (if le_tcp le (svc_BindAddress (sv_config s)) then Some (ServeRedstone (svc_Redstone (sv_config s))) else None)"

text \<open>The section for MASQUE is not looked at.\<close>

definition startMasque :: "'cert listen_env \<Rightarrow> server \<Rightarrow> 'cert service option" where
  "startMasque le s =
     (let c = sv_config s in
      case le_tls le c ''quic'' of
        None \<Rightarrow> None
      | Some tlsConfig \<Rightarrow> if le_udp le (svc_BindAddress c) then Some (ServeMasque tlsConfig) else None)"

definition startMirage :: "'cert listen_env \<Rightarrow> transport_sections \<Rightarrow> server \<Rightarrow> 'cert service option" where
  "startMirage le ts s =
     (let c = sv_config s; handler = new_mirage_handler (ts_MiragePath ts) in
      case le_tls le c ''tls'' of
        None \<Rightarrow> None
      | Some tlsConfig \<Rightarrow> if le_tcp le (svc_BindAddress c) then Some (ServeMirage tlsConfig handler) else None)"

definition startReality :: "'cert listen_env \<Rightarrow> transport_sections \<Rightarrow> server \<Rightarrow> 'cert service option" where
  "startReality le ts s =
     (case new_reality_dispatcher (le_clone le) (ts_Reality ts) of
        Ok disp \<Rightarrow> if le_tcp le (svc_BindAddress (sv_config s)) then Some (ServeReality disp) else None
      | _ \<Rightarrow> None)"

definition startQUIC :: "'cert listen_env \<Rightarrow> server \<Rightarrow> 'cert service option" where
  "startQUIC le s =
     (let c = sv_config s in
      case le_tls le c ''quic'' of
        None \<Rightarrow> None
      | Some tlsConfig \<Rightarrow>
          if le_udp le (svc_BindAddress c) then Some (ServeQUIC (sv_replay s) tlsConfig) else None)"

fun start_listener :: "'cert listen_env \<Rightarrow> transport_sections \<Rightarrow> server \<Rightarrow> listener \<Rightarrow> 'cert service option" where
  "start_listener le ts s ListenReality = startReality le ts s"
| "start_listener le ts s ListenMirage = startMirage le ts s"
| "start_listener le ts s ListenMasque = startMasque le s"
| "start_listener le ts s ListenRedstone = startRedstone le s"
| "start_listener le ts s ListenWebRTC = startWebRTC le ts s"
| "start_listener le ts s ListenTLS = startTLS le s"
| "start_listener le ts s ListenQUIC = startQUIC le s"
| "start_listener le ts s ListenTLSFallback = startTLSFallback le s"

section \<open>Connections at the listeners\<close>

text \<open>\<open>tls\<close> makes the TLS connection for a certificate over the peeked one; its handshake happens at the first read.\<close>

datatype reality_end = RealityClosed | RealityServed smart_end | RealityForwarded "conn_in peeking_conn"

definition reality_serve ::
  "outside \<Rightarrow> request_env \<Rightarrow> reality_crypto \<Rightarrow> ('cert \<Rightarrow> conn_in peeking_conn \<Rightarrow> endpoint) \<Rightarrow> 'cert reality_dispatcher \<Rightarrow>
   conn_in peeking_conn \<Rightarrow> server \<Rightarrow> ((unit, reality_end \<times> server) outcome) option" where
  "reality_serve os env c tls disp pconn sv =
     (case reality_accept c (en_now env) disp pconn of
        RealityTLS cert p \<Rightarrow>
          map_option (\<lambda>(e, sv'). Ok (RealityServed e, sv'))
            (handleTLSConnection os (en_order env) (en_rate env) (en_now env) (en_addr env) (tls cert p) sv)
      | RealityFallback p \<Rightarrow> Some (Ok (RealityForwarded p, sv)))"

definition handleRealityConnection ::
  "outside \<Rightarrow> request_env \<Rightarrow> reality_crypto \<Rightarrow> ('cert \<Rightarrow> conn_in peeking_conn \<Rightarrow> endpoint) \<Rightarrow> 'cert reality_dispatcher \<Rightarrow>
   conn_in \<Rightarrow> server \<Rightarrow> ((unit, reality_end \<times> server) outcome) option" where
  "handleRealityConnection os env c tls disp conn sv =
     (case reality_peek conn_read conn 76 128 of
        None \<Rightarrow> None
      | Some None \<Rightarrow> Some (Ok (RealityClosed, sv))
      | Some (Some pconn) \<Rightarrow>
          (case sv_replay sv of
             None \<Rightarrow> reality_serve os env c tls disp pconn sv
           | Some rf \<Rightarrow>
               let peek = Peek pconn in
               if 43 < length peek \<and> peek ! 0 = 0x16 then
                 (case CheckAndAdd (take 32 (drop 11 peek)) rf of
                    None \<Rightarrow> Some Panic
                  | Some (True, rf') \<Rightarrow> Some (Ok (RealityClosed, sv\<lparr>sv_replay := Some rf'\<rparr>))
                  | Some (False, rf') \<Rightarrow> reality_serve os env c tls disp pconn (sv\<lparr>sv_replay := Some rf'\<rparr>))
               else reality_serve os env c tls disp pconn sv))"

text \<open>A connection that comes with its session: from MIRAGE, MASQUE and WebRTC.\<close>

definition on_session :: "outside \<Rightarrow> endpoint \<Rightarrow> auth_session \<Rightarrow> server \<Rightarrow> (smart_end \<times> server) option" where
  "on_session os conn session sv = handleDirectConnection os conn session sv"

section \<open>What an attempt leaves behind\<close>

text \<open>A client after an attempt: as before when it failed; else connected to that server with that key, with exactly one way out
  for the proxy, and otherwise as before.\<close>

definition attempt_effect :: "server_entry \<Rightarrow> string \<Rightarrow> client \<Rightarrow> string option \<Rightarrow> client \<Rightarrow> bool" where
  "attempt_effect server psk cl err cl' \<longleftrightarrow>
     (case err of
        Some e \<Rightarrow> cl' = cl
      | None \<Rightarrow> cl_connected cl' \<and> cl_active cl' = Some server \<and> cl_psk cl' = psk \<and>
          (sp_dialer (cl_proxy cl') = None) \<noteq> (sp_quic (cl_proxy cl') = None) \<and>
          cl_config cl' = cl_config cl \<and> cl_selector cl' = cl_selector cl \<and> cl_stopped cl' = cl_stopped cl \<and>
          cl_hub cl' = cl_hub cl \<and> cl_writer cl' = cl_writer cl \<and> cl_reader cl' = cl_reader cl)"

lemma effect_failed: "attempt_effect server psk cl (Some e) cl"
  by (simp add: attempt_effect_def)

lemma effect_connected:
  "attempt_effect server psk cl None (connected_with d server psk cl)"
  "attempt_effect server psk cl None ((connected_with d server psk cl)\<lparr>cl_quic := q\<rparr>)"
  "attempt_effect server psk cl None ((connected_with d server psk cl)\<lparr>cl_closer := b\<rparr>)"
  by (simp_all add: attempt_effect_def connected_with_def setActiveServerLocked_def SetDialer_def)

lemma attempt_of:
  assumes "pred_option (\<lambda>(err, cl'). attempt_effect server psk cl err cl') att" "att = Some (err, cl')"
  shows "attempt_effect server psk cl err cl'"
  using assms by simp

lemma transport_effects:
  "pred_option (\<lambda>(err, cl'). attempt_effect server psk cl err cl') (connectReality te server psk cl)"
  "pred_option (\<lambda>(err, cl'). attempt_effect server psk cl err cl') (connectMirage te server psk cl)"
  "pred_option (\<lambda>(err, cl'). attempt_effect server psk cl err cl') (connectMasque te server psk cl)"
  "pred_option (\<lambda>(err, cl'). attempt_effect server psk cl err cl') (connectRedstone te server psk cl)"
  "pred_option (\<lambda>(err, cl'). attempt_effect server psk cl err cl') (connectWebRTC te server psk cl)"
  "pred_option (\<lambda>(err, cl'). attempt_effect server psk cl err cl') (connectQUICUTLS te server psk cl)"
proof -
  note effects = effect_failed effect_connected
  show "pred_option (\<lambda>(err, cl'). attempt_effect server psk cl err cl') (connectReality te server psk cl)"
    unfolding connectReality_def Let_def by (simp add: effects split: outcome.split)
  show "pred_option (\<lambda>(err, cl'). attempt_effect server psk cl err cl') (connectMirage te server psk cl)"
    unfolding connectMirage_def Let_def by (simp add: effects split: outcome.split option.split)
  show "pred_option (\<lambda>(err, cl'). attempt_effect server psk cl err cl') (connectMasque te server psk cl)"
    unfolding connectMasque_def Let_def by (simp add: effects split: outcome.split)
  show "pred_option (\<lambda>(err, cl'). attempt_effect server psk cl err cl') (connectRedstone te server psk cl)"
    unfolding connectRedstone_def Let_def by (simp add: effects)
  show "pred_option (\<lambda>(err, cl'). attempt_effect server psk cl err cl') (connectWebRTC te server psk cl)"
    unfolding connectWebRTC_def Let_def by (simp add: effects split: outcome.split unit.split)
  show "pred_option (\<lambda>(err, cl'). attempt_effect server psk cl err cl') (connectQUICUTLS te server psk cl)"
    unfolding connectQUICUTLS_def Let_def by (simp add: effects split: outcome.split option.split)
qed

lemma plain_effects:
  "pred_option (\<lambda>(err, cl'). attempt_effect server psk cl err cl') (connectTLS env server psk cl)"
  "pred_option (\<lambda>(err, cl'). attempt_effect server psk cl err cl') (connectQUIC env server psk cl)"
proof -
  note effects = attempt_effect_def setActiveServerLocked_def SetDialer_def SetQUIC_def
  show "pred_option (\<lambda>(err, cl'). attempt_effect server psk cl err cl') (connectTLS env server psk cl)"
    unfolding connectTLS_def Let_def by (simp add: effects split: option.split)
  show "pred_option (\<lambda>(err, cl'). attempt_effect server psk cl err cl') (connectQUIC env server psk cl)"
    unfolding connectQUIC_def Let_def by (simp add: effects split: option.split outcome.split unit.split)
qed

text \<open>The dialer of each transport, made with the settings of the server or, where it has none, of the client.\<close>

definition transport_dialer :: "('q, 'd, 'spec) transports_env \<Rightarrow> client_env \<Rightarrow> client_config \<Rightarrow> server_entry \<Rightarrow> string \<Rightarrow> dialer set" where
  "transport_dialer te env c server transport =
     (let sni = effective_sni c server; psk = effective_psk c server; fp = effective_fingerprint c server; addr = se_address server in
      if transport = ''reality'' then
        {reality_dialer te addr sni fp psk pub sid |pub sid.
           parse_x25519_public (cc_RealityPublicKey c) = Ok pub \<and> parse_short_id (cc_RealityShortID c) = Ok sid}
      else if transport = ''mirage'' then {mirage_dialer te addr sni (cc_MiragePath c) fp psk (cc_InsecureSkip c)}
      else if transport = ''masque'' then
        {masque_dialer te cc sni (cc_MasquePath c) psk |cc. masque_new_client_conn (te_h3 te) addr sni (cc_InsecureSkip c) = Ok cc}
      else if transport = ''redstone'' then {redstone_dialer te addr sni psk}
      else if transport = ''webrtc'' then {webrtc_dialer te}
      else if transport = ''quic'' then
        {uquic_dialer te (snd sess) |sess. fst (uquic_dial (te_uquic te) addr sni fp (cc_InsecureSkip c)) = Ok sess}
      else {vpn_dialer env addr sni psk (effective_path c server) fp})"

lemma connected_dialer [simp]: "sp_dialer (cl_proxy (connected_with d server psk cl)) = Some d"
  by (simp add: connected_with_def setActiveServerLocked_def SetDialer_def)

definition installs :: "dialer set \<Rightarrow> string option \<times> client \<Rightarrow> bool" where
  "installs D r \<longleftrightarrow> (fst r = None \<longrightarrow> (\<exists>d\<in>D. sp_dialer (cl_proxy (snd r)) = Some d))"

lemma transports_install:
  fixes te :: "('q, 'd, 'spec) transports_env" and env server cl
  defines "D \<equiv> transport_dialer te env (cl_config cl) server"
  assumes "psk = effective_psk (cl_config cl) server"
  shows "pred_option (installs (D ''reality'')) (connectReality te server psk cl)"
    "pred_option (installs (D ''mirage'')) (connectMirage te server psk cl)"
    "pred_option (installs (D ''masque'')) (connectMasque te server psk cl)"
    "pred_option (installs (D ''redstone'')) (connectRedstone te server psk cl)"
    "pred_option (installs (D ''webrtc'')) (connectWebRTC te server psk cl)"
    "pred_option (installs (D ''quic'')) (connectQUICUTLS te server psk cl)"
    "transport \<notin> {''reality'', ''mirage'', ''masque'', ''redstone'', ''webrtc'', ''quic''} \<Longrightarrow>
      pred_option (installs (D transport)) (connectTLS env server psk cl)"
proof -
  note defs = installs_def D_def transport_dialer_def Let_def
  show "pred_option (installs (D ''reality'')) (connectReality te server psk cl)"
    unfolding connectReality_def Let_def assms(2) by (simp add: defs split: outcome.split)
  show "pred_option (installs (D ''mirage'')) (connectMirage te server psk cl)"
    unfolding connectMirage_def Let_def assms(2) by (simp add: defs split: outcome.split option.split)
  show "pred_option (installs (D ''masque'')) (connectMasque te server psk cl)"
    unfolding connectMasque_def Let_def assms(2) by (simp add: defs split: outcome.split)
  show "pred_option (installs (D ''redstone'')) (connectRedstone te server psk cl)"
    unfolding connectRedstone_def Let_def assms(2) by (simp add: defs)
  show "pred_option (installs (D ''webrtc'')) (connectWebRTC te server psk cl)"
    unfolding connectWebRTC_def Let_def assms(2) by (simp add: defs split: outcome.split unit.split)
  show "pred_option (installs (D ''quic'')) (connectQUICUTLS te server psk cl)"
    unfolding connectQUICUTLS_def Let_def assms(2) by (simp add: defs split: outcome.split option.split)
  show "pred_option (installs (D transport)) (connectTLS env server psk cl)"
    if "transport \<notin> {''reality'', ''mirage'', ''masque'', ''redstone'', ''webrtc'', ''quic''}"
    unfolding connectTLS_def Let_def assms(2) using that
    by (simp add: defs setActiveServerLocked_def SetDialer_def split: option.split)
qed

text \<open>C19. Connecting is all or nothing. Whatever the transport, an attempt that fails leaves the client as it was, and one
  that succeeds makes that server with that key the active one and gives the proxy exactly one way out:
  the QUIC connection, or the dialer of that transport made with the server's settings or, where the
  server has none, the client's.\<close>

theorem connecting_is_atomic:
  assumes "connect (other_transports te) env server cl = Some (err, cl')"
    and "transport = (if se_transport server = '''' then cc_Transport (cl_config cl) else se_transport server)"
  shows "(\<forall>e. err = Some e \<longrightarrow> cl' = cl) \<and>
    (err = None \<longrightarrow> cl_connected cl' \<and> cl_active cl' = Some server \<and> cl_psk cl' = effective_psk (cl_config cl) server \<and>
      (sp_dialer (cl_proxy cl') = None) \<noteq> (sp_quic (cl_proxy cl') = None) \<and> cl_config cl' = cl_config cl \<and>
      (transport = ''quic'' \<and> effective_fingerprint (cl_config cl) server = '''' \<or>
       (\<exists>d\<in>transport_dialer te env (cl_config cl) server transport. sp_dialer (cl_proxy cl') = Some d)))"
proof -
  let ?psk = "effective_psk (cl_config cl) server" and ?D = "transport_dialer te env (cl_config cl) server"
  have c: "connect (other_transports te) env server cl =
      (if transport \<in> {''reality'', ''mirage'', ''masque'', ''redstone'', ''webrtc''} then other_transports te transport server ?psk cl
       else if transport = ''quic'' then
         (if effective_fingerprint (cl_config cl) server \<noteq> '''' then other_transports te ''uquic'' server ?psk cl
          else connectQUIC env server ?psk cl)
       else connectTLS env server ?psk cl)"
    by (simp only: connect_def Let_def assms(2))
  note transport_eqs = c other_transports_def
  have "pred_option (\<lambda>(err, cl'). attempt_effect server ?psk cl err cl') (connect (other_transports te) env server cl)"
    using transport_effects [of server ?psk cl te] plain_effects [of server ?psk cl env] by (auto simp: transport_eqs)
  then have "attempt_effect server ?psk cl err cl'" using assms(1) by simp
  moreover have "pred_option (installs (?D transport)) (connect (other_transports te) env server cl)"
    if "\<not> (transport = ''quic'' \<and> effective_fingerprint (cl_config cl) server = '''')"
    using transports_install [OF refl, where te = te and env = env and server = server and cl = cl] that by (auto simp: transport_eqs)
  ultimately show ?thesis
    using assms(1) by (auto simp: attempt_effect_def installs_def)
qed

theorem connecting_is_atomic_witness:
  "\<forall>te :: (unit, unit, unit) transports_env. \<forall>env. \<exists>cl'. connect (other_transports te) env
      ((defaultServerEntry sample_client_config)\<lparr>se_transport := ''redstone''\<rparr>) (NewClient sample_client_config) = Some (None, cl') \<and>
    cl_connected cl' \<and> cl_psk cl' = ''k'' \<and>
    sp_dialer (cl_proxy cl') = Some (redstone_dialer te ''a:443'' ''example.org'' ''k'')"
proof (intro allI)
  fix te :: "(unit, unit, unit) transports_env" and env
  let ?s = "(defaultServerEntry sample_client_config)\<lparr>se_transport := ''redstone''\<rparr>" and ?cl = "NewClient sample_client_config"
  obtain cl' where c: "connect (other_transports te) env ?s ?cl = Some (None, cl')"
    by (simp add: connect_def other_transports_def connectRedstone_def Let_def)
  have e: "effective_psk (cl_config ?cl) ?s = ''k''" "effective_sni (cl_config ?cl) ?s = ''example.org''"
    by (simp_all add: effective_psk_def effective_sni_def defaultServerEntry_def sample_client_config_def)
  show "\<exists>cl'. connect (other_transports te) env ?s ?cl = Some (None, cl') \<and> cl_connected cl' \<and> cl_psk cl' = ''k'' \<and>
      sp_dialer (cl_proxy cl') = Some (redstone_dialer te ''a:443'' ''example.org'' ''k'')"
    using connecting_is_atomic [OF c refl] c e
    by (auto simp: transport_dialer_def Let_def defaultServerEntry_def sample_client_config_def)
qed

section \<open>REALITY at the server\<close>

text \<open>Recognition looks at the first 76 bytes only.\<close>

lemma match_prefix:
  assumes "76 \<le> length p"
  shows "reality_match c now d (p @ r) = reality_match c now d p"
proof -
  have fields: "take 32 (drop 44 (p @ r)) = take 32 (drop 44 p)" "take 32 (drop 11 (p @ r)) = take 32 (drop 11 p)"
    "(p @ r) ! 0 = p ! 0" "(p @ r) ! 5 = p ! 5" "(p @ r) ! 43 = p ! 43"
    using assms by (auto simp: nth_append)
  have "is_reality_client_hello (p @ r) = is_reality_client_hello p"
    using assms unfolding is_reality_client_hello_def fields by simp
  then show ?thesis unfolding reality_match_def fields by simp
qed

definition good_filter :: "bloom replay_filter \<Rightarrow> bool" where
  "good_filter rf \<longleftrightarrow> bloom_ok (current rf) \<and> (\<forall>p. previous rf = Some p \<longrightarrow> bloom_ok p)"

lemma filter_spec:
  assumes "good_filter rf"
  obtains b rf' where "CheckAndAdd d rf = Some (b, rf')" "good_filter rf'" "\<exists>r. CheckAndAdd d rf' = Some (True, r)"
    "seen Contains d rf = Some b"
proof -
  have ok: "bloom_filter.filter_ok rf" using assms by (simp add: bloom_filter.filter_ok_def good_filter_def)
  obtain b rf' where c: "CheckAndAdd d rf = Some (b, rf')" "bloom_filter.filter_ok rf'"
    "seen Contains d rf' = Some True" "seen Contains d rf = Some b"
    using bloom_filter.check_and_add_spec [OF ok, of d] by (auto simp: CheckAndAdd_def)
  moreover have "\<exists>r. CheckAndAdd d rf' = Some (True, r)" using c(3) by (simp add: CheckAndAdd_def check_and_add_def)
  ultimately show ?thesis using that by (auto simp: good_filter_def bloom_filter.filter_ok_def)
qed

text \<open>A filter that has been rotated twice has forgotten everything, as new filters contain nothing.\<close>

lemma forgets:
  assumes "Contains d e = Some False"
  shows "seen Contains d (rotate_filter e (rotate_filter e rf)) = Some False"
  using assms by (simp add: seen_def rotate_filter_def)

text \<open>What the handler does with a connection whose stream begins with a hello, in terms of the filter's answer.\<close>

lemma reality_handled:
  assumes "concat (arriving conn) = ch @ later" "76 \<le> length ch" "ch ! 0 = 0x16" "sv_replay sv = Some rf"
    and "CheckAndAdd (take 32 (drop 11 ch)) rf = Some (b, rf')"
  shows "\<exists>pc. unpeeked pc @ concat (arriving (pk_conn pc)) = ch @ later \<and> ending (pk_conn pc) = ending conn \<and>
    handleRealityConnection os env c tls disp conn sv =
      (if b then Some (Ok (RealityClosed, sv\<lparr>sv_replay := Some rf'\<rparr>))
       else if reality_match c (en_now env) disp ch
       then map_option (\<lambda>(e, sv'). Ok (RealityServed e, sv'))
         (handleTLSConnection os (en_order env) (en_rate env) (en_now env) (en_addr env) (tls (rd_cert disp) pc)
           (sv\<lparr>sv_replay := Some rf'\<rparr>))
       else Some (Ok (RealityForwarded pc, sv\<lparr>sv_replay := Some rf'\<rparr>)))"
proof -
  have "concat (arriving conn) \<noteq> []" using assms(1,2) by (cases ch) auto
  then obtain pc where pc: "reality_peek conn_read conn 76 128 = Some (Some pc)" "unpeeked pc = Peek pc"
    "Peek pc @ concat (arriving (pk_conn pc)) = ch @ later"
    "76 \<le> length (Peek pc) \<or> concat (arriving (pk_conn pc)) = []" "ending (pk_conn pc) = ending conn"
    using net_in.reality_peek_prefix [OF TrueI, of 76 128 conn] assms(1) by (auto simp del: concat_eq_Nil_conv)
  have len: "76 \<le> length (Peek pc)" using pc(3,4) assms(2) arg_cong [OF pc(3), of length] by (auto simp del: concat_eq_Nil_conv)
  have pre: "take 76 (Peek pc) = take 76 ch"
    using len assms(2) arg_cong [OF pc(3), of "take 76"] by simp
  have same: "take 32 (drop 11 (Peek pc)) = take 32 (drop 11 ch)" "Peek pc ! 0 = ch ! 0"
    "reality_match c (en_now env) disp (Peek pc) = reality_match c (en_now env) disp ch"
  proof -
    have "take 32 (drop 11 x) = take 32 (drop 11 (take 76 x))" for x :: bytes by (simp add: take_drop)
    then show "take 32 (drop 11 (Peek pc)) = take 32 (drop 11 ch)" using pre by metis
    show "Peek pc ! 0 = ch ! 0" using arg_cong [OF pre, of "\<lambda>x. x ! 0"] by simp
    have "reality_match c (en_now env) disp x = reality_match c (en_now env) disp (take 76 x)" if "76 \<le> length x" for x
      using match_prefix [of "take 76 x" c "en_now env" disp "drop 76 x"] that by simp
    then show "reality_match c (en_now env) disp (Peek pc) = reality_match c (en_now env) disp ch"
      using pre len assms(2) by metis
  qed
  have "\<not> length (Peek pc) \<le> 43" using len by simp
  then show ?thesis
    using pc assms(3-5) same
    by (intro exI [of _ pc]) (cases b; simp add: handleRealityConnection_def reality_serve_def reality_accept_def Let_def)
qed



end
