(* ===== verification/Listeners.thy ===== *)
theory Listeners
  imports Transports
begin

text \<open>
  The loops and handles around the components of \<^verbatim>\<open>core/transport\<close>: the accept loops of \<^verbatim>\<open>proxy.go\<close> and \<^verbatim>\<open>camouflage.go\<close>, the
  start of the client in \<^verbatim>\<open>client.go\<close>, the association handles of \<^verbatim>\<open>udp_assoc.go\<close> on the client's persistent channel, the dial of \<^verbatim>\<open>relay.go\<close>, and small
  parts of \<^verbatim>\<open>camouflage.go\<close>, \<^verbatim>\<open>mirage.go\<close> and \<^verbatim>\<open>peeking_conn.go\<close> that pass calls on.
\<close>

section \<open>Accept loops\<close>

text \<open>What the next \<^verbatim>\<open>Accept\<close> gives.\<close>

datatype 'c accepted = Accepted 'c | AcceptFails

text \<open>The loop of the SOCKS proxy, with whether it has been stopped at each accept: the connections it hands to their handlers, and whether
  it has returned.\<close>

fun socks_accept_loop :: "('c accepted \<times> bool) list \<Rightarrow> 'c list \<times> bool" where
  "socks_accept_loop [] = ([], False)"
| "socks_accept_loop ((Accepted conn, stopped) # rounds) =
     (case socks_accept_loop rounds of (conns, returned) \<Rightarrow> (conn # conns, returned))"
| "socks_accept_loop ((AcceptFails, stopped) # rounds) = (if stopped then ([], True) else socks_accept_loop rounds)"

definition StartSOCKS :: "(string \<Rightarrow> bool) \<Rightarrow> string \<Rightarrow> ('c accepted \<times> bool) list \<Rightarrow> socks_proxy \<Rightarrow> (string, 'c list \<times> bool) outcome" where
  "StartSOCKS listen t rounds sp =
     (if \<not> listen (sp_listen sp) then Err (''socks5 listen failed: '' @ t) else Ok (socks_accept_loop rounds))"

text \<open>The loops of the HTTP proxy and of the camouflage, which nothing ends.\<close>

fun accept_loop :: "'c accepted list \<Rightarrow> 'c list" where
  "accept_loop [] = []"
| "accept_loop (Accepted conn # rounds) = conn # accept_loop rounds"
| "accept_loop (AcceptFails # rounds) = accept_loop rounds"

definition StartHTTP :: "(string \<Rightarrow> bool) \<Rightarrow> string \<Rightarrow> 'c accepted list \<Rightarrow> http_proxy \<Rightarrow> (string, 'c list) outcome" where
  "StartHTTP listen t rounds hp = (if \<not> listen (hp_listen hp) then Err t else Ok (accept_loop rounds))"

definition StartCamouflage :: "(string \<Rightarrow> bool) \<Rightarrow> string \<Rightarrow> 'c accepted list \<Rightarrow> string \<Rightarrow> (string, 'c list) outcome" where
  "StartCamouflage listen t rounds addr =
     (if \<not> listen addr then Err (''listen failed: '' @ t) else Ok (accept_loop rounds))"

text \<open>The SOCKS loop returns at the first failure after it has been stopped, and until then handles what it accepts, in order, like the others.\<close>

lemma socks_accept_loop_ends:
  "socks_accept_loop rounds =
     (accept_loop (map fst (takeWhile (\<lambda>r. r \<noteq> (AcceptFails, True)) rounds)), (AcceptFails, True) \<in> set rounds)"
  by (induction rounds rule: socks_accept_loop.induct) (auto split: prod.split)

section \<open>Starting the client\<close>

text \<open>What runs in the background, before the calling goroutine connects.\<close>

datatype client_task = RunSOCKS | RunHTTP | RunUpdates int

definition StartClient :: "client \<Rightarrow> client_task list" where
  "StartClient cl =
     RunSOCKS # (case cl_http cl of Some _ \<Rightarrow> [RunHTTP] | None \<Rightarrow> []) @
     (case cc_Subscription (cl_config cl) of
        Some sub \<Rightarrow> if sc_update_url sub \<noteq> '''' then [RunUpdates (update_interval (sc_update_interval sub))] else []
      | None \<Rightarrow> [])"

text \<open>\<^verbatim>\<open>connectWithRetry\<close> and \<^verbatim>\<open>connectPersistentWithRetry\<close>; \<open>try\<close> tries the candidates, with a persistent channel or without.\<close>

definition connectWithRetry ::
  "(bool \<Rightarrow> client \<Rightarrow> attempt) \<Rightarrow> (client \<Rightarrow> nat list) \<Rightarrow> nat \<Rightarrow> client \<Rightarrow> int list \<times> bool \<times> client" where
  "connectWithRetry try order n cl = connectLoop (try False) order n first_pause cl"

definition connectPersistentWithRetry ::
  "(bool \<Rightarrow> client \<Rightarrow> attempt) \<Rightarrow> (client \<Rightarrow> nat list) \<Rightarrow> nat \<Rightarrow> client \<Rightarrow> int list \<times> bool \<times> client" where
  "connectPersistentWithRetry try order n cl = connectLoop (try True) order n first_pause cl"

definition GetProxy :: "client \<Rightarrow> socks_proxy" where
  "GetProxy cl = cl_proxy cl"

section \<open>The loops in the background\<close>

text \<open>The updates of the subscription: the ticks, each with what the update fetches, until the stop channel is seen; with whether the loop has
  returned.\<close>

datatype update_event = Tick "string \<Rightarrow> (nat \<times> bytes option) option" | StopSeen

fun subscriptionUpdateLoop :: "(bytes \<Rightarrow> subscription_config option) \<Rightarrow> update_event list \<Rightarrow> client \<Rightarrow> bool \<times> client" where
  "subscriptionUpdateLoop unmarshal [] cl = (False, cl)"
| "subscriptionUpdateLoop unmarshal (Tick fetch # events) cl =
     subscriptionUpdateLoop unmarshal events (updateSubscription fetch unmarshal cl)"
| "subscriptionUpdateLoop unmarshal (StopSeen # events) cl = (True, cl)"

text \<open>The client never runs out of servers by an update, whatever is fetched, and keeps what it has learnt about them.\<close>

definition has_servers :: "client \<Rightarrow> (string \<rightharpoonup> health_stats) \<Rightarrow> bool" where
  "has_servers cl stats \<longleftrightarrow> (\<exists>ss. cl_selector cl = Some ss \<and> GetServers ss \<noteq> [] \<and> ss_stats ss = stats)"

lemma update_keeps_servers: "has_servers cl stats \<Longrightarrow> has_servers (updateSubscription fetch unmarshal cl) stats"
  by (auto simp: has_servers_def updateSubscription_def UpdateServers_def GetServers_def normalizeServerEntries_def
      split: option.split outcome.split)

lemma updates_keep_servers: "has_servers cl stats \<Longrightarrow> has_servers (snd (subscriptionUpdateLoop unmarshal events cl)) stats"
  by (induction unmarshal events cl rule: subscriptionUpdateLoop.induct) (auto intro: update_keeps_servers)

text \<open>\<^verbatim>\<open>pipe\<close> of the camouflage copies like the relay, but does not look at the errors of the writer.\<close>

partial_function (option) pipe ::
  "(nat \<Rightarrow> 's \<Rightarrow> io_read \<times> 's) \<Rightarrow> (bytes \<Rightarrow> 'w \<Rightarrow> io_error option \<times> 'w) \<Rightarrow> 's \<Rightarrow> 'w \<Rightarrow> ('s \<times> 'w) option"
where
  "pipe rd wr s w =
     (case rd 32768 s of
        (Got d, s') \<Rightarrow> pipe rd wr s' (if d = [] then w else snd (wr d w))
      | (Fail e, s') \<Rightarrow> Some (s', w))"

context copier
begin

text \<open>It returns and takes everything from the source, also when the writer is gone.\<close>

lemma pipe_returns:
  assumes "valid s"
  shows "\<exists>s' w'. pipe rd wr s w = Some (s', w') \<and> pending s' = [] \<and> (up w \<longrightarrow> up w' \<and> sent w' = sent w @ pending s)"
  using assms
proof (induction "weight s" arbitrary: s w rule: less_induct)
  case less
  obtain r s1 where r: "rd 32768 s = (r, s1)" by fastforce
  have v1: "valid s1" using valid_step [OF less.prems r] .
  show ?case
  proof (cases r)
    case (Fail e)
    then show ?thesis using r fail_end [OF less.prems _ r [unfolded Fail]] by (subst pipe.simps) simp
  next
    case (Got d)
    then have rd: "rd 32768 s = (Got d, s1)" using r by simp
    have p: "pending s = d @ pending s1" and w: "weight s1 < weight s"
      using got_pending [OF less.prems rd] got_progress [OF less.prems _ rd] by auto
    let ?w = "if d = [] then w else snd (wr d w)"
    have "up w \<longrightarrow> up ?w \<and> sent ?w = sent w @ d"
    proof
      assume "up w"
      then obtain w1 where "wr d w = (None, w1)" "up w1" using up_writes by blast
      then show "up ?w \<and> sent ?w = sent w @ d" using \<open>up w\<close> write_ok by auto
    qed
    then show ?thesis
      using less.hyps [OF w v1, of ?w] rd p by (subst pipe.simps) auto
  qed
qed

end

section \<open>Remaining parts of the camouflage and of MIRAGE\<close>

text \<open>The handler that \<^verbatim>\<open>NewCamouflageServer\<close> stores and nothing calls, as the answer it would give; and the end of the listener, if there is
  one.\<close>

definition default_page :: "string list" where
  "default_page =
     [''<!DOCTYPE html>'', ''<html lang='' @ [CHR 0x22] @ ''en'' @ [CHR 0x22] @ ''>'', ''<head>'',
      ''<meta charset='' @ [CHR 0x22] @ ''utf-8'' @ [CHR 0x22] @ ''>'',
      ''<meta name='' @ [CHR 0x22] @ ''viewport'' @ [CHR 0x22] @ '' content='' @ [CHR 0x22] @
        ''width=device-width, initial-scale=1'' @ [CHR 0x22] @ ''>'',
      ''<title>Welcome</title>'', ''<style>'',
      ''body{margin:0;font-family:-apple-system,BlinkMacSystemFont,sans-serif;display:flex;justify-content:center;'' @
        ''align-items:center;min-height:100vh;background:#f5f5f5}'',
      ''.c{text-align:center;padding:2em}'', ''h1{color:#333;font-size:2em;margin-bottom:.5em}'',
      ''p{color:#666;font-size:1.1em}'', ''</style>'', ''</head>'', ''<body>'',
      ''<div class='' @ [CHR 0x22] @ ''c'' @ [CHR 0x22] @ ''>'', ''<h1>Welcome</h1>'',
      ''<p>This server is running normally.</p>'', ''</div>'', ''</body>'', ''</html>'']"

definition defaultWebHandler :: http_response where
  "defaultWebHandler =
     \<lparr>hr_code = 200, hr_status = ''200 OK'',
      hr_header = [(''Server'', [''nginx/1.24.0'']), (''Content-Type'', [''text/html; charset=utf-8''])],
      hr_body = Some (str_bytes (tl (concat (map ((@) lf) default_page))))\<rparr>"

definition CloseCamouflage :: "('l \<Rightarrow> string option) \<Rightarrow> 'l option \<Rightarrow> string option" where
  "CloseCamouflage close listener = (case listener of None \<Rightarrow> None | Some l \<Rightarrow> close l)"

text \<open>The TLS dial of the HTTP client of MIRAGE and WebRTC: the connection, and the raw connection that is closed because its handshake has
  failed. \<open>handshake\<close> is that of uTLS, with a fingerprint, the name, whether the certificate is ignored and the protocols.\<close>

definition mirage_dial_tls ::
  "(string \<Rightarrow> 'raw option) \<Rightarrow> (hello_id \<Rightarrow> string \<Rightarrow> bool \<Rightarrow> string list \<Rightarrow> 'raw \<Rightarrow> 'conn option) \<Rightarrow>
   string \<Rightarrow> string \<Rightarrow> bool \<Rightarrow> string \<Rightarrow> 'conn option \<times> 'raw option" where
  "mirage_dial_tls dial handshake host fingerprint insecure addr =
     (case dial addr of
        None \<Rightarrow> (None, None)
      | Some raw \<Rightarrow>
          (case handshake (reality_hello_id fingerprint) host insecure [''http/1.1''] raw of
             None \<Rightarrow> (None, Some raw)
           | Some uconn \<Rightarrow> (Some uconn, None)))"

text \<open>The connection of a MIRAGE client, which both of its loops and its user close: what has been closed, in order.\<close>

datatype mirage_part = ResponseBody | LocalPipe | IdleConnections

record mirage_handle =
  mh_client :: bool
  mh_once :: bool
  mh_closed :: "mirage_part list"

definition mirage_conn_close :: "mirage_handle \<Rightarrow> mirage_handle" where
  "mirage_conn_close m =
     (if mh_once m then m
      else m\<lparr>mh_once := True, mh_closed := mh_closed m @ [ResponseBody, LocalPipe] @ (if mh_client m then [IdleConnections] else [])\<rparr>)"

lemma mirage_closed_once:
  assumes "\<not> mh_once m" "0 < n"
  shows "mh_closed ((mirage_conn_close ^^ n) m) = mh_closed m @ [ResponseBody, LocalPipe] @ (if mh_client m then [IdleConnections] else [])"
proof -
  have twice: "mirage_conn_close (mirage_conn_close m) = mirage_conn_close m" by (simp add: mirage_conn_close_def)
  then have idem: "(mirage_conn_close ^^ k) (mirage_conn_close m) = mirage_conn_close m" for k by (induction k) simp_all
  obtain k where "n = Suc k" using assms(2) by (cases n) auto
  then show ?thesis using assms(1) by (simp only: funpow_Suc_right comp_apply idem) (simp add: mirage_conn_close_def)
qed

section \<open>Options of the replay-protected connection\<close>

text \<open>Each asks the connection below for the operation; \<open>below\<close> is that operation, if the connection has it.\<close>

definition SetReadBuffer :: "(nat \<Rightarrow> string option) option \<Rightarrow> nat \<Rightarrow> string option" where
  "SetReadBuffer below n = (case below of Some f \<Rightarrow> f n | None \<Rightarrow> None)"

definition SetWriteBuffer :: "(nat \<Rightarrow> string option) option \<Rightarrow> nat \<Rightarrow> string option" where
  "SetWriteBuffer below n = (case below of Some f \<Rightarrow> f n | None \<Rightarrow> None)"

definition SyscallConn :: "(string, 'raw) outcome option \<Rightarrow> (string, 'raw) outcome" where
  "SyscallConn below = (case below of Some r \<Rightarrow> r | None \<Rightarrow> Err ''SyscallConn not supported'')"

section \<open>Associations\<close>

text \<open>The handle of an association; \<open>ua_once\<close> tells whether \<^verbatim>\<open>closeOnce\<close> has run.\<close>

record udp_association =
  ua_id :: u16
  ua_incoming :: nat
  ua_once :: bool

text \<open>The handle, with whether the frame loop is to be started.\<close>

definition OpenUDPAssociation :: "client_env \<Rightarrow> client \<Rightarrow> ((string, udp_association \<times> bool) outcome \<times> client) option" where
  "OpenUDPAssociation env cl =
     (case EnsurePersistentChannel env cl of
        None \<Rightarrow> None
      | Some (Some e, cl1) \<Rightarrow> Some (Err e, cl1)
      | Some (None, cl1) \<Rightarrow>
          (case open_assoc (cl_hub cl1) of
             ((assocID, box, start), h) \<Rightarrow>
               Some (Ok (\<lparr>ua_id = assocID, ua_incoming = box, ua_once = False\<rparr>, start), cl1\<lparr>cl_hub := h\<rparr>)))"

definition sendUDPFrame_client ::
  "client_env \<Rightarrow> u16 \<Rightarrow> byte \<Rightarrow> string \<Rightarrow> u16 \<Rightarrow> bytes \<Rightarrow> client \<Rightarrow> attempt" where
  "sendUDPFrame_client env assocID addrType addr port data cl =
     (case EnsurePersistentChannel env cl of
        None \<Rightarrow> None
      | Some (Some e, cl1) \<Rightarrow> Some (Some e, cl1)
      | Some (None, cl1) \<Rightarrow>
          (case cl_writer cl1 of
             None \<Rightarrow> Some (Some ''persistent channel unavailable'', cl1)
           | Some w \<Rightarrow>
               (case sendUDPFrame conn_write assocID addrType addr port data w of
                  (e, w') \<Rightarrow> Some (map_option (ce_io_text env) e, cl1\<lparr>cl_writer := Some w'\<rparr>))))"

text \<open>\<^verbatim>\<open>Send\<close> looks at nothing but the number; a missing handle is an error.\<close>

definition SendUDP ::
  "client_env \<Rightarrow> udp_association option \<Rightarrow> byte \<Rightarrow> string \<Rightarrow> u16 \<Rightarrow> bytes \<Rightarrow> client \<Rightarrow> attempt" where
  "SendUDP env ua addrType addr port data cl =
     (case ua of
        None \<Rightarrow> Some (Some ''udp association unavailable'', cl)
      | Some a \<Rightarrow> sendUDPFrame_client env (ua_id a) addrType addr port data cl)"

text \<open>\<^verbatim>\<open>unregisterUDPAssociation\<close>: out of the table, then the close frame, then the channel; \<open>None\<close> is the panic of a channel closed
  twice.\<close>

definition unregisterUDPAssociation :: "u16 \<Rightarrow> bool \<Rightarrow> client \<Rightarrow> client option" where
  "unregisterUDPAssociation assocID sendClose cl =
     (let cl1 = (if sendClose then cl\<lparr>cl_writer := map_option (send_close conn_write assocID) (cl_writer cl)\<rparr> else cl) in
      map_option (\<lambda>h. cl1\<lparr>cl_hub := h\<rparr>) (unregister assocID (cl_hub cl)))"

definition CloseUDP :: "udp_association option \<Rightarrow> client \<Rightarrow> (udp_association option \<times> client) option" where
  "CloseUDP ua cl =
     (case ua of
        None \<Rightarrow> Some (None, cl)
      | Some a \<Rightarrow>
          if ua_once a then Some (ua, cl)
          else map_option (\<lambda>cl'. (Some (a\<lparr>ua_once := True\<rparr>), cl')) (unregisterUDPAssociation (ua_id a) True cl))"

section \<open>The dial of a target\<close>

text \<open>\<open>dial\<close> stands for \<^verbatim>\<open>net.DialTimeout\<close> on TCP, with the timeout; the connection comes with whether its socket has been
  tuned.\<close>

definition DialTarget :: "(string \<Rightarrow> int \<Rightarrow> endpoint option) \<Rightarrow> string \<Rightarrow> u16 \<Rightarrow> int \<Rightarrow> (endpoint \<times> bool) option" where
  "DialTarget dial addr port timeout =
     (let target = join_host_port addr (show_nat (unat port)) in
      case dial target timeout of None \<Rightarrow> None | Some conn \<Rightarrow> Some (conn, TuneTCPConn (ep_kind conn)))"

lemma last_index_end: "CHR '':'' \<notin> set p \<Longrightarrow> last_index CHR '':'' (h @ CHR '':'' # p) = Some (length h)"
proof (induction h)
  case Nil
  have "CHR '':'' \<notin> set p \<Longrightarrow> last_index CHR '':'' p = None" for p
    by (induction p) auto
  then show ?case using Nil by simp
qed simp

lemma index_of_first: "c \<notin> set h \<Longrightarrow> index_of c (h @ c # r) = Some (length h)"
  by (induction h) auto

text \<open>The text that is dialled splits into the address and the port again, with and without the brackets of IPv6.\<close>

lemma dial_target_text:
  assumes "CHR ''['' \<notin> set addr" "CHR '']'' \<notin> set addr"
  shows "split_host_port (join_host_port addr (show_nat (unat port))) = Some (addr, show_nat (unat port))"
proof -
  let ?p = "show_nat (unat port)"
  have digit: "digit_char d \<notin> {CHR '':'', CHR ''['', CHR '']''}" if "d < 10" for d
    using that by (auto simp: digit_char_def of_char_of dest!: arg_cong [where f = "of_char :: char \<Rightarrow> nat"])
  have "c \<notin> {CHR '':'', CHR ''['', CHR '']''}" if "c \<in> set ?p" for c
    using show_nat_chars [OF that] digit by metis
  then have p: "CHR '':'' \<notin> set ?p" "CHR ''['' \<notin> set ?p" "CHR '']'' \<notin> set ?p" by blast+
  show ?thesis
  proof (cases "CHR '':'' \<in> set addr")
    case True
    have s: "join_host_port addr ?p = (''['' @ addr @ '']'') @ CHR '':'' # ?p" "index_of CHR '']'' (join_host_port addr ?p) = Some (length addr + 1)"
      using True index_of_first [of "CHR '']''" "CHR ''['' # addr" "CHR '':'' # ?p"] assms by (simp_all add: join_host_port_def)
    then show ?thesis
      using last_index_end [OF p(1), of "''['' @ addr @ '']''"] assms p by (simp add: split_host_port_def)
  next
    case False
    then have s: "join_host_port addr ?p = addr @ CHR '':'' # ?p" by (simp add: join_host_port_def)
    have "hd (addr @ CHR '':'' # ?p) \<noteq> CHR ''[''" using assms by (cases addr) auto
    then show ?thesis
      using last_index_end [OF p(1), of addr] assms p False by (simp add: s split_host_port_def)
  qed
qed

text \<open>The life of an association on a client whose persistent channel is up: opening it gives a channel of its own, closing it takes out that
  entry alone, sends the close frame and closes the channel, and closing it again does nothing.\<close>

lemma association_closed_once:
  assumes "cl_writer cl = Some w" "cl_reader cl \<noteq> None" "hub_ok (cl_hub cl)" "OpenUDPAssociation env cl = Some (Ok (ua, start), cl1)"
  shows "hb_handlers (cl_hub cl1) = (hb_handlers (cl_hub cl))(ua_id ua \<mapsto> ua_incoming ua)"
    "ua_incoming ua \<notin> ran (hb_handlers (cl_hub cl))" "start \<longleftrightarrow> \<not> hb_loop (cl_hub cl)"
    "\<exists>cl2. CloseUDP (Some ua) cl1 = Some (Some (ua\<lparr>ua_once := True\<rparr>), cl2) \<and>
       hb_handlers (cl_hub cl2) = (hb_handlers (cl_hub cl))(ua_id ua := None) \<and>
       ua_incoming ua \<in> hb_closed (cl_hub cl2) \<and> cl_writer cl2 = Some (send_close conn_write (ua_id ua) w) \<and>
       CloseUDP (Some (ua\<lparr>ua_once := True\<rparr>)) cl3 = Some (Some (ua\<lparr>ua_once := True\<rparr>), cl3)"
proof -
  have e: "EnsurePersistentChannel env cl = Some (None, cl)" using assms(1,2) by (simp add: EnsurePersistentChannel_def)
  have new: "hb_fresh (cl_hub cl) \<notin> ran (hb_handlers (cl_hub cl))" "hb_fresh (cl_hub cl) \<notin> hb_closed (cl_hub cl)"
    using assms(3) unfolding hub_ok_def in_tables_def by blast+
  show "hb_handlers (cl_hub cl1) = (hb_handlers (cl_hub cl))(ua_id ua \<mapsto> ua_incoming ua)" "ua_incoming ua \<notin> ran (hb_handlers (cl_hub cl))"
    "start \<longleftrightarrow> \<not> hb_loop (cl_hub cl)"
    using assms(4) new by (auto simp: OpenUDPAssociation_def e open_assoc_def Let_def)
  show "\<exists>cl2. CloseUDP (Some ua) cl1 = Some (Some (ua\<lparr>ua_once := True\<rparr>), cl2) \<and>
       hb_handlers (cl_hub cl2) = (hb_handlers (cl_hub cl))(ua_id ua := None) \<and>
       ua_incoming ua \<in> hb_closed (cl_hub cl2) \<and> cl_writer cl2 = Some (send_close conn_write (ua_id ua) w) \<and>
       CloseUDP (Some (ua\<lparr>ua_once := True\<rparr>)) cl3 = Some (Some (ua\<lparr>ua_once := True\<rparr>), cl3)"
    using assms(1,4) new
    by (auto simp: OpenUDPAssociation_def e open_assoc_def Let_def CloseUDP_def unregisterUDPAssociation_def unregister_def
        take_assoc_def close_chan_def)
qed

text \<open>Sending does not notice that an association has been closed.\<close>

lemma send_after_close:
  "SendUDP env (Some (ua\<lparr>ua_once := b\<rparr>)) addrType addr port data cl = SendUDP env (Some ua) addrType addr port data cl"
  by (simp add: SendUDP_def)

end
