(* ===== verification/Devices.thy ===== *)
theory Devices
  imports Client "HOL-Library.State_Monad"
begin

text \<open>
  \<^verbatim>\<open>core/vpn/vpn_linux.go\<close>, \<^verbatim>\<open>vpn_windows.go\<close> and \<^verbatim>\<open>vpn_android.go\<close>: the packet device and its configuration, and the start
  of the TUN client of \<^verbatim>\<open>core/transport/tun_client.go\<close> that uses them. A configuration is a series of commands; the
  system that runs them is a parameter, and the commands that have been run are kept in the state.
\<close>

section \<open>Running commands\<close>

type_synonym command = "string list"

text \<open>A command gives its output and, when it fails, the text of its error.\<close>

type_synonym 'os exec = "command \<Rightarrow> 'os \<Rightarrow> (string \<times> string option) \<times> 'os"

record 'os host =
  host_os :: 'os
  host_ran :: "command list"

definition run_cmd :: "'os exec \<Rightarrow> command \<Rightarrow> ('os host, string \<times> string option) state" where
  "run_cmd ex c = State (\<lambda>h. case ex c (host_os h) of (r, os) \<Rightarrow> (r, \<lparr>host_os = os, host_ran = host_ran h @ [c]\<rparr>))"

section \<open>Linux\<close>

definition NewTunDevice_linux :: "string option \<Rightarrow> string \<Rightarrow> (string, string) outcome" where
  "NewTunDevice_linux created t =
     (case created of None \<Rightarrow> Err (''failed to create TUN device: '' @ t) | Some name \<Rightarrow> Ok name)"

definition ip_forward_cmd :: command where
  "ip_forward_cmd = [''sysctl'', ''-w'', ''net.ipv4.ip_forward=1'']"

definition default_route_cmd :: command where
  "default_route_cmd = [''bash'', ''-c'', ''ip route get 8.8.8.8 | awk '{print $5; exit}'' @ [CHR 0x27]]"

definition iptables_cmd :: "string \<Rightarrow> string list \<Rightarrow> command" where
  "iptables_cmd table args = ''iptables'' # ''-t'' # table # args"

definition setupIptables :: "'os exec \<Rightarrow> string \<Rightarrow> string list \<Rightarrow> ('os host, unit) state" where
  "setupIptables ex table args = do {
     _ \<leftarrow> run_cmd ex (iptables_cmd table args);
     State_Monad.return ()
   }"

definition nat_rules :: "string \<Rightarrow> string \<Rightarrow> (string \<times> string list) list" where
  "nat_rules name defIface =
     [(''nat'', [''-A'', ''POSTROUTING'', ''-o'', defIface, ''-j'', ''MASQUERADE'']),
      (''filter'', [''-A'', ''FORWARD'', ''-i'', name, ''-o'', defIface, ''-j'', ''ACCEPT'']),
      (''filter'', [''-A'', ''FORWARD'', ''-i'', defIface, ''-o'', name, ''-m'', ''state'', ''--state'',
         ''RELATED,ESTABLISHED'', ''-j'', ''ACCEPT''])]"

fun setup_rules :: "'os exec \<Rightarrow> (string \<times> string list) list \<Rightarrow> ('os host, unit) state" where
  "setup_rules ex [] = State_Monad.return ()"
| "setup_rules ex ((table, args) # rules) = do {
     _ \<leftarrow> setupIptables ex table args;
     setup_rules ex rules
   }"

text \<open>The part for servers; its result is never an error.\<close>

definition configure_nat :: "'os exec \<Rightarrow> string \<Rightarrow> ('os host, unit) state" where
  "configure_nat ex name = do {
     _ \<leftarrow> run_cmd ex ip_forward_cmd;
     d \<leftarrow> run_cmd ex default_route_cmd;
     (case snd d of
        Some e \<Rightarrow> State_Monad.return ()
      | None \<Rightarrow>
          let defIface = trim_space (fst d) in
          if defIface = '''' then State_Monad.return () else setup_rules ex (nat_rules name defIface))
   }"

text \<open>The result is the text of the error, if there is one.\<close>

definition Configure_linux :: "'os exec \<Rightarrow> string \<Rightarrow> string \<Rightarrow> string \<Rightarrow> ('os host, string option) state" where
  "Configure_linux ex cidr name serverPublicIP = do {
     _ \<leftarrow> run_cmd ex [''ip'', ''link'', ''set'', ''dev'', name, ''mtu'', ''65535''];
     a \<leftarrow> run_cmd ex [''ip'', ''addr'', ''add'', cidr, ''dev'', name];
     (case snd a of
        Some e \<Rightarrow> State_Monad.return (Some (''ip addr add failed: '' @ e))
      | None \<Rightarrow> do {
          u \<leftarrow> run_cmd ex [''ip'', ''link'', ''set'', ''dev'', name, ''up''];
          (case snd u of
             Some e \<Rightarrow> State_Monad.return (Some (''ip link set up failed: '' @ e))
           | None \<Rightarrow> do {
               _ \<leftarrow> run_cmd ex [''ip'', ''link'', ''set'', ''dev'', name, ''txqueuelen'', ''1000''];
               _ \<leftarrow> (if serverPublicIP = '''' then configure_nat ex name else State_Monad.return ());
               State_Monad.return None
             })
        })
   }"

section \<open>Windows\<close>

definition NewTunDevice_windows :: "bool \<Rightarrow> string option \<Rightarrow> string \<Rightarrow> (string, string) outcome" where
  "NewTunDevice_windows created reported t =
     (if \<not> created then Err (''failed to create TUN device: '' @ t)
      else Ok (case reported of Some realName \<Rightarrow> realName | None \<Rightarrow> ''stealthlink''))"

text \<open>The device reads packets in batches: how many, and the size of the first one.\<close>

definition ReadPacket_windows :: "(io_error, nat \<times> nat) outcome \<Rightarrow> (io_error, nat) outcome" where
  "ReadPacket_windows r =
     (case r of Ok (n, len) \<Rightarrow> Ok (if n = 0 then 0 else len) | Err e \<Rightarrow> Err e | Panic \<Rightarrow> Panic)"

text \<open>\<^verbatim>\<open>net.ParseCIDR\<close> also gives the address itself, which \<open>parse_cidr\<close> leaves out.\<close>

definition cidr_ip :: "string \<Rightarrow> ip" where
  "cidr_ip cidr = (case parse_ip (takeWhile (\<lambda>c. c \<noteq> CHR ''/'') cidr) of Some ip \<Rightarrow> ip | None \<Rightarrow> [])"

definition gateway_cmd :: command where
  "gateway_cmd = [''powershell'', ''-Command'',
     ''(Get-NetRoute -DestinationPrefix '0.0.0.0/0' | Select-Object -ExpandProperty NextHop | Select-Object -First 1)'']"

definition enable_router_cmd :: command where
  "enable_router_cmd = [''powershell'', ''-Command'',
     ''Set-ItemProperty -Path 'HKLM:'' @ [CHR 0x5C] @ ''SYSTEM'' @ [CHR 0x5C] @ ''CurrentControlSet'' @ [CHR 0x5C] @
     ''Services'' @ [CHR 0x5C] @ ''Tcpip'' @ [CHR 0x5C] @ ''Parameters' -Name 'IPEnableRouter' -Value 1'']"

definition remove_nat_cmd :: command where
  "remove_nat_cmd = [''powershell'', ''-Command'',
     ''Remove-NetNat -Name 'StealthLinkNAT' -Confirm:$false -ErrorAction SilentlyContinue'']"

definition new_nat_cmd :: "string \<Rightarrow> command" where
  "new_nat_cmd cidr = [''powershell'', ''-Command'',
     ''New-NetNat -Name 'StealthLinkNAT' -InternalIPInterfaceAddressPrefix '' @ [CHR 0x27] @ cidr @ [CHR 0x27]]"

definition exclusion_host :: "(string \<Rightarrow> ip list) \<Rightarrow> string \<Rightarrow> string" where
  "exclusion_host lookup serverPublicIP =
     (let host0 = host_of serverPublicIP; host = (if host0 = '''' then serverPublicIP else host0) in
      case lookup host of ip # _ \<Rightarrow> ip_string ip | [] \<Rightarrow> host)"

definition Configure_windows ::
  "(string \<Rightarrow> ip list) \<Rightarrow> 'os exec \<Rightarrow> string \<Rightarrow> string \<Rightarrow> string \<Rightarrow> ('os host, string option) state" where
  "Configure_windows lookup ex cidr name serverPublicIP =
     (case parse_cidr cidr of
        None \<Rightarrow> State_Monad.return (Some (''invalid cidr: invalid CIDR address: '' @ cidr))
      | Some ipNet \<Rightarrow> do {
          a \<leftarrow> run_cmd ex [''netsh'', ''interface'', ''ip'', ''set'', ''address'', name, ''static'',
            ip_string (cidr_ip cidr), ip_string (net_mask ipNet)];
          (case snd a of
             Some e \<Rightarrow> State_Monad.return (Some (''netsh set address failed: '' @ e @ '', output: '' @ fst a))
           | None \<Rightarrow> do {
               _ \<leftarrow> run_cmd ex [''netsh'', ''interface'', ''ip'', ''set'', ''dns'', name, ''static'', ''8.8.8.8''];
               _ \<leftarrow> (if serverPublicIP \<noteq> '''' then do {
                   g \<leftarrow> run_cmd ex gateway_cmd;
                   _ \<leftarrow> (let physGw = trim_space (fst g) in
                      if snd g = None \<and> physGw \<noteq> ''''
                      then run_cmd ex [''route'', ''add'', exclusion_host lookup serverPublicIP, ''mask'', ''255.255.255.255'', physGw]
                      else State_Monad.return ('''', None));
                   run_cmd ex [''netsh'', ''interface'', ''ip'', ''add'', ''route'', ''0.0.0.0/0'', name, ''metric=1'']
                 } else do {
                   _ \<leftarrow> run_cmd ex enable_router_cmd;
                   _ \<leftarrow> run_cmd ex remove_nat_cmd;
                   run_cmd ex (new_nat_cmd cidr)
                 });
               State_Monad.return None
             })
        })"

section \<open>Android\<close>

definition NewTunDeviceFromFD :: "bool \<Rightarrow> nat \<Rightarrow> (string, string) outcome" where
  "NewTunDeviceFromFD valid fd =
     (if \<not> valid then Err (''invalid file descriptor: '' @ show_nat fd) else Ok ''tun0'')"

definition NewTunDevice_android :: "(string, string) outcome" where
  "NewTunDevice_android = Err ''on Android, use NewTunDeviceFromFD with VpnService file descriptor''"

definition Configure_android :: "string \<Rightarrow> string \<Rightarrow> string \<Rightarrow> ('os host, string option) state" where
  "Configure_android cidr name serverPublicIP = State_Monad.return None"

section \<open>Starting the TUN client\<close>

text \<open>The device with its configuration, or the error; \<open>configure\<close> is that of the platform for the client's addresses.\<close>

definition tun_setup ::
  "(string, string) outcome \<Rightarrow> (string \<Rightarrow> string \<Rightarrow> ('os host, string option) state) \<Rightarrow> string \<Rightarrow>
   ('os host, (string, string) outcome) state" where
  "tun_setup dev configure serverIP =
     (case dev of
        Err e \<Rightarrow> State_Monad.return (Err (''TUN creation failed: '' @ e))
      | Panic \<Rightarrow> State_Monad.return Panic
      | Ok name \<Rightarrow> do {
          r \<leftarrow> configure name serverIP;
          State_Monad.return (case r of Some e \<Rightarrow> Err (''TUN configuration failed: '' @ e) | None \<Rightarrow> Ok name)
        })"

text \<open>The wait for the connection: in each round whether the client is connected, and whether it has been stopped since; \<open>None\<close>
  while it still waits.\<close>

fun await_connected :: "(bool \<times> bool) list \<Rightarrow> bool option" where
  "await_connected [] = None"
| "await_connected ((connected, stopped) # rounds) =
     (if connected then Some True else if stopped then Some False else await_connected rounds)"

datatype tun_end = TunFailed string | TunStoppedEarly | TunActive string | TunWaiting string

definition StartTun ::
  "(string \<Rightarrow> ip list) \<Rightarrow> (string, string) outcome \<Rightarrow> (string \<Rightarrow> string \<Rightarrow> ('os host, string option) state) \<Rightarrow>
   (bool \<times> bool) list \<Rightarrow> tun_client \<Rightarrow> ('os host, (unit, tun_end \<times> tun_client) outcome) state" where
  "StartTun lookup dev configure rounds tc = do {
     r \<leftarrow> tun_setup dev configure (tun_server_ip lookup (cc_ServerAddr (cl_config (tc_client tc))));
     State_Monad.return (case r of
       Err e \<Rightarrow> Ok (TunFailed e, tc)
     | Panic \<Rightarrow> Panic
     | Ok name \<Rightarrow> Ok (case await_connected rounds of
           None \<Rightarrow> (TunWaiting name, tc)
         | Some False \<Rightarrow> (TunStoppedEarly, tc)
         | Some True \<Rightarrow> (TunActive name, tc\<lparr>tc_running := True\<rparr>)))
   }"

section \<open>What is run\<close>

lemma run_state_cmd:
  "run_state (run_cmd ex c) h =
     (fst (ex c (host_os h)), \<lparr>host_os = snd (ex c (host_os h)), host_ran = host_ran h @ [c]\<rparr>)"
  by (simp add: run_cmd_def split: prod.split)

lemma setup_rules_ran:
  "host_ran (snd (run_state (setup_rules ex rules) h)) = host_ran h @ map (\<lambda>(table, args). iptables_cmd table args) rules"
  by (induction ex rules arbitrary: h rule: setup_rules.induct)
     (simp_all add: setupIptables_def run_state_cmd split: prod.split)

lemma configure_nat_ran:
  "\<exists>cs. host_ran (snd (run_state (configure_nat ex name) h)) = host_ran h @ ip_forward_cmd # default_route_cmd # cs \<and>
     (cs = [] \<or> (\<exists>defIface. cs = map (\<lambda>(table, args). iptables_cmd table args) (nat_rules name defIface)))"
  by (auto simp: configure_nat_def run_state_cmd Let_def setup_rules_ran split: option.split)

lemma configure_linux_ran:
  assumes "run_state (Configure_linux ex cidr name ip) h = (r, h')"
  shows "\<exists>cs. host_ran h' = host_ran h @ cs \<and> (ip_forward_cmd \<in> set cs \<longleftrightarrow> r = None \<and> ip = '''') \<and>
    (ip \<noteq> '''' \<longrightarrow> list_all (\<lambda>c. hd c = ''ip'') cs)"
proof -
  have nat: "\<exists>cs. host_ran (snd (run_state (configure_nat ex name) h)) = host_ran h @ ip_forward_cmd # cs" for h
    using configure_nat_ran [of ex name h] by auto
  obtain after where after: "host_ran h2 = host_ran h1 @ ip_forward_cmd # after h1"
    if "run_state (configure_nat ex name) h1 = (u, h2)" for h1 u h2
    using nat by (metis snd_conv)
  show ?thesis
    using assms
    by (auto simp: Configure_linux_def run_state_cmd ip_forward_cmd_def dest!: after split: option.splits if_splits prod.splits)
qed

lemma configure_windows_ran:
  assumes "run_state (Configure_windows lookup ex cidr name ip) h = (r, h')"
  shows "\<exists>cs. host_ran h' = host_ran h @ cs \<and> (enable_router_cmd \<in> set cs \<longleftrightarrow> r = None \<and> ip = '''')"
  using assms
  by (auto simp: Configure_windows_def run_state_cmd enable_router_cmd_def gateway_cmd_def remove_nat_cmd_def new_nat_cmd_def Let_def
      split: option.splits if_splits prod.splits)

lemma start_tun_configures:
  assumes "run_state (StartTun lookup (Ok name) configure rounds tc) h = (Ok (e, tc'), h')"
  shows "\<exists>r. run_state (configure name (tun_server_ip lookup (cc_ServerAddr (cl_config (tc_client tc))))) h = (r, h') \<and>
    (r = None \<longleftrightarrow> (\<forall>m. e \<noteq> TunFailed m))"
  using assms by (auto simp: StartTun_def tun_setup_def split: prod.splits option.splits bool.splits)

text \<open>C39. A client that turns into a router. The server's configuration of the device, which makes the system forward packets, is
  chosen by an empty server address; and when the TUN client starts with a device, the address it passes is empty when the
  configured one has no host and port, as for a client that takes its servers from a subscription. So on Linux and on Windows
  forwarding is enabled by a client exactly when it gets that far without an address; with an address it only
  sets up its own interface.\<close>

theorem tun_client_becomes_router:
  assumes "run_state (StartTun lookup (Ok name) (Configure_linux ex cidr) rounds tc) \<lparr>host_os = os, host_ran = []\<rparr> = (Ok (e, tc'), h)"
    and "run_state (StartTun lookup (Ok name) (Configure_windows lookup ex cidr) rounds tc) \<lparr>host_os = os, host_ran = []\<rparr> = (Ok (e2, tc2), h2)"
    and "addr = cc_ServerAddr (cl_config (tc_client tc))" "lookup '''' = []"
  shows "(ip_forward_cmd \<in> set (host_ran h) \<longleftrightarrow> tun_server_ip lookup addr = '''' \<and> (\<forall>m. e \<noteq> TunFailed m)) \<and>
    (enable_router_cmd \<in> set (host_ran h2) \<longleftrightarrow> tun_server_ip lookup addr = '''' \<and> (\<forall>m. e2 \<noteq> TunFailed m)) \<and>
    (tun_server_ip lookup addr \<noteq> '''' \<longrightarrow> list_all (\<lambda>c. hd c = ''ip'') (host_ran h)) \<and>
    (split_host_port addr = None \<longrightarrow> tun_server_ip lookup addr = '''')"
proof -
  obtain r where r: "run_state (Configure_linux ex cidr name (tun_server_ip lookup addr)) \<lparr>host_os = os, host_ran = []\<rparr> = (r, h)"
    "r = None \<longleftrightarrow> (\<forall>m. e \<noteq> TunFailed m)"
    using start_tun_configures [OF assms(1)] assms(3) by blast
  obtain r2 where r2: "run_state (Configure_windows lookup ex cidr name (tun_server_ip lookup addr)) \<lparr>host_os = os, host_ran = []\<rparr> = (r2, h2)"
    "r2 = None \<longleftrightarrow> (\<forall>m. e2 \<noteq> TunFailed m)"
    using start_tun_configures [OF assms(2)] assms(3) by blast
  have "split_host_port addr = None \<Longrightarrow> tun_server_ip lookup addr = ''''"
    using assms(4) by (simp add: tun_server_ip_def host_of_def)
  then show ?thesis
    using configure_linux_ran [OF r(1)] configure_windows_ran [OF r2(1)] r(2) r2(2) by auto
qed

text \<open>Every start adds the rules of the packet filter once more, as nothing looks for them and nothing takes them away.\<close>

lemma nat_rules_accumulate:
  assumes "\<And>c os. snd (fst (ex c os)) = None" "\<And>os. trim_space (fst (fst (ex default_route_cmd os))) = defIface" "defIface \<noteq> ''''"
    and "(table, args) \<in> set (nat_rules name defIface)"
  shows "count_list (host_ran (snd (run_state (Configure_linux ex cidr name '''') h))) (iptables_cmd table args) =
    Suc (count_list (host_ran h) (iptables_cmd table args))"
proof -
  let ?rules = "map (\<lambda>(table, args). iptables_cmd table args) (nat_rules name defIface)"
  have nat: "host_ran (snd (run_state (configure_nat ex name) h)) = host_ran h @ ip_forward_cmd # default_route_cmd # ?rules" for h
    using assms(1-3) by (simp add: configure_nat_def run_state_cmd setup_rules_ran Let_def)
  have "\<exists>cs. host_ran (snd (run_state (Configure_linux ex cidr name '''') h)) = host_ran h @ cs @ ip_forward_cmd # default_route_cmd # ?rules \<and>
      list_all (\<lambda>c. hd c = ''ip'') cs"
    using assms(1) by (simp add: Configure_linux_def run_state_cmd nat case_prod_unfold)
  then obtain cs where cs: "host_ran (snd (run_state (Configure_linux ex cidr name '''') h)) =
      host_ran h @ cs @ ip_forward_cmd # default_route_cmd # ?rules" "list_all (\<lambda>c. hd c = ''ip'') cs" by blast
  have "count_list cs (iptables_cmd table args) = 0" using cs(2) by (auto simp: count_list_0_iff iptables_cmd_def list_all_iff)
  then show ?thesis
    using assms(4) by (auto simp: cs(1) nat_rules_def iptables_cmd_def ip_forward_cmd_def default_route_cmd_def)
qed

theorem tun_client_becomes_router_witness:
  "\<exists>tc h tc2 h2.
     run_state (StartTun (\<lambda>_. []) (Ok ''tun0'') (Configure_linux (\<lambda>c os. ((''eth0'', None), os)) ''10.0.0.1/24'') [(True, False)]
       (NewTunClient (sample_client_config\<lparr>cc_ServerAddr := ''''\<rparr>))) \<lparr>host_os = (), host_ran = []\<rparr> = (Ok (TunActive ''tun0'', tc), h) \<and>
     run_state (StartTun (\<lambda>_. []) (Ok ''tun0'') (Configure_windows (\<lambda>_. []) (\<lambda>c os. ((''eth0'', None), os)) ''10.0.0.1/24'') [(True, False)]
       (NewTunClient (sample_client_config\<lparr>cc_ServerAddr := ''''\<rparr>))) \<lparr>host_os = (), host_ran = []\<rparr> = (Ok (TunActive ''tun0'', tc2), h2) \<and>
     ip_forward_cmd \<in> set (host_ran h) \<and> enable_router_cmd \<in> set (host_ran h2)"
proof -
  let ?ex = "\<lambda>c os. ((''eth0'', None), os) :: (string \<times> string option) \<times> unit"
  let ?tc = "NewTunClient (sample_client_config\<lparr>cc_ServerAddr := ''''\<rparr>)" and ?lookup = "\<lambda>_. [] :: ip list"
  let ?h = "\<lparr>host_os = (), host_ran = []\<rparr>"
  have addr: "cc_ServerAddr (cl_config (tc_client ?tc)) = ''''" by (simp add: NewTunClient_def NewClient_def Let_def)
  have none: "split_host_port '''' = None" by (simp add: split_host_port_def)
  have empty: "tun_server_ip ?lookup '''' = ''''" by (simp add: tun_server_ip_def host_of_def none)
  have cidr: "parse_cidr ''10.0.0.1/24'' = Some \<lparr>net_ip = [10, 0, 0, 0], net_mask = [255, 255, 255, 0]\<rparr>" by code_simp
  have none_left: "fst (run_state (Configure_linux ?ex ''10.0.0.1/24'' ''tun0'' '''') ?h) = None"
    "fst (run_state (Configure_windows ?lookup ?ex ''10.0.0.1/24'' ''tun0'' '''') ?h) = None"
    by (simp_all add: Configure_linux_def Configure_windows_def run_state_cmd cidr case_prod_unfold)
  obtain h tc where l: "run_state (StartTun ?lookup (Ok ''tun0'') (Configure_linux ?ex ''10.0.0.1/24'') [(True, False)] ?tc) ?h =
      (Ok (TunActive ''tun0'', tc), h)"
    using none_left(1) by (simp add: StartTun_def tun_setup_def addr empty case_prod_unfold)
  obtain h2 tc2 where w: "run_state (StartTun ?lookup (Ok ''tun0'') (Configure_windows ?lookup ?ex ''10.0.0.1/24'') [(True, False)] ?tc) ?h =
      (Ok (TunActive ''tun0'', tc2), h2)"
    using none_left(2) by (simp add: StartTun_def tun_setup_def addr empty case_prod_unfold)
  have "ip_forward_cmd \<in> set (host_ran h) \<and> enable_router_cmd \<in> set (host_ran h2)"
    using tun_client_becomes_router [OF l w refl refl] addr empty by simp
  then show ?thesis using l w by blast
qed

end
