(* ===== verification/Mobile.thy ===== *)
theory Mobile
  imports Devices
begin

text \<open>
  \<^verbatim>\<open>mobile/mobile.go\<close>: the client behind a packet device that the application hands over, with its two loops; and the stop channel
  that it, the TUN client and the client itself close in the same way.
\<close>

section \<open>The client\<close>

record vpn_client =
  vc_config :: client_config
  vc_client :: "client option"
  vc_dev :: "string option"
  vc_running :: bool
  vc_stopped :: bool

definition NewVPNClient :: "string \<Rightarrow> vpn_client" where
  "NewVPNClient addr =
     \<lparr>vc_config = \<lparr>cc_ServerAddr = addr, cc_PSK = '''', cc_SNI = '''', cc_Transport = ''tls'', cc_SecretPath = ''/api/v2/sync'',
        cc_SOCKSAddr = ''127.0.0.1:1080'', cc_HTTPAddr = '''', cc_Subscription = None, cc_Fingerprint = '''',
        cc_InsecureSkip = False, cc_RealityPublicKey = '''', cc_RealityShortID = '''', cc_MiragePath = '''',
        cc_MasquePath = '''', cc_WebRTCPath = '''', cc_WebRTCSTUN = []\<rparr>,
      vc_client = None, vc_dev = None, vc_running = False, vc_stopped = False\<rparr>"

definition SetPSK :: "string \<Rightarrow> vpn_client \<Rightarrow> vpn_client" where
  "SetPSK psk vc = vc\<lparr>vc_config := (vc_config vc)\<lparr>cc_PSK := psk\<rparr>\<rparr>"

definition SetSNI :: "string \<Rightarrow> vpn_client \<Rightarrow> vpn_client" where
  "SetSNI sni vc = vc\<lparr>vc_config := (vc_config vc)\<lparr>cc_SNI := sni\<rparr>\<rparr>"

definition SetTransport :: "string \<Rightarrow> vpn_client \<Rightarrow> vpn_client" where
  "SetTransport t vc = vc\<lparr>vc_config := (vc_config vc)\<lparr>cc_Transport := t\<rparr>\<rparr>"

definition SetSecretPath :: "string \<Rightarrow> vpn_client \<Rightarrow> vpn_client" where
  "SetSecretPath path vc = vc\<lparr>vc_config := (vc_config vc)\<lparr>cc_SecretPath := path\<rparr>\<rparr>"

text \<open>The new client is started in the background.\<close>

definition ConnectVPN :: "string \<Rightarrow> vpn_client \<Rightarrow> vpn_client" where
  "ConnectVPN sni vc =
     (let vc1 = (if sni \<noteq> '''' then SetSNI sni vc else vc) in vc1\<lparr>vc_client := Some (NewClient (vc_config vc1))\<rparr>)"

definition IsRunning :: "vpn_client \<Rightarrow> bool" where
  "IsRunning vc = vc_running vc"

definition Disconnect :: "nat list \<Rightarrow> vpn_client \<Rightarrow> vpn_client" where
  "Disconnect chs vc =
     vc\<lparr>vc_running := False, vc_stopped := True, vc_client := map_option (StopClient chs) (vc_client vc)\<rparr>"

section \<open>The loops\<close>

text \<open>A round of a loop goes on, ends the loop with an error or without one, or crashes: the methods of a client that is not there
  take its lock.\<close>

datatype loop_round = GoesOn vpn_client | Ends "string option" vpn_client | Crashes

definition loop_ends :: "string \<Rightarrow> vpn_client \<Rightarrow> loop_round" where
  "loop_ends e vc = Ends (if \<not> vc_running vc then None else Some e) vc"

definition tunToVPN_mobile :: "client_env \<Rightarrow> (string, bytes) outcome \<Rightarrow> vpn_client \<Rightarrow> loop_round option" where
  "tunToVPN_mobile env packet vc =
     (if vc_stopped vc then Some (Ends None vc)
      else case packet of
        Err e \<Rightarrow> Some (loop_ends (''TUN read error: '' @ e) vc)
      | Panic \<Rightarrow> Some Crashes
      | Ok data \<Rightarrow>
          if data = [] then Some (GoesOn vc)
          else (case vc_client vc of
              None \<Rightarrow> Some Crashes
            | Some cl \<Rightarrow> map_option (\<lambda>(err, cl'). GoesOn (vc\<lparr>vc_client := Some cl'\<rparr>)) (WriteIPFrame env data cl)))"

text \<open>With what the round writes to the device.\<close>

definition vpnToTun_mobile :: "client_env \<Rightarrow> pool \<Rightarrow> vpn_client \<Rightarrow> (bytes list \<times> loop_round) option" where
  "vpnToTun_mobile env p vc =
     (if vc_stopped vc then Some ([], Ends None vc)
      else case vc_client vc of
        None \<Rightarrow> Some ([], Crashes)
      | Some cl \<Rightarrow>
          (case ReadFrame_client env p cl of
             None \<Rightarrow> None
           | Some (Err e, cl') \<Rightarrow> Some ([], loop_ends (''VPN read error: '' @ e) (vc\<lparr>vc_client := Some cl'\<rparr>))
           | Some (Panic, _) \<Rightarrow> Some ([], Crashes)
           | Some (Ok frame, cl') \<Rightarrow>
               Some (if frame_type frame = FrameIP then [frame_payload frame] else [], GoesOn (vc\<lparr>vc_client := Some cl'\<rparr>))))"

text \<open>The two loops in any order; a turn that waits changes nothing.\<close>

datatype loop_turn = DeviceTurn "(string, bytes) outcome" | TunnelTurn

definition take_turn :: "client_env \<Rightarrow> pool \<Rightarrow> loop_turn \<Rightarrow> vpn_client \<Rightarrow> bytes list \<times> loop_round" where
  "take_turn env p turn vc =
     (case turn of
        DeviceTurn packet \<Rightarrow> ([], case tunToVPN_mobile env packet vc of None \<Rightarrow> GoesOn vc | Some r \<Rightarrow> r)
      | TunnelTurn \<Rightarrow> (case vpnToTun_mobile env p vc of None \<Rightarrow> ([], GoesOn vc) | Some r \<Rightarrow> r))"

fun run_loops :: "client_env \<Rightarrow> pool \<Rightarrow> loop_turn list \<Rightarrow> vpn_client \<Rightarrow> bytes list \<times> loop_round" where
  "run_loops env p [] vc = ([], GoesOn vc)"
| "run_loops env p (turn # turns) vc =
     (case take_turn env p turn vc of
        (out, GoesOn vc') \<Rightarrow> (case run_loops env p turns vc' of (out', r) \<Rightarrow> (out @ out', r))
      | (out, r) \<Rightarrow> (out, r))"

text \<open>The first loop that ends disconnects the client.\<close>

definition RunTunnel ::
  "client_env \<Rightarrow> pool \<Rightarrow> nat list \<Rightarrow> (string, string) outcome \<Rightarrow> loop_turn list \<Rightarrow> vpn_client \<Rightarrow> bytes list \<times> loop_round" where
  "RunTunnel env p chs dev turns vc =
     (case dev of
        Err e \<Rightarrow> ([], Ends (Some (''failed to create TUN from FD: '' @ e)) vc)
      | Panic \<Rightarrow> ([], Crashes)
      | Ok name \<Rightarrow>
          (case run_loops env p turns (vc\<lparr>vc_dev := Some name, vc_running := True\<rparr>) of
             (out, Ends err vc') \<Rightarrow> (out, Ends err (Disconnect chs vc'))
           | r \<Rightarrow> r))"

section \<open>Packets through the loops\<close>

definition channel_up :: "vpn_client \<Rightarrow> conn_out frame_writer \<Rightarrow> conn_in \<Rightarrow> bool" where
  "channel_up vc w s \<longleftrightarrow> \<not> vc_stopped vc \<and>
     (\<exists>cl. vc_client vc = Some cl \<and> cl_writer cl = Some w \<and> cl_reader cl = Some s \<and> \<not> hb_loop (cl_hub cl))"

definition ip_frame :: "bytes \<Rightarrow> frame" where
  "ip_frame d = \<lparr>frame_type = FrameIP, frame_payload = d\<rparr>"

definition device_packets :: "loop_turn list \<Rightarrow> bytes list" where
  "device_packets turns = List.map_filter (\<lambda>t. case t of DeviceTurn (Ok d) \<Rightarrow> if d = [] then None else Some d | _ \<Rightarrow> None) turns"

lemma device_turn:
  assumes "channel_up vc w s" "d \<noteq> []"
  shows "\<exists>vc'. take_turn env p (DeviceTurn (Ok d)) vc = ([], GoesOn vc') \<and>
    channel_up vc' (snd (WriteTypedFrame conn_write (ip_frame d) w)) s"
  using assms by (auto simp: take_turn_def tunToVPN_mobile_def channel_up_def WriteIPFrame_def EnsurePersistentChannel_def ip_frame_def
      split: prod.split)

lemma tunnel_turn:
  assumes "channel_up vc w s" "pool_ok p" "fits f" "concat (arriving s) = enc_frame f @ r"
  shows "\<exists>vc' s'. take_turn env p TunnelTurn vc = (vpnToTun f, GoesOn vc') \<and> channel_up vc' w s' \<and> concat (arriving s') = r"
proof -
  have d: "dec_frame (ending s) (concat (arriving s)) = Ok (f, r)"
    unfolding assms(4) by (rule wire_frame.dec_enc [OF assms(3)])
  obtain p' s' where "ReadTypedFrame conn_read p s = Some (Ok f, p', s')" "concat (arriving s') = r"
    by (rule net_frames.ReadTypedFrame_dec [OF TrueI assms(2), of s]) (simp add: d frame_result_def rest_after_def)
  then show ?thesis
    using assms(1) by (auto simp: take_turn_def vpnToTun_mobile_def channel_up_def ReadFrame_client_def vpnToTun_def)
qed

text \<open>No device read fails or panics.\<close>

definition device_reads_ok :: "loop_turn list \<Rightarrow> bool" where
  "device_reads_ok turns \<longleftrightarrow> (\<forall>t\<in>set turns. t = TunnelTurn \<or> (\<exists>d. t = DeviceTurn (Ok d)))"

definition tunnel_turns :: "loop_turn list \<Rightarrow> nat" where
  "tunnel_turns turns = length (filter (\<lambda>t. t = TunnelTurn) turns)"

lemma loops_move_packets:
  assumes "channel_up vc w s" "pool_ok p" "\<forall>f\<in>set fs. fits f" "concat (arriving s) = concat (map enc_frame fs) @ rest"
    and "tunnel_turns turns \<le> length fs" "device_reads_ok turns"
  shows "\<exists>vc' s'. run_loops env p turns vc = (concat (map vpnToTun (take (tunnel_turns turns) fs)), GoesOn vc') \<and>
    channel_up vc' (snd (fw_run conn_write (map (\<lambda>d. WriteTyped (ip_frame d)) (device_packets turns)) w)) s'"
  using assms
proof (induction turns arbitrary: vc w s fs)
  case Nil
  then show ?case by (auto simp: tunnel_turns_def device_packets_def)
next
  case (Cons t turns)
  have ok: "device_reads_ok turns" using Cons.prems(6) by (simp add: device_reads_ok_def)
  consider (tunnel) "t = TunnelTurn" | (empty) "t = DeviceTurn (Ok [])" | (packet) d where "t = DeviceTurn (Ok d)" "d \<noteq> []"
    using Cons.prems(6) by (auto simp: device_reads_ok_def)
  then show ?case
  proof cases
    case tunnel
    then obtain f fs' where fs: "fs = f # fs'" using Cons.prems(5) by (cases fs) (auto simp: tunnel_turns_def)
    obtain vc1 s1 where t: "take_turn env p TunnelTurn vc = (vpnToTun f, GoesOn vc1)" "channel_up vc1 w s1"
      "concat (arriving s1) = concat (map enc_frame fs') @ rest"
      using tunnel_turn [OF Cons.prems(1,2), of f "concat (map enc_frame fs') @ rest" env] Cons.prems(3,4) fs by auto
    from Cons.IH [OF t(2) Cons.prems(2) _ t(3) _ ok] Cons.prems(3,5) fs tunnel t(1) show ?thesis
      by (auto simp: tunnel_turns_def device_packets_def List.map_filter_def)
  next
    case empty
    have "take_turn env p t vc = ([], GoesOn vc)"
      using Cons.prems(1) empty by (simp add: take_turn_def tunToVPN_mobile_def channel_up_def)
    with Cons.IH [OF Cons.prems(1-4) _ ok] Cons.prems(5) empty show ?thesis
      by (simp add: tunnel_turns_def device_packets_def List.map_filter_def)
  next
    case (packet d)
    obtain vc1 where t: "take_turn env p t vc = ([], GoesOn vc1)"
      "channel_up vc1 (snd (WriteTypedFrame conn_write (ip_frame d) w)) s"
      using device_turn [OF Cons.prems(1) packet(2)] packet(1) by blast
    with Cons.IH [OF t(2) Cons.prems(2-4) _ ok] Cons.prems(5) packet show ?thesis
      by (simp add: tunnel_turns_def device_packets_def List.map_filter_def case_prod_unfold)
  qed
qed

text \<open>C36. The tunnel of the mobile client. While the persistent channel is up the two loops, in any order, write to the device exactly the packets
  of the frames that arrive, in order and skipping frames of other types, and give the frame writer each non-empty packet of the device as
  one frame, in order; neither loop ends.\<close>

theorem mobile_tunnel_moves_packets:
  assumes "channel_up vc w s" "pool_ok p" "\<forall>f\<in>set fs. fits f" "concat (arriving s) = concat (map enc_frame fs) @ rest"
    and "tunnel_turns turns \<le> length fs" "device_reads_ok turns"
  shows "\<exists>vc' s'. RunTunnel env p chs (Ok name) turns vc = (concat (map vpnToTun (take (tunnel_turns turns) fs)), GoesOn vc') \<and>
    channel_up vc' (snd (fw_run conn_write (map (\<lambda>d. WriteTyped (ip_frame d)) (device_packets turns)) w)) s'"
proof -
  have "channel_up (vc\<lparr>vc_dev := Some name, vc_running := True\<rparr>) w s" using assms(1) by (simp add: channel_up_def)
  from loops_move_packets [OF this assms(2-6), of env] show ?thesis by (auto simp: RunTunnel_def)
qed

theorem mobile_tunnel_moves_packets_witness:
  "\<forall>env. \<exists>vc vc' s'. channel_up vc (NewFrameWriter \<lparr>taken = [], lives = None\<rparr>)
       \<lparr>arriving = [enc_frame (ip_frame [1, 2]), enc_frame \<lparr>frame_type = 3, frame_payload = []\<rparr>], ending = EOF\<rparr> \<and>
     RunTunnel env \<lparr>idle = [], fresh = 0\<rparr> [] (Ok ''tun0'') [TunnelTurn, DeviceTurn (Ok [7]), TunnelTurn, DeviceTurn (Ok [])] vc = ([[1, 2]], GoesOn vc') \<and>
     channel_up vc' (snd (WriteTypedFrame conn_write (ip_frame [7]) (NewFrameWriter \<lparr>taken = [], lives = None\<rparr>))) s'"
proof
  fix env
  let ?w = "NewFrameWriter \<lparr>taken = [], lives = None\<rparr>" and ?fs = "[ip_frame [1, 2], \<lparr>frame_type = 3, frame_payload = []\<rparr>]"
  let ?s = "\<lparr>arriving = map enc_frame ?fs, ending = EOF\<rparr>" and ?p = "\<lparr>idle = [], fresh = 0\<rparr> :: pool"
  let ?turns = "[TunnelTurn, DeviceTurn (Ok [7]), TunnelTurn, DeviceTurn (Ok [])]"
  let ?vc = "(NewVPNClient ''a:443'')\<lparr>vc_client := Some ((NewClient (vc_config (NewVPNClient ''a:443'')))\<lparr>cl_writer := Some ?w, cl_reader := Some ?s\<rparr>)\<rparr>"
  have "channel_up ?vc ?w ?s" by (simp add: channel_up_def NewVPNClient_def NewClient_def Let_def hub_start_def)
  moreover have "pool_ok ?p" by (simp add: pool_ok_def)
  moreover have "\<forall>f\<in>set ?fs. fits f" by (simp add: fits_def ip_frame_def MaxFrameSize_def)
  moreover have "concat (arriving ?s) = concat (map enc_frame ?fs) @ []" by simp
  moreover have "tunnel_turns ?turns \<le> length ?fs" "device_reads_ok ?turns" by (auto simp: tunnel_turns_def device_reads_ok_def)
  ultimately obtain vc' s' where "RunTunnel env ?p [] (Ok ''tun0'') ?turns ?vc = (concat (map vpnToTun (take (tunnel_turns ?turns) ?fs)), GoesOn vc')"
    "channel_up vc' (snd (fw_run conn_write (map (\<lambda>d. WriteTyped (ip_frame d)) (device_packets ?turns)) ?w)) s'"
    using mobile_tunnel_moves_packets [of ?vc ?w ?s ?p ?fs "[]" ?turns env "[]" "''tun0''"] by blast
  moreover have "concat (map vpnToTun (take (tunnel_turns ?turns) ?fs)) = [[1, 2]]"
    by (simp add: tunnel_turns_def vpnToTun_def ip_frame_def FrameIP_def)
  moreover have "device_packets ?turns = [[7]]" by (simp add: device_packets_def List.map_filter_def)
  ultimately show "\<exists>vc vc' s'. channel_up vc ?w \<lparr>arriving = [enc_frame (ip_frame [1, 2]), enc_frame \<lparr>frame_type = 3, frame_payload = []\<rparr>], ending = EOF\<rparr> \<and>
     RunTunnel env ?p [] (Ok ''tun0'') ?turns vc = ([[1, 2]], GoesOn vc') \<and>
     channel_up vc' (snd (WriteTypedFrame conn_write (ip_frame [7]) ?w)) s'"
    using \<open>channel_up ?vc ?w ?s\<close> by (fastforce simp: case_prod_unfold)
qed

section \<open>The end of the tunnel\<close>

lemma unconnected_client:
  assumes "cl_writer cl = None" "cl_reader cl = None" "cl_quic cl = None" "cl_active cl = None" "\<not> hb_loop (cl_hub cl)"
  shows "WriteIPFrame env d cl = Some (Some ''persistent channel unavailable'', cl)"
    "ReadFrame_client env p cl = Some (Err ''persistent channel unavailable'', cl)"
  using assms by (simp_all add: WriteIPFrame_def ReadFrame_client_def EnsurePersistentChannel_def)

lemma new_client_unconnected:
  "cl_writer (NewClient c) = None" "cl_reader (NewClient c) = None" "cl_quic (NewClient c) = None" "cl_active (NewClient c) = None"
  "\<not> hb_loop (cl_hub (NewClient c))"
  by (simp_all add: NewClient_def Let_def hub_start_def)

lemma loops_before_connection:
  assumes "vc_client vc = Some (NewClient c)" "\<not> vc_stopped vc" "vc_running vc" "\<forall>t\<in>set before. \<exists>d. t = DeviceTurn (Ok d)"
  shows "run_loops env p (before @ TunnelTurn # after) vc = ([], Ends (Some ''VPN read error: persistent channel unavailable'') vc)"
  using assms(4)
proof (induction before)
  case Nil
  then show ?case
    using assms(1-3) unconnected_client(2) [OF new_client_unconnected, of env p c]
    by (simp add: take_turn_def vpnToTun_mobile_def loop_ends_def)
next
  case (Cons t before)
  then obtain d where "t = DeviceTurn (Ok d)" by auto
  then have "take_turn env p t vc = ([], GoesOn vc)"
    using assms(1,2) unconnected_client(1) [OF new_client_unconnected, of env d c]
    by (simp add: take_turn_def tunToVPN_mobile_def)
  then show ?case using Cons by simp
qed

text \<open>C37. How the tunnel ends. A client that has been disconnected is done for: connecting again makes a new client, but the tunnel returns at once,
  without an error and without moving a packet. A tunnel that is run before the client, which connects in the
  background, is connected ends with an error at its first read, whatever the device gave until then, and disconnects the
  client; and one that is run before connecting crashes at its first packet.\<close>

theorem mobile_tunnel_stops:
  "(vc_stopped vc \<longrightarrow> RunTunnel env p chs (Ok name) (turn # turns) (ConnectVPN sni vc) =
      ([], Ends None (Disconnect chs ((ConnectVPN sni vc)\<lparr>vc_dev := Some name, vc_running := True\<rparr>)))) \<and>
   (\<not> vc_stopped vc \<and> (\<forall>t\<in>set before. \<exists>d. t = DeviceTurn (Ok d)) \<longrightarrow>
      (\<exists>vc'. RunTunnel env p chs (Ok name) (before @ TunnelTurn # after) (ConnectVPN sni vc) =
        ([], Ends (Some ''VPN read error: persistent channel unavailable'') vc') \<and> vc_stopped vc' \<and> \<not> IsRunning vc')) \<and>
   (\<not> vc_stopped vc \<and> vc_client vc = None \<and> d \<noteq> [] \<longrightarrow>
      RunTunnel env p chs (Ok name) (DeviceTurn (Ok d) # turns) vc = ([], Crashes))"
proof (intro conjI impI)
  assume "vc_stopped vc"
  then have "vc_stopped (ConnectVPN sni vc)" by (simp add: ConnectVPN_def Let_def SetSNI_def)
  then show "RunTunnel env p chs (Ok name) (turn # turns) (ConnectVPN sni vc) =
      ([], Ends None (Disconnect chs ((ConnectVPN sni vc)\<lparr>vc_dev := Some name, vc_running := True\<rparr>)))"
    by (cases turn) (simp_all add: RunTunnel_def take_turn_def tunToVPN_mobile_def vpnToTun_mobile_def)
next
  assume a: "\<not> vc_stopped vc \<and> (\<forall>t\<in>set before. \<exists>d. t = DeviceTurn (Ok d))"
  let ?vc = "(ConnectVPN sni vc)\<lparr>vc_dev := Some name, vc_running := True\<rparr>"
  obtain c where c: "vc_client ?vc = Some (NewClient c)" by (simp add: ConnectVPN_def Let_def)
  have "\<not> vc_stopped ?vc" using a by (simp add: ConnectVPN_def Let_def SetSNI_def)
  from loops_before_connection [OF c this] a
  have "run_loops env p (before @ TunnelTurn # after) ?vc = ([], Ends (Some ''VPN read error: persistent channel unavailable'') ?vc)" by simp
  then show "\<exists>vc'. RunTunnel env p chs (Ok name) (before @ TunnelTurn # after) (ConnectVPN sni vc) =
        ([], Ends (Some ''VPN read error: persistent channel unavailable'') vc') \<and> vc_stopped vc' \<and> \<not> IsRunning vc'"
    by (simp add: RunTunnel_def Disconnect_def IsRunning_def)
next
  assume "\<not> vc_stopped vc \<and> vc_client vc = None \<and> d \<noteq> []"
  then show "RunTunnel env p chs (Ok name) (DeviceTurn (Ok d) # turns) vc = ([], Crashes)"
    by (simp add: RunTunnel_def take_turn_def tunToVPN_mobile_def)
qed

theorem mobile_tunnel_stops_witness:
  "\<forall>env p. \<exists>vc1 vc2. RunTunnel env p [] (Ok ''tun0'') [DeviceTurn (Ok [1]), TunnelTurn] (ConnectVPN ''s'' (NewVPNClient ''a:443'')) =
      ([], Ends (Some ''VPN read error: persistent channel unavailable'') vc1) \<and>
    RunTunnel env p [] (Ok ''tun0'') [TunnelTurn] (ConnectVPN ''s'' vc1) = ([], Ends None vc2) \<and>
    RunTunnel env p [] (Ok ''tun0'') [DeviceTurn (Ok [1])] (NewVPNClient ''a:443'') = ([], Crashes)"
proof (intro allI)
  fix env p
  let ?vc = "NewVPNClient ''a:443''"
  have new: "\<not> vc_stopped ?vc" "vc_client ?vc = None" by (simp_all add: NewVPNClient_def)
  obtain vc1 where vc1: "RunTunnel env p [] (Ok ''tun0'') ([DeviceTurn (Ok [1])] @ TunnelTurn # []) (ConnectVPN ''s'' ?vc) =
      ([], Ends (Some ''VPN read error: persistent channel unavailable'') vc1)" "vc_stopped vc1"
    using mobile_tunnel_stops [of ?vc env p "[]" "''tun0''" TunnelTurn "[]" "''s''" "[DeviceTurn (Ok [1])]" "[]" "[1]"] new by auto
  show "\<exists>vc1 vc2. RunTunnel env p [] (Ok ''tun0'') [DeviceTurn (Ok [1]), TunnelTurn] (ConnectVPN ''s'' ?vc) =
      ([], Ends (Some ''VPN read error: persistent channel unavailable'') vc1) \<and>
    RunTunnel env p [] (Ok ''tun0'') [TunnelTurn] (ConnectVPN ''s'' vc1) = ([], Ends None vc2) \<and>
    RunTunnel env p [] (Ok ''tun0'') [DeviceTurn (Ok [1])] ?vc = ([], Crashes)"
    using mobile_tunnel_stops [of vc1 env p "[]" "''tun0''" TunnelTurn "[]" "''s''"] vc1 new
      mobile_tunnel_stops [of ?vc env p "[]" "''tun0''" TunnelTurn "[]" "''s''" "[]" "[]" "[1]"] by auto
qed

section \<open>Stopping\<close>

text \<open>
  \<^verbatim>\<open>Stop\<close> of the client and of the TUN client and \<^verbatim>\<open>Disconnect\<close> look whether the stop channel is closed, and close it if it is not,
  as two steps that no lock joins; closing a closed channel panics, which ends the program. With \<open>alone\<close> a caller looks only when no
  other one is between its steps.
\<close>

datatype stopper = NotYet | SawOpen | StoppedIt

record stop_state =
  sc_closed :: bool
  sc_panicked :: bool
  sc_caller :: "nat \<Rightarrow> stopper"

definition stop_start :: stop_state where
  "stop_start = \<lparr>sc_closed = False, sc_panicked = False, sc_caller = (\<lambda>_. NotYet)\<rparr>"

definition close_stop :: "stop_state \<Rightarrow> stop_state" where
  "close_stop s = (if sc_closed s then s\<lparr>sc_panicked := True\<rparr> else s\<lparr>sc_closed := True\<rparr>)"

inductive stop_step :: "bool \<Rightarrow> stop_state \<Rightarrow> stop_state \<Rightarrow> bool" for alone where
  looks: "\<not> sc_panicked s \<Longrightarrow> sc_caller s j = NotYet \<Longrightarrow> (alone \<Longrightarrow> \<forall>i. sc_caller s i \<noteq> SawOpen) \<Longrightarrow>
    stop_step alone s (s\<lparr>sc_caller := (sc_caller s)(j := if sc_closed s then StoppedIt else SawOpen)\<rparr>)"
| closes: "\<not> sc_panicked s \<Longrightarrow> sc_caller s j = SawOpen \<Longrightarrow>
    stop_step alone s ((close_stop s)\<lparr>sc_caller := (sc_caller s)(j := StoppedIt)\<rparr>)"

inductive_cases stop_stepE: "stop_step alone s s'"

text \<open>At most one caller is inside, only while the channel is open; the channel is closed by the first that gets through.\<close>

definition stops_apart :: "stop_state \<Rightarrow> bool" where
  "stops_apart s \<longleftrightarrow> \<not> sc_panicked s \<and> (\<forall>i j. sc_caller s i = SawOpen \<and> sc_caller s j = SawOpen \<longrightarrow> i = j) \<and>
     (\<forall>i. sc_caller s i = SawOpen \<longrightarrow> \<not> sc_closed s) \<and> (sc_closed s \<longleftrightarrow> (\<exists>i. sc_caller s i = StoppedIt))"

lemma stops_apart_step: "stop_step True s s' \<Longrightarrow> stops_apart s \<Longrightarrow> stops_apart s'"
  by (cases rule: stop_step.cases, assumption) (auto simp: stops_apart_def close_stop_def split: if_splits)

lemma stops_apart_steps: "(stop_step True)\<^sup>*\<^sup>* s s' \<Longrightarrow> stops_apart s \<Longrightarrow> stops_apart s'"
  by (induction rule: rtranclp_induct) (auto dest: stops_apart_step)

text \<open>C40. Stopping once and only once. Callers that stop one after another never panic, and have closed the channel exactly when one of them is
  done; two callers that overlap, such as the application and the end of a loop, can both close it, and the program crashes.\<close>

theorem stop_channel_race:
  assumes "(stop_step True)\<^sup>*\<^sup>* stop_start s"
  shows "\<not> sc_panicked s \<and> (sc_closed s \<longleftrightarrow> (\<exists>j. sc_caller s j = StoppedIt)) \<and>
    (\<exists>s'. (stop_step False)\<^sup>*\<^sup>* stop_start s' \<and> sc_panicked s' \<and> (\<forall>j. 2 \<le> j \<longrightarrow> sc_caller s' j = NotYet))"
proof (intro conjI)
  have "stops_apart stop_start" by (simp add: stops_apart_def stop_start_def)
  then have "stops_apart s" using stops_apart_steps [OF assms] by blast
  then show "\<not> sc_panicked s" "sc_closed s \<longleftrightarrow> (\<exists>j. sc_caller s j = StoppedIt)" by (simp_all add: stops_apart_def)
next
  define s1 where "s1 = stop_start\<lparr>sc_caller := (sc_caller stop_start)(0 := SawOpen)\<rparr>"
  define s2 where "s2 = s1\<lparr>sc_caller := (sc_caller s1)(1 := SawOpen)\<rparr>"
  define s3 where "s3 = (close_stop s2)\<lparr>sc_caller := (sc_caller s2)(0 := StoppedIt)\<rparr>"
  define s4 where "s4 = (close_stop s3)\<lparr>sc_caller := (sc_caller s3)(1 := StoppedIt)\<rparr>"
  note defs = s1_def s2_def s3_def s4_def stop_start_def close_stop_def
  have "stop_step False stop_start s1" using stop_step.looks [of stop_start 0 False] by (simp add: defs)
  moreover have "stop_step False s1 s2" using stop_step.looks [of s1 1 False] by (simp add: defs)
  moreover have "stop_step False s2 s3" unfolding s3_def by (rule stop_step.closes) (simp_all add: defs)
  moreover have "stop_step False s3 s4" unfolding s4_def by (rule stop_step.closes) (simp_all add: defs)
  ultimately have "(stop_step False)\<^sup>*\<^sup>* stop_start s4" by (meson converse_rtranclp_into_rtranclp rtranclp.rtrancl_refl)
  then show "\<exists>s'. (stop_step False)\<^sup>*\<^sup>* stop_start s' \<and> sc_panicked s' \<and> (\<forall>j. 2 \<le> j \<longrightarrow> sc_caller s' j = NotYet)"
    by (rule exI [of _ s4, OF conjI]) (simp add: defs)
qed

theorem stop_channel_race_witness:
  "sc_closed (close_stop stop_start) \<and> \<not> sc_panicked ((close_stop stop_start)\<lparr>sc_caller := (\<lambda>_. NotYet)(0 := StoppedIt)\<rparr>)"
proof -
  let ?s1 = "stop_start\<lparr>sc_caller := (\<lambda>_. NotYet)(0 := SawOpen)\<rparr>"
  let ?s2 = "(close_stop stop_start)\<lparr>sc_caller := (\<lambda>_. NotYet)(0 := StoppedIt)\<rparr>"
  have "stop_step True stop_start ?s1" using stop_step.looks [of stop_start 0 True] by (simp add: stop_start_def)
  moreover have "stop_step True ?s1 ?s2" using stop_step.closes [of ?s1 0 True] by (simp add: stop_start_def close_stop_def)
  ultimately have "(stop_step True)\<^sup>*\<^sup>* stop_start ?s2" by (meson converse_rtranclp_into_rtranclp rtranclp.rtrancl_refl)
  from stop_channel_race [OF this] show ?thesis by (auto intro: exI [of _ 0])
qed

end
