(* ===== verification/Commands.thy ===== *)
theory Commands
  imports Transports Mobile
begin

text \<open>
  \<^verbatim>\<open>cmd/client/main.go\<close> and \<^verbatim>\<open>cmd/server/main.go\<close>: what the two programs make of their flags and files. The padding and stealth
  settings of the client, which nothing reads, are left out of its configuration.
\<close>

section \<open>The client program\<close>

record client_flags =
  fl_server :: string
  fl_psk :: string
  fl_sni :: string
  fl_transport :: string
  fl_socks :: string
  fl_http :: string
  fl_path :: string
  fl_insecure :: bool
  fl_sub :: string
  fl_fingerprint :: string
  fl_reality_key :: string
  fl_reality_short_id :: string
  fl_mirage_path :: string
  fl_masque_path :: string
  fl_webrtc_path :: string

definition default_flags :: client_flags where
  "default_flags =
     \<lparr>fl_server = '''', fl_psk = '''', fl_sni = '''', fl_transport = ''tls'', fl_socks = ''127.0.0.1:1080'', fl_http = '''',
      fl_path = ''/api/v2/sync'', fl_insecure = False, fl_sub = '''', fl_fingerprint = '''', fl_reality_key = '''',
      fl_reality_short_id = '''', fl_mirage_path = '''', fl_masque_path = '''', fl_webrtc_path = ''''\<rparr>"

datatype main_error = BadSubscription link_error | NoServer

definition client_subscription ::
  "(bytes \<Rightarrow> subscription_config option) \<Rightarrow> client_flags \<Rightarrow> (main_error, subscription_config option) outcome" where
  "client_subscription unmarshal fl =
     (if fl_sub fl \<noteq> '''' then
        (case DecodeSubscriptionURL unmarshal (fl_sub fl) of
           Ok sub \<Rightarrow> Ok (Some sub)
         | Err e \<Rightarrow> Err (BadSubscription e)
         | Panic \<Rightarrow> Panic)
      else if fl_server fl = '''' then Err NoServer
      else Ok None)"

definition client_main_config :: "client_flags \<Rightarrow> subscription_config option \<Rightarrow> client_config" where
  "client_main_config fl subscription =
     \<lparr>cc_ServerAddr = fl_server fl, cc_PSK = fl_psk fl, cc_SNI = fl_sni fl, cc_Transport = fl_transport fl,
      cc_SecretPath = fl_path fl, cc_SOCKSAddr = fl_socks fl, cc_HTTPAddr = fl_http fl, cc_Subscription = subscription,
      cc_Fingerprint = fl_fingerprint fl, cc_InsecureSkip = fl_insecure fl, cc_RealityPublicKey = fl_reality_key fl,
      cc_RealityShortID = fl_reality_short_id fl, cc_MiragePath = fl_mirage_path fl, cc_MasquePath = fl_masque_path fl,
      cc_WebRTCPath = fl_webrtc_path fl, cc_WebRTCSTUN = []\<rparr>"

definition client_main ::
  "(bytes \<Rightarrow> subscription_config option) \<Rightarrow> client_flags \<Rightarrow> (main_error, client) outcome" where
  "client_main unmarshal fl =
     (case client_subscription unmarshal fl of
        Ok subscription \<Rightarrow> Ok (NewClient (client_main_config fl subscription))
      | Err e \<Rightarrow> Err e
      | Panic \<Rightarrow> Panic)"

section \<open>The server program\<close>

record server_flags =
  sf_config :: string
  sf_gen_config :: bool
  sf_gen_reality :: bool

text \<open>What the program does: print a pair of keys, write a file, or serve; or end with an error.\<close>

datatype server_action =
    PrintsKeys string string
  | WritesConfig string bytes
  | Serves "listener list" server
  | EndsWithError

definition generateDefaultConfig :: "(config_file \<Rightarrow> bytes option) \<Rightarrow> (string \<Rightarrow> bool) \<Rightarrow> string \<Rightarrow> server_action" where
  "generateDefaultConfig marshal writable path =
     (case marshal DefaultConfig of
        None \<Rightarrow> EndsWithError
      | Some data \<Rightarrow> if writable path then WritesConfig path data else EndsWithError)"

text \<open>The environment: X25519 and the randomness for it, the JSON package, the files and the bounds of \<^verbatim>\<open>NewServer\<close>.\<close>

record server_env =
  sm_crypto :: reality_crypto
  sm_random :: "bytes option"
  sm_marshal :: "config_file \<Rightarrow> bytes option"
  sm_decode :: "bytes \<Rightarrow> config_file option"
  sm_file :: "string \<Rightarrow> bytes option"
  sm_writable :: "string \<Rightarrow> bool"
  sm_parse_time :: "string \<Rightarrow> time option"
  sm_blank :: bloom

definition server_main :: "server_env \<Rightarrow> server_flags \<Rightarrow> server_action" where
  "server_main env sf =
     (if sf_gen_reality sf then
        (case GenerateRealityKeypair (sm_crypto env) (sm_random env) of
           Some (priv, pub) \<Rightarrow> PrintsKeys priv pub
         | None \<Rightarrow> EndsWithError)
      else if sf_gen_config sf then generateDefaultConfig (sm_marshal env) (sm_writable env) (sf_config sf)
      else
        let cfg = (case LoadConfig (sm_decode env) (sm_file env (sf_config sf)) of None \<Rightarrow> DefaultConfig | Some c \<Rightarrow> c) in
        (case StartServer (NewServer (sm_parse_time env) (sm_blank env) (ToServerConfig cfg)) of
           (ls, sv) \<Rightarrow> Serves ls sv))"

section \<open>What they start with\<close>

text \<open>A client program that gets to its client has servers to try exactly when it was given an address or a subscription that names some.\<close>

lemma new_client_selector:
  "cl_selector (NewClient c) = None \<longleftrightarrow>
     cc_ServerAddr c = '''' \<and> (\<forall>sub. cc_Subscription c = Some sub \<longrightarrow> sc_servers sub = [])"
proof -
  have config: "cc_ServerAddr (cl_config (NewClient c)) = cc_ServerAddr c" "cc_Subscription (cl_config (NewClient c)) = cc_Subscription c"
    by (simp_all add: NewClient_def Let_def)
  have "cl_selector (NewClient c) =
      (case cc_Subscription (cl_config (NewClient c)) of
         Some sub \<Rightarrow>
           if sc_servers sub \<noteq> [] then Some (NewServerSelector (sc_servers sub))
           else if cc_ServerAddr (cl_config (NewClient c)) \<noteq> '''' then Some (NewServerSelector [defaultServerEntry (cl_config (NewClient c))]) else None
       | None \<Rightarrow>
           if cc_ServerAddr (cl_config (NewClient c)) \<noteq> '''' then Some (NewServerSelector [defaultServerEntry (cl_config (NewClient c))]) else None)"
    unfolding NewClient_def Let_def by (simp only: client.select_convs)
  then show ?thesis by (simp add: config split: option.split)
qed

lemma client_main_servers:
  assumes "client_main unmarshal fl = Ok cl"
  shows "cl_selector cl = None \<longleftrightarrow> fl_server fl = '''' \<and>
    (\<exists>sub. DecodeSubscriptionURL unmarshal (fl_sub fl) = Ok sub \<and> sc_servers sub = [])"
proof -
  obtain subscription where s: "client_subscription unmarshal fl = Ok subscription"
    "cl = NewClient (client_main_config fl subscription)"
    using assms by (auto simp: client_main_def split: outcome.splits)
  have "cl_selector cl = None \<longleftrightarrow> fl_server fl = '''' \<and> (\<forall>sub. subscription = Some sub \<longrightarrow> sc_servers sub = [])"
    by (simp add: s(2) new_client_selector client_main_config_def)
  then show ?thesis using s(1) by (auto simp: client_subscription_def split: outcome.splits if_splits)
qed

text \<open>A program started by the flags of its own documentation: the secret path, the proxy and the transport are the defaults.\<close>

lemma client_main_defaults:
  assumes "client_main unmarshal (default_flags\<lparr>fl_server := addr, fl_psk := psk\<rparr>) = Ok cl"
  shows "addr \<noteq> ''''" "cl_selector cl = Some (NewServerSelector [defaultServerEntry (cl_config cl)])"
    "cc_SecretPath (cl_config cl) = SecretPath (cfg_camouflage DefaultConfig)" "cc_Transport (cl_config cl) = cfg_transport DefaultConfig"
  using assms
  by (auto simp: client_main_def client_subscription_def client_main_config_def default_flags_def NewClient_def Let_def DefaultConfig_def
      split: if_splits)

definition default_psk :: string where "default_psk = ''change-me-to-a-strong-random-key''"

lemma default_users:
  "users (sv_auth (NewServer parse blank (ToServerConfig DefaultConfig))) =
     [''default'' \<mapsto> prepare_user parse (hd (cfg_users DefaultConfig))]"
  by (simp add: NewServer_def ToServerConfig_def DefaultConfig_def Let_def NewAuthManager_def AddUser_def)

text \<open>C38. A server that cannot read its configuration is open to everyone. If the file is missing or cannot be decoded, the program serves the default
  configuration, on port 443 and with camouflage, and whoever knows the key that the source names is let in as the
  user \<^verbatim>\<open>default\<close>, from any address, as soon as the clocks agree.\<close>

theorem unreadable_config_serves_default:
  assumes "\<not> sf_gen_reality sf" "\<not> sf_gen_config sf" "LoadConfig (sm_decode env) (sm_file env (sf_config sf)) = None"
    and "sm_parse_time env '''' = None"
    and "GenerateAuthPayload default_psk t0 (Some nonce) = Some d" "length nonce = 24"
    and "unix_minute now - 1 \<le> unix_minute t0" "unix_minute t0 \<le> unix_minute now"
  shows "\<exists>sv session. server_main env sf = Serves [ListenTLS] sv \<and> svc_BindAddress (sv_config sv) = '':443'' \<and>
    cf_Enabled (svc_Camouflage (sv_config sv)) \<and>
    fst (ValidateAuth [''default''] t now (d @ r) addr (sv_auth sv)) = Ok session \<and> u_id (as_user session) = ''default''"
proof -
  let ?sv = "NewServer (sm_parse_time env) (sm_blank env) (ToServerConfig DefaultConfig)"
  let ?u = "prepare_user (sm_parse_time env) (hd (cfg_users DefaultConfig))"
  have "svc_Transport (sv_config ?sv) = ''tls''" by (simp add: NewServer_def ToServerConfig_def DefaultConfig_def Let_def)
  then have "StartServer ?sv = ([ListenTLS], ?sv)" unfolding StartServer_def Let_def by (simp only: if_False if_True) simp
  then have main: "server_main env sf = Serves [ListenTLS] ?sv"
    using assms(1-3) unfolding server_main_def Let_def by (simp only: if_False option.case prod.case)
  have conf: "svc_BindAddress (sv_config ?sv) = '':443''" "cf_Enabled (svc_Camouflage (sv_config ?sv))"
    by (simp_all add: NewServer_def ToServerConfig_def DefaultConfig_def Let_def)
  note users = default_users [of "sm_parse_time env" "sm_blank env"]
  have u: "users (sv_auth ?sv) ''default'' = Some ?u" "u_psk ?u = default_psk" "u_id ?u = ''default''" "\<not> expired now ?u"
    using users assms(4) by (simp_all add: prepare_user_def Let_def DefaultConfig_def default_psk_def expired_def)
  have ok: "users_ok (sv_auth ?sv)" unfolding NewServer_def by (simp add: NewAuthManager_ok)
  have rate: "fst (checkRateLimit (remote_ip addr) t (sv_auth ?sv))"
    by (simp add: checkRateLimit_entry NewServer_def ToServerConfig_def DefaultConfig_def Let_def NewAuthManager_def AddUser_def)
  have order: "set [''default''] = dom (users (sv_auth ?sv))" using users by simp
  obtain session where s: "fst (ValidateAuth [''default''] t now (d @ r) addr (sv_auth ?sv)) = Ok session"
    using generated_accepted [OF assms(5,6) u(1,2) ok u(4) assms(7,8) rate order] by blast
  obtain am' where "ValidateAuth [''default''] t now (d @ r) addr (sv_auth ?sv) = (Ok session, am')"
    using s by (metis prod.collapse)
  from ValidateAuth_Ok [OF this] obtain i where "users (sv_auth ?sv) i = Some (as_user session)" by blast
  then have "as_user session = ?u" unfolding users by (simp split: if_splits)
  then have "u_id (as_user session) = ''default''" using u(3) by simp
  with main conf s show ?thesis by (intro exI [of _ ?sv] exI [of _ session] conjI)
qed

definition sample_server_env :: server_env where
  "sample_server_env =
     \<lparr>sm_crypto = sample_crypto, sm_random = None, sm_marshal = (\<lambda>_. None), sm_decode = (\<lambda>_. None), sm_file = (\<lambda>_. Some []),
      sm_writable = (\<lambda>_. False), sm_parse_time = (\<lambda>_. None), sm_blank = \<lparr>bitset = [], bf_m = 0, bf_k = 0\<rparr>\<rparr>"

theorem unreadable_config_serves_default_witness:
  "\<exists>d sv session. GenerateAuthPayload default_psk 59000000000 (Some (replicate 24 7)) = Some d \<and>
     server_main sample_server_env \<lparr>sf_config = ''config.json'', sf_gen_config = False, sf_gen_reality = False\<rparr> = Serves [ListenTLS] sv \<and>
     fst (ValidateAuth [''default''] 0 60000000000 d (OtherAddr ''pipe'') (sv_auth sv)) = Ok session"
proof -
  let ?sf = "\<lparr>sf_config = ''config.json'', sf_gen_config = False, sf_gen_reality = False\<rparr>"
  obtain d where d: "GenerateAuthPayload default_psk 59000000000 (Some (replicate 24 7)) = Some d" by (simp add: GenerateAuthPayload_def)
  have "LoadConfig (sm_decode sample_server_env) (sm_file sample_server_env (sf_config ?sf)) = None"
    by (simp add: sample_server_env_def LoadConfig_def)
  moreover have "sm_parse_time sample_server_env '''' = None" by (simp add: sample_server_env_def)
  moreover have "unix_minute 60000000000 - 1 \<le> unix_minute 59000000000" "unix_minute 59000000000 \<le> unix_minute 60000000000"
    by (simp_all add: unix_minute_def)
  ultimately obtain sv session where "server_main sample_server_env ?sf = Serves [ListenTLS] sv"
    "fst (ValidateAuth [''default''] 0 60000000000 (d @ []) (OtherAddr ''pipe'') (sv_auth sv)) = Ok session"
    using unreadable_config_serves_default [of ?sf sample_server_env 59000000000 "replicate 24 7" d 60000000000 0 "[]" "OtherAddr ''pipe''"] d
    by (auto simp del: replicate.simps)
  then show ?thesis using d by auto
qed

end
