(* ===== verification/Spec2Isabelle.thy ===== *)
theory Spec2Isabelle
  imports FrameIO Relay Replay Conns Auth Firewall Redstone Subscription Stealth GoPath Camouflage Dial
    Server Socks Hub Client Config Reality Mirage Masque WebRTC UQuic Cert Transports Listeners Devices Mobile Commands
begin

text \<open>
  A verification library for stealthlink, a proxy and VPN in Go whose traffic is to look like that of a web site. All paths
  below are under \<^verbatim>\<open>protocol/\<close> of the repository, and files without one under \<^verbatim>\<open>core/transport\<close>.

  \<^bold>\<open>The program.\<close> An application on the client's machine speaks SOCKS5 or HTTP CONNECT to a local proxy (\<^verbatim>\<open>proxy.go\<close>), or
  a packet device feeds a tunnel (\<^verbatim>\<open>tun_client.go\<close>, \<^verbatim>\<open>core/vpn\<close>, \<^verbatim>\<open>mobile\<close>). The client (\<^verbatim>\<open>client.go\<close>) ranks the servers
  of its subscription (\<^verbatim>\<open>subscription.go\<close>), tries their transports one after the other and installs the dialer of the
  first that works in the proxy. A connection is opened with credentials (\<^verbatim>\<open>auth.go\<close>) that travel in an HTTP request for a secret
  path, in a TLS hello, or in a frame of QUIC (\<^verbatim>\<open>upstream.go\<close>, \<^verbatim>\<open>reality.go\<close>, \<^verbatim>\<open>mirage.go\<close>, \<^verbatim>\<open>masque.go\<close>, \<^verbatim>\<open>webrtc.go\<close>,
  \<^verbatim>\<open>uquic.go\<close>, \<^verbatim>\<open>redstone.go\<close>). The server (\<^verbatim>\<open>server.go\<close>, \<^verbatim>\<open>camouflage.go\<close>) answers everybody else like a web site,
  refuses what it has seen before (\<^verbatim>\<open>replay.go\<close>), checks each destination (\<^verbatim>\<open>firewall.go\<close>), dials it and relays (\<^verbatim>\<open>relay.go\<close>). A
  persistent channel carries frames (\<^verbatim>\<open>framing.go\<close>) for packets, streams and UDP associations (\<^verbatim>\<open>udp_assoc.go\<close>).

  \<^bold>\<open>Theories.\<close> Each holds the state and the operations of its files under the names of the source, in the order of the source, with
  their lemmas. Names that clash with another file's or with HOL carry a suffix or a prefix.

    \<^item> \<open>Prelude\<close>, \<open>Codec\<close>: bytes, outcomes (value, error, panic), big-endian integers; wire formats as locales.
    \<^item> \<open>GoStd\<close>, \<open>GoNet\<close>, \<open>GoIO\<close>, \<open>GoHash\<close>, \<open>GoAES\<close>, \<open>GoPath\<close>: what the program uses of Go's standard library: strings and
      base64, IP addresses and prefixes, readers and writers, FNV-1a with SHA-256 and HMAC, AES-GCM, file paths.
    \<^item> \<open>Framing\<close>, \<open>FrameIO\<close>: \<^verbatim>\<open>framing.go\<close>, the formats of all frames; the buffer pool, the reader, and the writer with its batch,
      timer and flusher.
    \<^item> \<open>Relay\<close>, \<open>Listeners\<close>: \<^verbatim>\<open>relay.go\<close>, and the accept loops, the start of the client, the association handles, and
      what is left of \<^verbatim>\<open>camouflage.go\<close>, \<^verbatim>\<open>mirage.go\<close> and \<^verbatim>\<open>peeking_conn.go\<close>.
    \<^item> \<open>Replay\<close>, \<open>Conns\<close>: \<^verbatim>\<open>replay.go\<close> and \<^verbatim>\<open>peeking_conn.go\<close>.
    \<^item> \<open>Auth\<close>, \<open>Firewall\<close>, \<open>Redstone\<close>, \<open>Subscription\<close>, \<open>Camouflage\<close>, \<open>Server\<close>, \<open>Reality\<close>, \<open>Mirage\<close>, \<open>Masque\<close>, \<open>WebRTC\<close>,
      \<open>UQuic\<close>, \<open>Cert\<close>: the file of that name. \<open>Stealth\<close>: \<^verbatim>\<open>padding.go\<close>, \<^verbatim>\<open>stealth.go\<close> and \<^verbatim>\<open>obfuscation.go\<close>. \<open>Dial\<close>: \<^verbatim>\<open>upstream.go\<close>.
    \<^item> \<open>Socks\<close>: \<^verbatim>\<open>proxy.go\<close>. \<open>Hub\<close>: the client's UDP associations and frame loop, \<^verbatim>\<open>udp_assoc.go\<close>. \<open>Client\<close>: \<^verbatim>\<open>client.go\<close> and the packet
      loops of \<^verbatim>\<open>tun_client.go\<close>. \<open>Config\<close>: \<^verbatim>\<open>cmd/server/config.go\<close>.
    \<^item> \<open>Transports\<close>: the transports in their places, in \<^verbatim>\<open>connect\<close> of the client and in the listeners of the server.
    \<^item> \<open>Devices\<close>: \<^verbatim>\<open>core/vpn\<close> on Linux, Windows and Android, and the start of the TUN client. \<open>Mobile\<close>: \<^verbatim>\<open>mobile/mobile.go\<close>.
      \<open>Commands\<close>: \<^verbatim>\<open>cmd/client/main.go\<close> and \<^verbatim>\<open>cmd/server/main.go\<close>.
    \<^item> This theory: properties of client and server together.

  \<^bold>\<open>How code becomes definitions.\<close> A structure is a record that each operation returns updated; several return values are a
  pair, an error with a text the program looks at is that text, and \<open>outcome\<close> tells an error from a run-time panic. Integers of fixed
  width are words, Go's \<^verbatim>\<open>int\<close> an unbounded integer where no overflow can be reached, and times are nanoseconds. A map is a partial function; where Go
  ranges over one, the order is an argument. A connection is an \<open>endpoint\<close>: what will arrive, cut into pieces, with how
  the stream ends, and what has been written, with how many writes succeed. Go's locks become the steps of an \<open>inductive\<close>
  relation, one step per critical section, where the order of the goroutines matters: the replay filter, the client's hub, the server's sockets,
  the sessions of MIRAGE, the stop channels; and lists of events where they only share a writer or a
  device. Commands on the system are run in the state monad of the library, which keeps what has been run.

  \<^bold>\<open>Interfaces.\<close> The contracts between components are locales, each interpreted on the definitions of the code.
  \<open>byte_reader\<close> and \<open>byte_writer\<close> (\<open>GoIO\<close>) say what every reader and writer promises; \<open>conn_read\<close> and \<open>conn_write\<close> are shown to keep
  it, and sublocales show that the peeking connection, the prefixed one, the Redstone tunnel and the
  WebRTC connection are readers again. On top of them stand \<open>frame_source\<close>, \<open>frame_sink\<close>, \<open>header_source\<close>, \<open>copier\<close>, \<open>mc_source\<close> and
  \<open>message_channel\<close>. \<open>decoder\<close>, \<open>codec\<close> and \<open>canonical_codec\<close> are the wire formats, \<open>seen_filter\<close> what the replay filter wants of
  the Bloom filter, \<open>sealed_box\<close> what REALITY wants of AES-GCM.

  \<^bold>\<open>What is shown.\<close> Round trips of every wire format; readers that depend on the byte stream and not on how it is cut;
  the frame writer under every schedule of flushes and timer events. Exactly who is let in (by
  credentials, by a TLS hello, over HTTP/3, uQUIC, WebRTC), which destinations pass, what a refused or unknown client sees. Invariants of the shared
  tables under every interleaving: sessions and counters, sockets, channels, upload pumps, the replay filter, the stop channel.
  What a proxied connection, a TUN session, a stream, a datagram and the mobile tunnel deliver. How connecting fails and goes on. And where the code
  falls short, the exact extent: the properties state what happens, also when it is not what was meant.

  \<^bold>\<open>Loops and bounds.\<close> A loop that waits for its input is \<open>partial_function\<close> (\<open>read_loop\<close>, \<open>copy_loop\<close>, \<open>peek_loop\<close>, \<open>mc_read\<close>,
  \<open>mirage_uplink_loop\<close>, \<open>webrtc_fill\<close>, \<open>proxyToTarget\<close>), so that not returning is \<open>None\<close>, and the properties state that it
  returns. Other loops are structural or have a measure. \<open>drain\<close> of \<open>Codec\<close> takes fuel, of which more than the length of the input
  is always enough. \<open>connectLoop\<close> takes a number of rounds because it goes on until the client is stopped; the accept loops, the wait of the TUN client and
  the packet loops take the list of what happens in each round. Capacities are those of the source: 64 datagrams per
  association, 65535 bytes per frame, 1000 attempts per window.

  \<^bold>\<open>Parameters.\<close> Code outside the repository is an argument: TLS and uTLS dials, QUIC and HTTP/3, the WebRTC and HTTP clients, X25519 and HKDF
  (with the agreement of both sides as the hypothesis), \<^verbatim>\<open>crypto/x509\<close>, the JSON and YAML decoders, the RFC 3339 parser, name
  resolution, the file system, the programs that configure devices, the clock and random draws. No proof rests on a
  cryptographic function being hard to break.

  \<^bold>\<open>Not modelled.\<close> \<^verbatim>\<open>debug_utls.go\<close>, a separate program that tries one TLS handshake. Socket options beyond whether they
  are set or passed on, deadlines beyond the actions that set them, and the methods that only pass a call on (the reading and writing
  of devices, the addresses and deadlines of wrapped connections). The floating-point sizing of the Bloom filter, whose
  result is taken as given. Logging, flags and signals.
\<close>

section \<open>Opening a connection\<close>

lemma opening_accepted:
  assumes "credentials_current psk t0 nonce env (cm_auth cm)" "GenerateAuthPayload psk t0 (Some nonce) = Some d"
    and "cm_handler cm" "SecretPath (cm_config cm) = path" "word_text path" "clean_text path" "clean_text sni"
    and "conn_read 4096 c = (Got (http_auth_request path sni d), c')"
  shows "\<exists>s cm'. handleConnection conn_read env c cm =
    Some ([SetDeadline, Sent switch_response, ClearDeadline, Handler (Bare c') s], cm')"
proof -
  obtain s am' where v: "length d = 56"
    "ValidateAuth (en_order env) (en_rate env) (en_now env) d (en_addr env) (cm_auth cm) = (Ok s, am')"
    using credentials_accepted [OF assms(1,2)] by blast
  let ?req = "http_auth_request path sni d"
  have p: "presented (cm_config cm) ?req = Some d"
    by (rule request_presents) (use assms(4-7) v(1) in auto)
  then have a: "admitted env cm ?req = [s]" using v assms(3) by (simp add: admitted_def)
  obtain as cm' where h: "handleHTTPRequest env c' ?req cm = Some (as, cm')"
    using p v assms(3) request_is_http [of path sni d]
    by (auto simp: handleHTTPRequest_def presented_def Let_def split: if_splits)
  then have "handed_sessions as = [s]" using handleHTTPRequest_admitted [OF h request_is_http] a by simp
  from http_handover [OF h this] h show ?thesis
    using assms(8) request_is_http [of path sni d] by (simp add: handleConnection_def)
qed

lemma switch_read:
  assumes "arriving (ep_in ep) = switch_response # rest"
  shows "ep_read 4096 ep = (Got switch_response, ep\<lparr>ep_in := (ep_in ep)\<lparr>arriving := rest\<rparr>\<rparr>)"
  using assms switch_accepted(2) by (simp add: ep_read_def conn_read_def)

lemma exchange_completes:
  assumes "GenerateAuthPayload psk t0 (Some nonce) = Some d" "path \<noteq> ''''"
    and "lives (ep_out ep) = None" "arriving (ep_in ep) = switch_response # rest" "concat rest = 0 # bs"
  shows "\<exists>ep'. vpn_exchange sni psk t0 (Some nonce) path hdr ep = Some (Ok ep') \<and>
    taken (ep_out ep') = taken (ep_out ep) @ [http_auth_request path sni d, hdr] \<and> incoming ep' = bs"
proof -
  let ?o = "(ep_out ep)\<lparr>taken := taken (ep_out ep) @ [http_auth_request path sni d]\<rparr>"
  let ?ep1 = "ep\<lparr>ep_out := ?o\<rparr>"
  let ?ep2 = "?ep1\<lparr>ep_in := (ep_in ep)\<lparr>arriving := rest\<rparr>\<rparr>"
  let ?ep3 = "?ep2\<lparr>ep_out := ?o\<lparr>taken := taken ?o @ [hdr]\<rparr>\<rparr>"
  have w: "ep_write (http_auth_request path sni d) ep = (None, ?ep1)" "ep_write hdr ?ep2 = (None, ?ep3)"
    using assms(3) by (simp_all add: ep_write_def conn_write_def)
  have r: "ep_read 4096 ?ep1 = (Got switch_response, ?ep2)" using switch_read [of ?ep1] assms(4) by simp
  obtain c where c: "ep_read_full 1 ?ep3 = Some (Ok [0], ?ep3\<lparr>ep_in := c\<rparr>)" "concat (arriving c) = bs"
    using status_read [of ?ep3] assms(5) by auto
  show ?thesis
    using assms(1,2) w r c switch_accepted(1)
    by (auto simp: vpn_exchange_def read_status_def dial_status_def)
qed

text \<open>C2. A client with current credentials gets through. When the server's camouflage reads the client's opening request,
  it answers with the switching response and hands the connection, positioned after the request,
  to the VPN; and when the client then reads that response and status 0 its dial succeeds, having
  written exactly the request and the address header, and what follows the status is left for the
  connection's user.\<close>

theorem opening_completes:
  assumes "credentials_current psk t0 nonce env (cm_auth cm)" "GenerateAuthPayload psk t0 (Some nonce) = Some d"
    and "cm_handler cm" "SecretPath (cm_config cm) = path" "word_text path" "clean_text path" "clean_text sni" "path \<noteq> ''''"
    and "conn_read 4096 c = (Got (http_auth_request path sni d), c')"
    and "lives (ep_out ep) = None" "arriving (ep_in ep) = switch_response # rest" "concat rest = 0 # bs"
  shows "\<exists>s cm' ep'. handleConnection conn_read env c cm =
      Some ([SetDeadline, Sent switch_response, ClearDeadline, Handler (Bare c') s], cm') \<and>
    vpn_exchange sni psk t0 (Some nonce) path hdr ep = Some (Ok ep') \<and>
    taken (ep_out ep') = taken (ep_out ep) @ [http_auth_request path sni d, hdr] \<and> incoming ep' = bs"
  using opening_accepted [OF assms(1-7,9)] exchange_completes [OF assms(2,8,10-12)] by blast



theorem opening_completes_witness:
  "\<exists>d s cm' ep'. GenerateAuthPayload ''k'' 59000000000 (Some (replicate 24 7)) = Some d \<and>
    handleConnection conn_read sample_request
      \<lparr>arriving = [http_auth_request ''/api/v2/sync'' ''example.org'' d, [1, 2]], ending = EOF\<rparr>
      (sample_camouflage\<lparr>cm_auth := sample_manager\<rparr>) =
      Some ([SetDeadline, Sent switch_response, ClearDeadline, Handler (Bare \<lparr>arriving = [[1, 2]], ending = EOF\<rparr>) s], cm') \<and>
    vpn_exchange ''example.org'' ''k'' 59000000000 (Some (replicate 24 7)) ''/api/v2/sync'' [1, 10, 0, 0, 1, 0, 80]
      (sample_conn [switch_response, [0, 9], [8]]) = Some (Ok ep') \<and> incoming ep' = [9, 8]"
proof -
  let ?path = "''/api/v2/sync''" and ?sni = "''example.org''" and ?cm = "sample_camouflage\<lparr>cm_auth := sample_manager\<rparr>"
  obtain d where d: "GenerateAuthPayload ''k'' 59000000000 (Some (replicate 24 7)) = Some d"
    by (simp add: GenerateAuthPayload_def)
  have cred: "credentials_current ''k'' 59000000000 (replicate 24 7) sample_request (cm_auth ?cm)"
    using sample_current [of "en_addr sample_request"] by simp
  have "length d = 56" using credentials_accepted(1) [OF cred d] .
  then have "length (http_auth_request ?path ?sni d) \<le> 4096"
    by (simp add: http_auth_request_def http_auth_lines_def length_b64_encode crlf_def)
  then have r: "conn_read 4096 \<lparr>arriving = [http_auth_request ?path ?sni d, [1, 2]], ending = EOF\<rparr> =
      (Got (http_auth_request ?path ?sni d), \<lparr>arriving = [[1, 2]], ending = EOF\<rparr>)"
    by (simp add: conn_read_def)
  have "cm_handler ?cm" "SecretPath (cm_config ?cm) = ?path" "word_text ?path" "clean_text ?path" "clean_text ?sni" "?path \<noteq> ''''"
    by (simp_all add: sample_camouflage_def DefaultCamouflageConfig_def word_text_def clean_text_def is_space_def)
  from opening_completes [OF cred d this r, of "sample_conn [switch_response, [0, 9], [8]]" "[[0, 9], [8]]" "[9, 8]"]
  show ?thesis using d by (simp add: sample_conn_def) blast
qed

section \<open>The persistent channel\<close>

text \<open>C24. The persistent channel opens at both ends: the client, having got the switching response and a status 0, has sent its request
  and the mode byte 0; and the server, reading that byte, answers 0 and goes on
  with a TUN session on exactly the bytes that follow, with nothing counted yet.\<close>

theorem persistent_channel_opens:
  assumes "GenerateAuthPayload psk (ce_now env) (ce_nonce env) = Some d" "path \<noteq> ''''"
    and "lives (ep_out ep) = None" "arriving (ep_in ep) = switch_response # rest" "concat rest = 0 # bs"
    and "lives (ep_out conn) = None" "incoming conn = 0 # fs"
  shows "\<exists>ep' conn'. persistent_exchange env sni psk path ep = Some (Ok ep') \<and>
    taken (ep_out ep') = taken (ep_out ep) @ [http_auth_request path sni d, [0]] \<and> incoming ep' = bs \<and>
    handleSmartConnection os conn session sv = Some (SmartTUN conn', sv) \<and>
    written conn' = written conn @ [AuthStatusOK] \<and> incoming conn' = fs"
proof -
  let ?o = "(ep_out ep)\<lparr>taken := taken (ep_out ep) @ [http_auth_request path sni d]\<rparr>"
  let ?ep1 = "ep\<lparr>ep_out := ?o\<rparr>"
  let ?ep2 = "?ep1\<lparr>ep_in := (ep_in ep)\<lparr>arriving := rest\<rparr>\<rparr>"
  let ?ep3 = "?ep2\<lparr>ep_out := ?o\<lparr>taken := taken ?o @ [[0]]\<rparr>\<rparr>"
  have w: "ep_write (http_auth_request path sni d) ep = (None, ?ep1)" "ep_send [0] ?ep2 = ?ep3"
    using assms(3) by (simp_all add: ep_send_def ep_write_def conn_write_def)
  have r: "ep_read 4096 ?ep1 = (Got switch_response, ?ep2)" using switch_read [of ?ep1] assms(4) by simp
  obtain c where c: "ep_read_full 1 ?ep3 = Some (Ok [0], ?ep3\<lparr>ep_in := c\<rparr>)" "concat (arriving c) = bs"
    using status_read [of ?ep3] assms(5) by auto
  obtain c' where c': "ep_read_full 1 conn = Some (Ok [0], conn\<lparr>ep_in := c'\<rparr>)" "concat (arriving c') = fs"
    using status_read [of conn] assms(7) by auto
  show ?thesis
    using assms(1,2,6) w r c c' switch_accepted(1)
    by (auto simp: persistent_exchange_def persistent_status_def AuthStatusOK_def handleSmartConnection_def)
qed

theorem persistent_channel_opens_witness:
  "\<exists>ep' conn'. persistent_exchange
      \<lparr>ce_tls = \<lparr>dial_tls = \<lambda>_ _. None, dial_utls = \<lambda>_ _ _. None\<rparr>, ce_text = '''', ce_io_text = (\<lambda>_. ''''), ce_now = 0,
       ce_nonce = Some (replicate 24 0), ce_quic = (\<lambda>_ _. None)\<rparr> ''example.org'' ''k'' ''/api''
      (sample_conn [switch_response, [0, 5]]) = Some (Ok ep') \<and> incoming ep' = [5] \<and>
    handleSmartConnection sample_outside (sample_conn [[0], [0, 2, 9, 1]]) \<lparr>as_user = sample_user, as_remote = ''''\<rparr>
      sample_server =
      Some (SmartTUN conn', sample_server) \<and>
    incoming conn' = [0, 2, 9, 1]"
proof -
  let ?env = "\<lparr>ce_tls = \<lparr>dial_tls = \<lambda>_ _. None, dial_utls = \<lambda>_ _ _. None\<rparr>, ce_text = '''', ce_io_text = (\<lambda>_. ''''), ce_now = 0,
       ce_nonce = Some (replicate 24 0), ce_quic = (\<lambda>_ _. None)\<rparr>"
  obtain d where d: "GenerateAuthPayload ''k'' (ce_now ?env) (ce_nonce ?env) = Some d" by (simp add: GenerateAuthPayload_def)
  show ?thesis
    using persistent_channel_opens [OF d, of "''/api''" "sample_conn [switch_response, [0, 5]]" "[[0, 5]]" "[5]"
        "sample_conn [[0], [0, 2, 9, 1]]" "[0, 2, 9, 1]" "''example.org''" sample_outside
        "\<lparr>as_user = sample_user, as_remote = ''''\<rparr>"
        sample_server]
    by (auto simp: sample_conn_def)
qed

section \<open>A datagram and its answer\<close>



end
